(* ===== verification/Prelude.thy ===== *)
theory Prelude
  imports Main "HOL-Library.Word" "HOL-Library.Multiset"
begin

text \<open>
  Shared vocabulary of the development: the machine integers of the C++ code, its
  exceptions as values, the \<^verbatim>\<open>candidates[i] = candidates.back(); candidates.pop_back()\<close>
  idiom on vectors, and the named collections the component theories fill.

  \<^verbatim>\<open>std::size_t\<close>, \<^verbatim>\<open>std::uint64_t\<close> and \<^verbatim>\<open>std::uintptr_t\<close> are \<^typ>\<open>64 word\<close> (the supported
  platforms are 64-bit), \<^verbatim>\<open>std::uint32_t\<close> is \<^typ>\<open>32 word\<close>, \<^verbatim>\<open>std::int32_t\<close> process ids and
  \<^verbatim>\<open>std::intptr_t\<close> native handles are \<^typ>\<open>int\<close>.
\<close>

unbundle bit_operations_syntax

named_theorems reader_simps \<open>reader-state word of the control header\<close>
named_theorems os_simps \<open>kernel model: mappings, descriptors, memory objects\<close>
named_theorems pool_simps \<open>publisher pool\<close>
named_theorems buffer_simps \<open>buffers and handles\<close>

type_synonym u8 = "8 word"
type_synonym u32 = "32 word"
type_synonym u64 = "64 word"

text \<open>Identity of a kernel memory object (a memfd, or a Windows file mapping).\<close>

type_synonym oid = nat

text \<open>
  The exceptions the code throws, with the message of the source.  A throwing function
  returns \<open>Inl\<close>; every \<open>throw\<close> statement is a branch of the model.
\<close>

datatype cpp_error =
    Invalid_argument string
  | Runtime_error string
  | Length_error string
  | Overflow_error string
  | Shared_buffer_error string
  | Py_value_error string
  | Py_buffer_error string

section \<open>Vectors: swap with the last element and pop\<close>

definition swap_remove :: "nat \<Rightarrow> 'a list \<Rightarrow> 'a list" where
  "swap_remove i xs = butlast (xs[i := last xs])"

lemma length_swap_remove [simp]: "length (swap_remove i xs) = length xs - 1"
  by (simp add: swap_remove_def)

lemma swap_remove_eq_Nil_iff: "xs \<noteq> [] \<Longrightarrow> swap_remove i xs = [] \<longleftrightarrow> length xs = 1"
  by (metis One_nat_def Suc_pred diff_is_0_eq length_0_conv length_greater_0_conv length_swap_remove
      less_Suc_eq_le le_less not_less)

lemma mset_butlast: "xs \<noteq> [] \<Longrightarrow> mset (butlast xs) = mset xs - {#last xs#}"
  by (induction xs rule: rev_induct) auto

lemma mset_swap_remove:
  assumes "i < length xs"
  shows "mset (swap_remove i xs) = mset xs - {#xs ! i#}"
proof (cases "i = length xs - 1")
  case True
  from assms have ne: "xs \<noteq> []" by auto
  with True have "xs ! i = last xs" by (simp add: last_conv_nth)
  then have "xs[i := last xs] = xs" by (metis list_update_id)
  with ne \<open>xs ! i = last xs\<close> show ?thesis
    by (simp add: swap_remove_def mset_butlast)
next
  case False
  from assms have ne: "xs \<noteq> []" by auto
  with False assms have "last (xs[i := last xs]) = last xs"
    by (auto simp: last_conv_nth)
  then show ?thesis using assms ne
    by (simp add: swap_remove_def mset_butlast mset_update)
qed

lemma mset_swap_remove_add:
  "i < length xs \<Longrightarrow> add_mset (xs ! i) (mset (swap_remove i xs)) = mset xs"
  by (simp add: mset_swap_remove)

lemma set_swap_remove_subset: "i < length xs \<Longrightarrow> set (swap_remove i xs) \<subseteq> set xs"
  by (metis mset_swap_remove in_diffD set_mset_mset subsetI)

lemma distinct_swap_remove:
  assumes "distinct xs" and "i < length xs"
  shows "distinct (swap_remove i xs) \<and> set (swap_remove i xs) = set xs - {xs ! i}"
proof -
  have m: "mset xs = mset (xs ! i # swap_remove i xs)"
    using assms(2) by (simp add: mset_swap_remove)
  then have "distinct (xs ! i # swap_remove i xs)"
    using assms(1) mset_eq_imp_distinct_iff by blast
  moreover have "set xs = set (xs ! i # swap_remove i xs)"
    using m by (metis set_mset_mset)
  ultimately show ?thesis by auto
qed


section \<open>Numbers as text\<close>

text \<open>\<^verbatim>\<open>std::to_string\<close> on unsigned values and on \<^verbatim>\<open>int\<close>.\<close>

definition digit_char :: "nat \<Rightarrow> char" where
  "digit_char d = char_of (48 + d)"

fun to_string :: "nat \<Rightarrow> string" where
  "to_string n = (if n < 10 then [digit_char n] else to_string (n div 10) @ [digit_char (n mod 10)])"

declare to_string.simps [simp del]

definition int_to_string :: "int \<Rightarrow> string" where
  "int_to_string i = (if i < 0 then CHR ''-'' # to_string (nat (- i)) else to_string (nat i))"

lemma of_char_digit: "d < 10 \<Longrightarrow> of_char (digit_char d) = (48 + d :: nat)"
  by (simp add: digit_char_def take_bit_nat_eq_self)

lemma digit_char_eq: "d < 10 \<Longrightarrow> e < 10 \<Longrightarrow> digit_char d = digit_char e \<longleftrightarrow> d = e"
  by (metis add_left_cancel of_char_digit)

lemma to_string_chars: "c \<in> set (to_string n) \<Longrightarrow> 48 \<le> (of_char c :: nat) \<and> (of_char c :: nat) \<le> 57"
proof (induction n rule: to_string.induct)
  case (1 n)
  show ?case
  proof (cases "n < 10")
    case True
    with 1(2) show ?thesis by (simp add: to_string.simps [of n] of_char_digit)
  next
    case False
    with 1 show ?thesis by (auto simp: to_string.simps [of n] of_char_digit)
  qed
qed

lemma to_string_inj: "to_string m = to_string n \<Longrightarrow> m = n"
proof (induction m arbitrary: n rule: to_string.induct)
  case (1 m)
  have ne: "to_string k \<noteq> []" for k by (subst to_string.simps) simp
  show ?case
  proof (cases "m < 10")
    case True
    with 1(2) ne [of "n div 10"] have "n < 10"
      by (cases "n < 10") (simp_all add: to_string.simps [of m] to_string.simps [of n] Cons_eq_append_conv)
    with True 1(2) show ?thesis
      by (simp add: to_string.simps [of m] to_string.simps [of n] digit_char_eq)
  next
    case False
    with 1(2) ne [of "m div 10"] have n: "\<not> n < 10"
      by (cases "n < 10") (simp_all add: to_string.simps [of m] to_string.simps [of n] append_eq_Cons_conv)
    with False 1(2) have "to_string (m div 10) = to_string (n div 10)" and "m mod 10 = n mod 10"
      by (simp_all add: to_string.simps [of m] to_string.simps [of n] digit_char_eq)
    with 1(1) [OF False] show ?thesis by (metis div_mult_mod_eq)
  qed
qed

lemma append_Cons_split:
  "xs @ c # us = ys @ c # vs \<Longrightarrow> c \<notin> set xs \<Longrightarrow> c \<notin> set ys \<Longrightarrow> xs = ys \<and> us = vs"
  by (induction xs arbitrary: ys) (auto simp: Cons_eq_append_conv append_eq_Cons_conv)

text \<open>A decimal number followed by a character that is no digit can be read back.\<close>

lemma to_string_then:
  assumes eq: "to_string m @ c # xs = to_string n @ c # ys" and c: "\<not> (48 \<le> (of_char c :: nat) \<and> (of_char c :: nat) \<le> 57)"
  shows "m = n \<and> xs = ys"
proof -
  have no: "c \<notin> set (to_string k)" for k using c to_string_chars by blast
  have "to_string m = to_string n \<and> xs = ys"
    using eq by (rule append_Cons_split) (simp_all add: no)
  then show ?thesis using to_string_inj by blast
qed

lemma int_to_string_inj: "int_to_string h = int_to_string h' \<Longrightarrow> h = h'"
proof -
  assume eq: "int_to_string h = int_to_string h'"
  have "CHR ''-'' \<notin> set (to_string n)" for n using to_string_chars [of "CHR ''-''" n] by auto
  then have m: "to_string n \<noteq> CHR ''-'' # xs" for n xs by (metis list.set_intros(1))
  show ?thesis using eq m m [symmetric] to_string_inj
    by (cases "h < 0"; cases "h' < 0") (auto simp: int_to_string_def dest!: to_string_inj)
qed

end
