(* ===== verification/Control.thy ===== *)
theory Control
  imports Prelude
begin

text \<open>
  The control header at the start of every shared mapping, and the four inline functions on
  its \<open>reader_state\<close> word (\<^verbatim>\<open>shared_buffer_memory_pool.hpp\<close>).

  A header lives in a memory object; several processes, and several mappings of one process,
  see the same one.  So a pointer \<^verbatim>\<open>SharedBufferControlHeader *\<close> is an \<open>oid option\<close> (the null
  pointer is \<open>None\<close>) and the headers of all memory objects are a store \<open>cmem\<close>.

  \<open>acquire_loop\<close> is the compare-exchange loop itself with an explicit environment (what the
  other processes do between two atomic operations, and spurious failures of the weak
  exchange); \<open>try_acquire_shared_buffer_reader\<close> is the uninterrupted execution.  The lemmas
  relate both to the abstract lock \<open>reader_lock\<close> = claimed, or some number of readers.
\<close>

section \<open>Constants and layout\<close>

definition kSharedBufferControlMagic :: u64 where
  "kSharedBufferControlMagic = 0x5348415245425546"

definition kSharedBufferControlAbiVersion :: u32 where
  "kSharedBufferControlAbiVersion = 3"

definition kSharedBufferPayloadOffset :: u64 where
  "kSharedBufferPayloadOffset = 64"

definition kSharedBufferGracePeriodUs :: u64 where
  "kSharedBufferGracePeriodUs = 100000"

definition kSharedBufferReuseClaimed :: u32 where
  "kSharedBufferReuseClaimed = push_bit 31 1"

definition kSharedBufferReaderCountMask :: u32 where
  "kSharedBufferReaderCountMask = NOT kSharedBufferReuseClaimed"

record control_header =
  magic :: u64
  abi_version :: u32
  payload_size :: u64
  ipc_uid :: u64
  reader_state :: u32
  publish_timestamp_us :: u64

definition default_control_header :: control_header where
  "default_control_header =
     \<lparr>magic = kSharedBufferControlMagic, abi_version = kSharedBufferControlAbiVersion,
      payload_size = 0, ipc_uid = 0, reader_state = 0, publish_timestamp_us = 0\<rparr>"

type_synonym cmem = "oid \<Rightarrow> control_header"

section \<open>Operations on the reader state\<close>

definition acquire_refused :: "u32 \<Rightarrow> bool" where
  "acquire_refused value \<longleftrightarrow>
     value AND kSharedBufferReuseClaimed \<noteq> 0 \<or>
     value AND kSharedBufferReaderCountMask = kSharedBufferReaderCountMask"

text \<open>
  The loop of \<^verbatim>\<open>try_acquire_shared_buffer_reader\<close>: \<open>value\<close> is the local variable, \<open>st\<close> the
  shared word.  One environment item per iteration: the change other processes make to the
  word before this iteration's exchange, and whether the weak exchange fails spuriously.
  \<open>None\<close>: still looping when the environment list ends.
\<close>

fun acquire_loop :: "u32 \<Rightarrow> u32 \<Rightarrow> ((u32 \<Rightarrow> u32) \<times> bool) list \<Rightarrow> (bool \<times> u32) option" where
  "acquire_loop value st env =
     (if acquire_refused value then Some (False, st)
      else case env of
        [] \<Rightarrow> None
      | (interfere, spurious) # rest \<Rightarrow>
          (let st' = interfere st
           in if st' = value \<and> \<not> spurious then Some (True, value + 1)
              else acquire_loop st' st' rest))"

definition try_acquire_shared_buffer_reader :: "oid option \<Rightarrow> cmem \<Rightarrow> bool \<times> cmem" where
  "try_acquire_shared_buffer_reader control m =
     (case control of
        None \<Rightarrow> (False, m)
      | Some c \<Rightarrow>
          (let value = reader_state (m c)
           in if acquire_refused value then (False, m)
              else (True, m(c := (m c)\<lparr>reader_state := value + 1\<rparr>))))"

definition try_claim_shared_buffer_reuse :: "oid option \<Rightarrow> cmem \<Rightarrow> bool \<times> cmem" where
  "try_claim_shared_buffer_reuse control m =
     (case control of
        None \<Rightarrow> (False, m)
      | Some c \<Rightarrow>
          (if reader_state (m c) = 0
           then (True, m(c := (m c)\<lparr>reader_state := kSharedBufferReuseClaimed\<rparr>))
           else (False, m)))"

definition release_shared_buffer_reader :: "oid option \<Rightarrow> cmem \<Rightarrow> cmem" where
  "release_shared_buffer_reader control m =
     (case control of
        None \<Rightarrow> m
      | Some c \<Rightarrow> m(c := (m c)\<lparr>reader_state := reader_state (m c) - 1\<rparr>))"

definition release_shared_buffer_reuse_claim :: "oid option \<Rightarrow> cmem \<Rightarrow> cmem" where
  "release_shared_buffer_reuse_claim control m =
     (case control of
        None \<Rightarrow> m
      | Some c \<Rightarrow> m(c := (m c)\<lparr>reader_state := 0\<rparr>))"

section \<open>The reader-state word: claim bit and reader count\<close>

lemma claimed_value: "kSharedBufferReuseClaimed = 0x80000000"
  by (simp add: kSharedBufferReuseClaimed_def push_bit_eq_mult)

lemma mask_value: "kSharedBufferReaderCountMask = 0x7FFFFFFF"
  by (simp add: kSharedBufferReaderCountMask_def claimed_value not_eq_complement)

lemma mask_eq_mask: "kSharedBufferReaderCountMask = mask 31"
  by (simp add: mask_value mask_eq_exp_minus_1)

lemma claim_bit_iff: "v AND kSharedBufferReuseClaimed = 0 \<longleftrightarrow> \<not> bit v 31"
  unfolding kSharedBufferReuseClaimed_def push_bit_eq_mult mult_1 by (rule and_exp_eq_0_iff_not_bit)

lemma no_claim_bit_iff: "\<not> bit (v :: u32) 31 \<longleftrightarrow> unat v < 2 ^ 31"
proof -
  have "bit v 31 \<longleftrightarrow> bit (unat v) 31" by (simp add: bit_unsigned_iff)
  then have "bit v 31 \<longleftrightarrow> odd (unat v div 2 ^ 31)" by (simp only: bit_iff_odd)
  moreover have "unat v < 2 ^ 32" using unsigned_less [of v] by simp
  moreover have "unat v div 2 ^ 31 = 1" if "\<not> unat v < 2 ^ 31"
    using that \<open>unat v < 2 ^ 32\<close> by (intro div_nat_eqI) simp_all
  ultimately show ?thesis by (cases "unat v < 2 ^ 31") simp_all
qed

lemma count_mask_iff:
  "v AND kSharedBufferReaderCountMask = kSharedBufferReaderCountMask \<longleftrightarrow>
     unat v mod 2 ^ 31 = 2 ^ 31 - 1"
proof -
  have "v AND kSharedBufferReaderCountMask = take_bit 31 v"
    by (simp only: mask_eq_mask take_bit_eq_mask)
  moreover have "unat (take_bit 31 v) = unat v mod 2 ^ 31"
    by (simp only: unsigned_take_bit_eq) (rule take_bit_eq_mod)
  moreover have "unat kSharedBufferReaderCountMask = 2 ^ 31 - 1"
    by (simp add: mask_value)
  ultimately show ?thesis by (metis word_unat_eq_iff)
qed

lemma acquire_refused_iff [reader_simps]: "acquire_refused v \<longleftrightarrow> 2 ^ 31 - 1 \<le> unat v"
proof -
  have "acquire_refused v \<longleftrightarrow> \<not> unat v < 2 ^ 31 \<or> unat v mod 2 ^ 31 = 2 ^ 31 - 1"
    by (simp only: acquire_refused_def claim_bit_iff no_claim_bit_iff count_mask_iff)
  also have "\<dots> \<longleftrightarrow> 2 ^ 31 - 1 \<le> unat v"
    by (cases "unat v < 2 ^ 31") auto
  finally show ?thesis .
qed

lemma unat_claimed [reader_simps]: "unat kSharedBufferReuseClaimed = 2 ^ 31"
  by (simp add: claimed_value)

lemma unat_acquired [reader_simps]:
  "\<not> acquire_refused v \<Longrightarrow> unat (v + 1) = unat v + 1"
  by (auto simp: acquire_refused_iff unat_word_ariths)

lemma unat_released [reader_simps]: "0 < unat v \<Longrightarrow> unat (v - 1) = unat v - 1" for v :: u32
  by (metis unat_minus_one neq0_conv unat_0)

section \<open>The abstract reader lock\<close>

text \<open>What the word means: claimed for reuse, or open with a number of readers.\<close>

datatype reader_lock = Claimed | Readers nat

definition max_readers :: nat where
  "max_readers = 2 ^ 31 - 1"

definition reader_lock_of :: "u32 \<Rightarrow> reader_lock" where
  "reader_lock_of v = (if bit v 31 then Claimed else Readers (unat v))"

lemma reader_lock_of_Readers [reader_simps]:
  "reader_lock_of v = Readers n \<longleftrightarrow> unat v = n \<and> n \<le> max_readers"
  using no_claim_bit_iff [of v] by (auto simp: reader_lock_of_def max_readers_def)

lemma reader_lock_of_Claimed [reader_simps]:
  "reader_lock_of v = Claimed \<longleftrightarrow> max_readers < unat v"
  using no_claim_bit_iff [of v] by (auto simp: reader_lock_of_def max_readers_def)

lemma acquire_refused_lock:
  "acquire_refused v \<longleftrightarrow> reader_lock_of v = Claimed \<or> reader_lock_of v = Readers max_readers"
  by (simp only: acquire_refused_iff reader_lock_of_Readers reader_lock_of_Claimed
      max_readers_def [symmetric]) auto

text \<open>
  The contract the rest of the code relies on: readers are counted, at most \<open>max_readers\<close> of
  them, a claim needs zero readers, and while it is held nobody becomes a reader.
\<close>

locale reader_lock =
  fixes acquire :: "'s \<Rightarrow> bool \<times> 's"
    and claim :: "'s \<Rightarrow> bool \<times> 's"
    and release :: "'s \<Rightarrow> 's"
    and unclaim :: "'s \<Rightarrow> 's"
    and lock :: "'s \<Rightarrow> reader_lock"
  assumes acquire_open: "lock s = Readers n \<Longrightarrow> n < max_readers \<Longrightarrow>
        fst (acquire s) \<and> lock (snd (acquire s)) = Readers (Suc n)"
    and acquire_full: "lock s = Readers n \<Longrightarrow> max_readers \<le> n \<Longrightarrow> acquire s = (False, s)"
    and acquire_claimed: "lock s = Claimed \<Longrightarrow> acquire s = (False, s)"
    and claim_idle: "lock s = Readers 0 \<Longrightarrow> fst (claim s) \<and> lock (snd (claim s)) = Claimed"
    and claim_busy: "lock s \<noteq> Readers 0 \<Longrightarrow> claim s = (False, s)"
    and release_reader: "lock s = Readers (Suc n) \<Longrightarrow> lock (release s) = Readers n"
    and unclaim_open: "lock (unclaim s) = Readers 0"
begin

lemma acquire_iff: "fst (acquire s) \<longleftrightarrow> (\<exists>n < max_readers. lock s = Readers n)"
  by (cases "lock s") (auto simp: acquire_claimed dest: acquire_open acquire_full leI)

lemma claim_iff: "fst (claim s) \<longleftrightarrow> lock s = Readers 0"
  by (cases "lock s = Readers 0") (auto simp: claim_busy dest: claim_idle)

lemma acquired: "lock s = Readers n \<Longrightarrow> n < max_readers \<Longrightarrow> lock (snd (acquire s)) = Readers (Suc n)"
  using acquire_open by blast

lemma acquired_blocks_claim: "fst (acquire s) \<Longrightarrow> claim (snd (acquire s)) = (False, snd (acquire s))"
  by (auto simp: acquire_iff acquired intro: claim_busy)

lemma claimed_blocks_acquire: "fst (claim s) \<Longrightarrow> acquire (snd (claim s)) = (False, snd (claim s))"
  by (auto simp: claim_iff dest: claim_idle intro: acquire_claimed)

lemma acquire_release: "fst (acquire s) \<Longrightarrow> lock (release (snd (acquire s))) = lock s"
  by (auto simp: acquire_iff acquired release_reader)

lemma claim_unclaim: "fst (claim s) \<Longrightarrow> lock (unclaim (snd (claim s))) = lock s"
  by (simp add: claim_iff unclaim_open)

lemma failed_acquire: "\<not> fst (acquire s) \<Longrightarrow> snd (acquire s) = s"
  by (metis acquire_claimed acquire_full acquire_iff not_le reader_lock.exhaust snd_conv)

end

interpretation header: reader_lock
  "try_acquire_shared_buffer_reader (Some c)" "try_claim_shared_buffer_reuse (Some c)"
  "release_shared_buffer_reader (Some c)" "release_shared_buffer_reuse_claim (Some c)"
  "\<lambda>m. reader_lock_of (reader_state (m c))" for c
  by unfold_locales
    (auto simp: reader_simps max_readers_def Let_def unat_eq_zero
      try_acquire_shared_buffer_reader_def try_claim_shared_buffer_reuse_def
      release_shared_buffer_reader_def release_shared_buffer_reuse_claim_def)

text \<open>The four functions write the reader state of one header and nothing else.\<close>

lemma try_acquire_frame [simp]:
  "magic (snd (try_acquire_shared_buffer_reader p m) c) = magic (m c)"
  "abi_version (snd (try_acquire_shared_buffer_reader p m) c) = abi_version (m c)"
  "payload_size (snd (try_acquire_shared_buffer_reader p m) c) = payload_size (m c)"
  "ipc_uid (snd (try_acquire_shared_buffer_reader p m) c) = ipc_uid (m c)"
  "publish_timestamp_us (snd (try_acquire_shared_buffer_reader p m) c) = publish_timestamp_us (m c)"
  "p \<noteq> Some c \<Longrightarrow> snd (try_acquire_shared_buffer_reader p m) c = m c"
  by (auto simp: try_acquire_shared_buffer_reader_def Let_def split: option.splits)

lemma try_claim_frame [simp]:
  "magic (snd (try_claim_shared_buffer_reuse p m) c) = magic (m c)"
  "abi_version (snd (try_claim_shared_buffer_reuse p m) c) = abi_version (m c)"
  "payload_size (snd (try_claim_shared_buffer_reuse p m) c) = payload_size (m c)"
  "ipc_uid (snd (try_claim_shared_buffer_reuse p m) c) = ipc_uid (m c)"
  "publish_timestamp_us (snd (try_claim_shared_buffer_reuse p m) c) = publish_timestamp_us (m c)"
  "p \<noteq> Some c \<Longrightarrow> snd (try_claim_shared_buffer_reuse p m) c = m c"
  by (auto simp: try_claim_shared_buffer_reuse_def split: option.splits)

lemma release_reader_frame [simp]:
  "magic (release_shared_buffer_reader p m c) = magic (m c)"
  "abi_version (release_shared_buffer_reader p m c) = abi_version (m c)"
  "payload_size (release_shared_buffer_reader p m c) = payload_size (m c)"
  "ipc_uid (release_shared_buffer_reader p m c) = ipc_uid (m c)"
  "publish_timestamp_us (release_shared_buffer_reader p m c) = publish_timestamp_us (m c)"
  "p \<noteq> Some c \<Longrightarrow> release_shared_buffer_reader p m c = m c"
  by (auto simp: release_shared_buffer_reader_def split: option.splits)

lemma release_claim_frame [simp]:
  "magic (release_shared_buffer_reuse_claim p m c) = magic (m c)"
  "abi_version (release_shared_buffer_reuse_claim p m c) = abi_version (m c)"
  "payload_size (release_shared_buffer_reuse_claim p m c) = payload_size (m c)"
  "ipc_uid (release_shared_buffer_reuse_claim p m c) = ipc_uid (m c)"
  "publish_timestamp_us (release_shared_buffer_reuse_claim p m c) = publish_timestamp_us (m c)"
  "p \<noteq> Some c \<Longrightarrow> release_shared_buffer_reuse_claim p m c = m c"
  by (auto simp: release_shared_buffer_reuse_claim_def split: option.splits)

lemma null_control [simp]:
  "try_acquire_shared_buffer_reader None m = (False, m)"
  "try_claim_shared_buffer_reuse None m = (False, m)"
  "release_shared_buffer_reader None m = m"
  "release_shared_buffer_reuse_claim None m = m"
  by (simp_all add: try_acquire_shared_buffer_reader_def try_claim_shared_buffer_reuse_def
      release_shared_buffer_reader_def release_shared_buffer_reuse_claim_def)

section \<open>The compare-exchange loop\<close>

declare acquire_loop.simps [simp del]

lemma acquire_loop_refused: "acquire_refused v \<Longrightarrow> acquire_loop v st env = Some (False, st)"
  by (subst acquire_loop.simps) simp

lemma acquire_loop_Nil: "\<not> acquire_refused v \<Longrightarrow> acquire_loop v st [] = None"
  by (subst acquire_loop.simps) simp

lemma acquire_loop_Cons:
  "\<not> acquire_refused v \<Longrightarrow> acquire_loop v st ((f, sp) # env) =
     (if f st = v \<and> \<not> sp then Some (True, v + 1) else acquire_loop (f st) (f st) env)"
  by (subst acquire_loop.simps) (simp add: Let_def)

lemmas acquire_loop_simps = acquire_loop_refused acquire_loop_Nil acquire_loop_Cons

text \<open>Whatever the others do, a successful loop exchanged an open word below the maximum.\<close>

lemma acquire_loop_success:
  "acquire_loop v st env = Some (True, s) \<Longrightarrow>
     \<exists>v'. \<not> acquire_refused v' \<and> s = v' + 1"
proof (induction env arbitrary: v st)
  case Nil
  then show ?case by (cases "acquire_refused v") (simp_all add: acquire_loop_simps)
next
  case (Cons e env)
  obtain f sp where e: "e = (f, sp)" by (cases e)
  show ?case
  proof (cases "acquire_refused v")
    case True
    with Cons.prems show ?thesis by (simp add: acquire_loop_refused)
  next
    case False
    with Cons e show ?thesis
      by (auto simp: acquire_loop_Cons split: if_splits)
  qed
qed

lemma acquire_loop_failure:
  "acquire_loop v v env = Some (False, s) \<Longrightarrow> acquire_refused s"
proof (induction env arbitrary: v)
  case Nil
  then show ?case by (cases "acquire_refused v") (auto simp: acquire_loop_simps)
next
  case (Cons e env)
  obtain f sp where e: "e = (f, sp)" by (cases e)
  show ?case
  proof (cases "acquire_refused v")
    case True
    with Cons.prems show ?thesis by (simp add: acquire_loop_refused)
  next
    case False
    with Cons e show ?thesis by (auto simp: acquire_loop_Cons split: if_splits)
  qed
qed

text \<open>One iteration that nobody disturbs is enough for the loop to return.\<close>

lemma acquire_loop_returns:
  "(id, False) \<in> set env \<Longrightarrow> \<exists>r. acquire_loop v v env = Some r"
proof (induction env arbitrary: v)
  case Nil
  then show ?case by simp
next
  case (Cons e env)
  obtain f sp where e: "e = (f, sp)" by (cases e)
  show ?case
  proof (cases "acquire_refused v")
    case True
    then show ?thesis using acquire_loop_refused by blast
  next
    case False
    with Cons e show ?thesis by (auto simp: acquire_loop_Cons)
  qed
qed

text \<open>With spurious failures only, the loop computes the uninterrupted function.\<close>

lemma acquire_loop_quiet:
  "acquire_loop v v (replicate k (id, True) @ (id, False) # env) =
     Some (\<not> acquire_refused v, if acquire_refused v then v else v + 1)"
  by (induction k) (cases "acquire_refused v"; simp add: acquire_loop_simps)+

section \<open>Sequences of acquisitions and releases\<close>

text \<open>
  A caller that releases only what it acquired: \<open>held\<close> counts the leases it has.  A release
  with no lease held is not a call the code makes.
\<close>

datatype lock_call = Acquire | Release

fun lease_run :: "oid \<Rightarrow> lock_call list \<Rightarrow> nat \<times> cmem \<Rightarrow> nat \<times> cmem" where
  "lease_run c [] s = s"
| "lease_run c (Acquire # cs) (held, m) =
     (let (ok, m') = try_acquire_shared_buffer_reader (Some c) m
      in lease_run c cs (if ok then Suc held else held, m'))"
| "lease_run c (Release # cs) (held, m) =
     (if held = 0 then lease_run c cs (held, m)
      else lease_run c cs (held - 1, release_shared_buffer_reader (Some c) m))"

lemma lease_run_counts:
  "reader_lock_of (reader_state (m c)) = Readers (others + held) \<Longrightarrow>
   lease_run c cs (held, m) = (held', m') \<Longrightarrow>
   reader_lock_of (reader_state (m' c)) = Readers (others + held')"
proof (induction cs arbitrary: held m)
  case Nil
  then show ?case by simp
next
  case (Cons call cs)
  show ?case
  proof (cases call)
    case Acquire
    obtain ok m1 where acq: "try_acquire_shared_buffer_reader (Some c) m = (ok, m1)"
      by (cases "try_acquire_shared_buffer_reader (Some c) m")
    have "reader_lock_of (reader_state (m1 c)) = Readers (others + (if ok then Suc held else held))"
    proof (cases ok)
      case True
      then show ?thesis
        using header.acquire_iff [of c m] header.acquired [of m c "others + held"] acq Cons.prems(1)
        by auto
    next
      case False
      then show ?thesis using header.failed_acquire [of c m] acq Cons.prems(1) by simp
    qed
    then show ?thesis using Cons.IH Cons.prems(2) Acquire acq by simp
  next
    case Release
    show ?thesis
    proof (cases held)
      case 0
      then show ?thesis using Cons.IH [of m 0] Cons.prems Release by simp
    next
      case (Suc k)
      then have "reader_lock_of
          (reader_state (release_shared_buffer_reader (Some c) m c)) = Readers (others + k)"
        using Cons.prems(1) header.release_reader [of m c] by simp
      then show ?thesis using Cons.IH Cons.prems(2) Release Suc by simp
    qed
  qed
qed

section \<open>Properties\<close>




text \<open>
  After any sequence of acquisitions and matching releases the word counts exactly the
  outstanding leases, and the publisher's reuse claim succeeds if and only if none is left,
  neither the caller's nor anybody else's.
\<close>

theorem reuse_claim_iff_no_leases:
  assumes "reader_lock_of (reader_state (m c)) = Readers others"
    and "lease_run c cs (0, m) = (held, m')"
  shows "reader_lock_of (reader_state (m' c)) = Readers (others + held) \<and>
    (fst (try_claim_shared_buffer_reuse (Some c) m') \<longleftrightarrow> others = 0 \<and> held = 0)"
  using lease_run_counts [of m c others 0 cs held m'] assms header.claim_iff [of c m'] by simp

theorem reuse_claim_iff_no_leases_witness:
  "reader_lock_of (reader_state (snd (lease_run 0 [Acquire, Acquire, Release]
      (0, \<lambda>_. default_control_header)) 0)) = Readers (0 + 1) \<and>
   \<not> fst (try_claim_shared_buffer_reuse (Some 0)
      (snd (lease_run 0 [Acquire, Acquire, Release] (0, \<lambda>_. default_control_header))))"
proof -
  let ?m = "\<lambda>_. default_control_header"
  have "reader_lock_of (reader_state (?m (0 :: oid))) = Readers 0"
    by (simp add: default_control_header_def reader_lock_of_def)
  moreover have "lease_run 0 [Acquire, Acquire, Release] (0, ?m) =
      (1, snd (lease_run 0 [Acquire, Acquire, Release] (0, ?m)))"
    by (simp add: try_acquire_shared_buffer_reader_def default_control_header_def acquire_refused_iff)
  ultimately show ?thesis
    using reuse_claim_iff_no_leases [of ?m 0 0 "[Acquire, Acquire, Release]" 1] by simp
qed

text \<open>
  The release is not guarded: on a header without readers the subtraction wraps around
  into the claim bit, the header looks claimed with a full count, and neither a reader nor a
  reuse claim succeeds on it any more.  So every release must match an acquisition.
\<close>

theorem unmatched_release_wedges_header:
  assumes "reader_state (m c) = 0"
  shows "let m' = release_shared_buffer_reader (Some c) m in
    reader_state (m' c) = - 1 \<and> reader_lock_of (reader_state (m' c)) = Claimed \<and>
    try_acquire_shared_buffer_reader (Some c) m' = (False, m') \<and>
    try_claim_shared_buffer_reuse (Some c) m' = (False, m')"
  using assms
  by (simp add: release_shared_buffer_reader_def try_acquire_shared_buffer_reader_def
      try_claim_shared_buffer_reuse_def reader_simps max_readers_def unsigned_minus_1_eq_mask mask_eq_exp_minus_1)

theorem unmatched_release_wedges_header_witness:
  "let m' = release_shared_buffer_reader (Some 0) (\<lambda>_. default_control_header) in
    reader_state (m' 0) = - 1 \<and> reader_lock_of (reader_state (m' 0)) = Claimed \<and>
    try_acquire_shared_buffer_reader (Some 0) m' = (False, m') \<and>
    try_claim_shared_buffer_reuse (Some 0) m' = (False, m')"
  by (rule unmatched_release_wedges_header) (simp add: default_control_header_def)

end
