(* ===== verification/Kernel.thy ===== *)
theory Kernel
  imports Control
begin

text \<open>
  The part of the operating system the code runs on, as an explicit state: memory objects
  (memfds on Linux, file mappings on Windows) with their control header and payload bytes,
  the address space and the descriptor table of the modelled processes, the names under
  which Windows finds a mapping, and the monotonic clock.  System calls are not code of the
  repository: each one is its documented effect on this state, and its outcome (the
  descriptor, the address, success or failure) is an argument of the functions that call it.

  The platform interface of \<^verbatim>\<open>shared_buffer_platform.hpp\<close> is the locale \<open>platform\<close>; the Linux and
  the Windows implementation each interpret it.
\<close>

section \<open>Kernel state\<close>

text \<open>A \<^verbatim>\<open>std::wstring\<close> of 16-bit characters.\<close>

type_synonym wstring = "16 word list"

text \<open>What a descriptor or handle refers to.\<close>

datatype fd_entry = Memory oid | Socket_fd | Event_fd

record kernel =
  vm :: "u64 \<Rightarrow> oid option"        \<comment> \<open>base address of a mapping, and the object it shows\<close>
  fds :: "int \<Rightarrow> fd_entry option"
  osize :: "oid \<Rightarrow> u64"
  hdr :: cmem
  pay :: "oid \<Rightarrow> u8 list"          \<comment> \<open>bytes from offset 64 on\<close>
  next_oid :: oid
  names :: "wstring \<Rightarrow> oid option"        \<comment> \<open>Windows named file mappings\<close>
  socket_files :: "string \<Rightarrow> int option"  \<comment> \<open>Linux: path and the server socket bound to it\<close>
  refs :: "oid \<Rightarrow> nat"
  clock :: "nat \<Rightarrow> u64"            \<comment> \<open>the coming readings of the monotonic clock\<close>

text \<open>A reading of \<^verbatim>\<open>std::chrono::steady_clock\<close>; readings differ from call to call.\<close>

definition monotonic_time_us :: "kernel \<Rightarrow> u64 \<times> kernel" where
  "monotonic_time_us k = (clock k 0, k\<lparr>clock := (\<lambda>n. clock k (Suc n))\<rparr>)"

section \<open>System calls: documented effects\<close>

text \<open>A new memory object of a given size: its bytes, header included, are zero.\<close>

definition zero_header :: control_header where
  "zero_header = \<lparr>magic = 0, abi_version = 0, payload_size = 0, ipc_uid = 0, reader_state = 0,
     publish_timestamp_us = 0\<rparr>"

definition sys_new_object :: "int \<Rightarrow> kernel \<Rightarrow> kernel" where
  "sys_new_object fd k =
     k\<lparr>fds := (fds k)(fd \<mapsto> Memory (next_oid k)), osize := (osize k)(next_oid k := 0),
       hdr := (hdr k)(next_oid k := zero_header), pay := (pay k)(next_oid k := []),
       next_oid := Suc (next_oid k), refs := (refs k)(next_oid k := 1)\<rparr>"

definition set_object_size :: "oid \<Rightarrow> u64 \<Rightarrow> kernel \<Rightarrow> kernel" where
  "set_object_size c sz k =
     k\<lparr>osize := (osize k)(c := sz),
       pay := (pay k)(c := replicate (unat sz - unat kSharedBufferPayloadOffset) 0)\<rparr>"

definition sys_map :: "u64 \<Rightarrow> oid \<Rightarrow> kernel \<Rightarrow> kernel" where
  "sys_map base c k = k\<lparr>vm := (vm k)(base \<mapsto> c), refs := (refs k)(c := Suc (refs k c))\<rparr>"

text \<open>An object whose last handle and view are gone loses its name.\<close>

definition drop_ref :: "oid \<Rightarrow> kernel \<Rightarrow> kernel" where
  "drop_ref c k =
     (let n = refs k c - 1 in
      k\<lparr>refs := (refs k)(c := n),
        names := (if n = 0 then (\<lambda>s. if names k s = Some c then None else names k s) else names k)\<rparr>)"

definition sys_unmap :: "u64 \<Rightarrow> kernel \<Rightarrow> kernel" where
  "sys_unmap base k =
     (case vm k base of None \<Rightarrow> k | Some c \<Rightarrow> drop_ref c (k\<lparr>vm := (vm k)(base := None)\<rparr>))"

definition sys_close :: "int \<Rightarrow> kernel \<Rightarrow> kernel" where
  "sys_close fd k =
     (let k' = k\<lparr>fds := (fds k)(fd := None)\<rparr> in
      case fds k fd of Some (Memory c) \<Rightarrow> drop_ref c k' | _ \<Rightarrow> k')"

definition sys_open_object :: "int \<Rightarrow> oid \<Rightarrow> kernel \<Rightarrow> kernel" where
  "sys_open_object fd c k =
     k\<lparr>fds := (fds k)(fd \<mapsto> Memory c), refs := (refs k)(c := Suc (refs k c))\<rparr>"

section \<open>Platform mappings\<close>

record SharedBufferPlatformMapping =
  pm_native_handle :: int
  pm_mapping :: u64
  pm_mapped_size :: u64
  pm_ipc_name :: string

type_synonym create_mapping =
  "u64 \<Rightarrow> u32 \<Rightarrow> u64 \<Rightarrow> kernel \<Rightarrow> (cpp_error + SharedBufferPlatformMapping) \<times> kernel"

type_synonym import_mapping =
  "string \<Rightarrow> u64 \<Rightarrow> kernel \<Rightarrow> (cpp_error + SharedBufferPlatformMapping) \<times> kernel"

text \<open>
  Two address ranges that do not meet, and an address range free of every mapping: the
  documented guarantee of \<^verbatim>\<open>mmap\<close> and \<^verbatim>\<open>MapViewOfFile\<close> about the address they choose.
\<close>

definition ranges_disjoint :: "u64 \<Rightarrow> u64 \<Rightarrow> u64 \<Rightarrow> u64 \<Rightarrow> bool" where
  "ranges_disjoint a m b n \<longleftrightarrow> unat a + unat m \<le> unat b \<or> unat b + unat n \<le> unat a"

definition range_free :: "kernel \<Rightarrow> u64 \<Rightarrow> u64 \<Rightarrow> bool" where
  "range_free k base sz \<longleftrightarrow>
     base \<noteq> 0 \<and> vm k base = None \<and> unat base + unat sz < 2 ^ 64 \<and>
     (\<forall>b c. vm k b = Some c \<longrightarrow> ranges_disjoint base sz b (osize k c))"

text \<open>Objects already existing keep size, header and bytes.\<close>

definition objects_kept :: "kernel \<Rightarrow> kernel \<Rightarrow> bool" where
  "objects_kept k k' \<longleftrightarrow> next_oid k \<le> next_oid k' \<and>
     (\<forall>c < next_oid k. osize k' c = osize k c \<and> hdr k' c = hdr k c \<and> pay k' c = pay k c)"

text \<open>The address space and the memory objects with their contents are the same.\<close>

definition memory_kept :: "kernel \<Rightarrow> kernel \<Rightarrow> bool" where
  "memory_kept k k' \<longleftrightarrow> vm k' = vm k \<and> osize k' = osize k \<and> hdr k' = hdr k \<and> pay k' = pay k \<and>
     next_oid k' = next_oid k"

text \<open>Everything but the headers and the clock is the same, and headers keep their identity.\<close>

definition same_layout :: "kernel \<Rightarrow> kernel \<Rightarrow> bool" where
  "same_layout k k' \<longleftrightarrow> vm k' = vm k \<and> fds k' = fds k \<and> osize k' = osize k \<and> pay k' = pay k \<and>
     next_oid k' = next_oid k \<and> names k' = names k \<and> socket_files k' = socket_files k \<and> refs k' = refs k \<and>
     (\<forall>c. magic (hdr k' c) = magic (hdr k c) \<and> abi_version (hdr k' c) = abi_version (hdr k c) \<and>
          payload_size (hdr k' c) = payload_size (hdr k c))"

lemma same_layout_refl [simp]: "same_layout k k"
  by (simp add: same_layout_def)

lemma same_layout_trans [trans]: "same_layout k k' \<Longrightarrow> same_layout k' k'' \<Longrightarrow> same_layout k k''"
  by (simp add: same_layout_def)

lemma same_layout_time [simp]: "same_layout k (snd (monotonic_time_us k))"
  by (simp add: same_layout_def monotonic_time_us_def)

text \<open>
  What the memory pool and the import cache rely on.  \<open>good k sz\<close> states the documented
  behaviour of the system calls for the outcomes given to the implementation: descriptors
  handed out were not open, addresses handed out are free.
\<close>

locale platform =
  fixes create :: create_mapping
    and destroy :: "int \<Rightarrow> u64 \<Rightarrow> u64 \<Rightarrow> kernel \<Rightarrow> kernel"
    and good :: "kernel \<Rightarrow> u64 \<Rightarrow> bool"
  assumes create_success:
      "create sz block_id nonce k = (Inr pm, k') \<Longrightarrow> good k sz \<Longrightarrow>
       pm_mapped_size pm = sz \<and> 0 \<le> pm_native_handle pm \<and> range_free k (pm_mapping pm) sz \<and>
       vm k' = (vm k)(pm_mapping pm \<mapsto> next_oid k) \<and> next_oid k' = Suc (next_oid k) \<and>
       fds k (pm_native_handle pm) = None \<and>
       fds k' = (fds k)(pm_native_handle pm \<mapsto> Memory (next_oid k)) \<and>
       osize k' (next_oid k) = sz \<and>
       pay k' (next_oid k) = replicate (unat sz - unat kSharedBufferPayloadOffset) 0"
    and create_kept: "create sz block_id nonce k = (r, k') \<Longrightarrow> objects_kept k k'"
    and create_failure: "create sz block_id nonce k = (Inl e, k') \<Longrightarrow> good k sz \<Longrightarrow>
       vm k' = vm k \<and> fds k' = fds k"
    and destroy_effect: "0 \<le> h \<Longrightarrow> b \<noteq> 0 \<Longrightarrow> 0 < sz \<Longrightarrow>
       vm (destroy h b sz k) = (vm k)(b := None) \<and> fds (destroy h b sz k) = (fds k)(h := None)"
    and destroy_kept: "objects_kept k (destroy h b sz k)"
    and good_layout: "same_layout k k' \<Longrightarrow> good k sz \<Longrightarrow> good k' sz"
begin

text \<open>A mapping that is created and destroyed leaves neither a descriptor nor a mapping behind.\<close>

lemma create_destroy:
  assumes "create sz block_id nonce k = (Inr pm, k')" and "good k sz" and "0 < sz"
  shows "vm (destroy (pm_native_handle pm) (pm_mapping pm) sz k') = vm k \<and>
    fds (destroy (pm_native_handle pm) (pm_mapping pm) sz k') = fds k"
  using create_success [OF assms(1,2)] assms(3)
  by (auto simp: destroy_effect range_free_def fun_upd_idem)

end

text \<open>
  The subscriber side: a successful import maps an existing object at least as large as the
  descriptor says at a free address, and a failed one leaves nothing open.
\<close>

locale platform_import = platform +
  fixes importer :: import_mapping
    and good_import :: "kernel \<Rightarrow> u64 \<Rightarrow> bool"
  assumes import_success:
      "importer ipc_name sz k = (Inr pm, k') \<Longrightarrow> good_import k sz \<Longrightarrow>
       pm_mapped_size pm = sz \<and> 0 \<le> pm_native_handle pm \<and> range_free k (pm_mapping pm) sz \<and>
       fds k (pm_native_handle pm) = None \<and>
       (\<exists>c < next_oid k. vm k' = (vm k)(pm_mapping pm \<mapsto> c) \<and> sz \<le> osize k c \<and>
            fds k' = (fds k)(pm_native_handle pm \<mapsto> Memory c))"
    and import_objects: "importer ipc_name sz k = (r, k') \<Longrightarrow>
       osize k' = osize k \<and> hdr k' = hdr k \<and> pay k' = pay k \<and> next_oid k' = next_oid k"
    and import_failure: "importer ipc_name sz k = (Inl e, k') \<Longrightarrow> good_import k sz \<Longrightarrow>
       vm k' = vm k \<and> fds k' = fds k"

section \<open>Lemmas\<close>

lemma objects_kept_refl [simp]: "objects_kept k k"
  by (simp add: objects_kept_def)

lemma objects_kept_trans [trans]:
  "objects_kept k k' \<Longrightarrow> objects_kept k' k'' \<Longrightarrow> objects_kept k k''"
  by (auto simp: objects_kept_def)

lemma memory_kept_refl [simp]: "memory_kept k k"
  by (simp add: memory_kept_def)

lemma memory_kept_trans [trans]: "memory_kept k k' \<Longrightarrow> memory_kept k' k'' \<Longrightarrow> memory_kept k k''"
  by (simp add: memory_kept_def)

lemma drop_ref_frame [simp]:
  "vm (drop_ref c k) = vm k" "fds (drop_ref c k) = fds k" "osize (drop_ref c k) = osize k"
  "hdr (drop_ref c k) = hdr k" "pay (drop_ref c k) = pay k" "next_oid (drop_ref c k) = next_oid k"
  "clock (drop_ref c k) = clock k"
  by (simp_all add: drop_ref_def Let_def)

lemma sys_close_frame [simp]:
  "vm (sys_close fd k) = vm k" "fds (sys_close fd k) = (fds k)(fd := None)"
  "osize (sys_close fd k) = osize k" "hdr (sys_close fd k) = hdr k" "pay (sys_close fd k) = pay k"
  "next_oid (sys_close fd k) = next_oid k" "clock (sys_close fd k) = clock k"
  by (simp_all add: sys_close_def Let_def split: option.splits fd_entry.splits)

lemma sys_unmap_frame [simp]:
  "vm (sys_unmap b k) = (vm k)(b := None)" "fds (sys_unmap b k) = fds k"
  "osize (sys_unmap b k) = osize k" "hdr (sys_unmap b k) = hdr k" "pay (sys_unmap b k) = pay k"
  "next_oid (sys_unmap b k) = next_oid k" "clock (sys_unmap b k) = clock k"
  by (auto simp: sys_unmap_def fun_upd_idem split: option.splits)

lemma monotonic_time_frame [simp]:
  "vm (snd (monotonic_time_us k)) = vm k" "fds (snd (monotonic_time_us k)) = fds k"
  "osize (snd (monotonic_time_us k)) = osize k" "hdr (snd (monotonic_time_us k)) = hdr k"
  "pay (snd (monotonic_time_us k)) = pay k" "next_oid (snd (monotonic_time_us k)) = next_oid k"
  by (simp_all add: monotonic_time_us_def)

end
