(* ===== verification/Pool.thy ===== *)
theory Pool
  imports Kernel
begin

text \<open>
  The publisher's memory pool: \<^verbatim>\<open>shared_buffer_memory_pool.hpp\<close> (\<^verbatim>\<open>SharedBufferBlock\<close>,
  \<^verbatim>\<open>SharedBufferMemoryPool\<close>) and \<^verbatim>\<open>shared_buffer_memory_pool.cpp\<close>.

  A \<^verbatim>\<open>SharedBufferBlock *\<close> is an index into \<open>all_blocks\<close> (blocks are never removed), the null
  pointer is \<open>None\<close>.  The platform's \<^verbatim>\<open>create_platform_mapping\<close> and the broker's
  \<^verbatim>\<open>register_block\<close>, selected by the build, are arguments.  The random engine is the stream of
  the numbers it will draw.  The operations that lock \<^verbatim>\<open>mutex_\<close> are one step each here.
\<close>

section \<open>State\<close>

record SharedBufferBlock =
  native_handle :: int
  mapping :: u64
  mapped_size :: u64
  block_payload_size :: u64
  block_id :: u32
  control :: "oid option"
  current_uid :: u64
  socket_path :: string
  in_use :: bool

record 'b SharedBufferMemoryPool =
  initialized :: bool
  ipc_capable :: bool
  next_block_id :: u32
  uid_rng :: "nat \<Rightarrow> u64"
  free_blocks :: "u64 \<Rightarrow> nat list option"
  all_blocks :: "SharedBufferBlock list"
  broker :: "'b option"

type_synonym block_ptr = "nat option"

definition new_pool :: "(nat \<Rightarrow> u64) \<Rightarrow> 'b \<Rightarrow> 'b SharedBufferMemoryPool" where
  "new_pool rng br =
     \<lparr>initialized = False, ipc_capable = False, next_block_id = 0, uid_rng = rng,
      free_blocks = (\<lambda>_. None), all_blocks = [], broker = Some br\<rparr>"

definition draw_uid :: "'b SharedBufferMemoryPool \<Rightarrow> u64 \<times> 'b SharedBufferMemoryPool" where
  "draw_uid p = (uid_rng p 0, p\<lparr>uid_rng := (\<lambda>n. uid_rng p (Suc n))\<rparr>)"

definition update_block ::
  "nat \<Rightarrow> (SharedBufferBlock \<Rightarrow> SharedBufferBlock) \<Rightarrow> 'b SharedBufferMemoryPool \<Rightarrow> 'b SharedBufferMemoryPool" where
  "update_block i f p = p\<lparr>all_blocks := (all_blocks p)[i := f (all_blocks p ! i)]\<rparr>"

text \<open>A store to a field of \<open>*control\<close>.\<close>

definition update_control :: "oid option \<Rightarrow> (control_header \<Rightarrow> control_header) \<Rightarrow> kernel \<Rightarrow> kernel" where
  "update_control ctl f k =
     (case ctl of None \<Rightarrow> k | Some c \<Rightarrow> k\<lparr>hdr := (hdr k)(c := f (hdr k c))\<rparr>)"

text \<open>A bucket of the map of free lists; an absent bucket has no candidates.\<close>

definition bucket :: "'b SharedBufferMemoryPool \<Rightarrow> u64 \<Rightarrow> nat list" where
  "bucket p sz = (case free_blocks p sz of None \<Rightarrow> [] | Some cs \<Rightarrow> cs)"

section \<open>Operations\<close>

definition try_claim_block :: "block_ptr \<Rightarrow> 'b SharedBufferMemoryPool \<Rightarrow> kernel \<Rightarrow> bool \<times> kernel" where
  "try_claim_block block p k =
     (case block of
        None \<Rightarrow> (False, k)
      | Some i \<Rightarrow>
          (case control (all_blocks p ! i) of
             None \<Rightarrow> (False, k)
           | Some c \<Rightarrow>
               (let published = publish_timestamp_us (hdr k c);
                    (too_young, k1) =
                      (if published \<noteq> 0
                       then (let (now, k') = monotonic_time_us k
                             in (now < published \<or> now - published < kSharedBufferGracePeriodUs, k'))
                       else (False, k))
                in if too_young then (False, k1)
                   else (let (ok, m) = try_claim_shared_buffer_reuse (Some c) (hdr k1)
                         in (ok, k1\<lparr>hdr := m\<rparr>)))))"

definition create_block ::
  "create_mapping \<Rightarrow> u64 \<Rightarrow> 'b SharedBufferMemoryPool \<Rightarrow> kernel \<Rightarrow>
     (cpp_error + nat) \<times> 'b SharedBufferMemoryPool \<times> kernel" where
  "create_block create sz p k =
     (if sz > - 1 - kSharedBufferPayloadOffset
      then (Inl (Length_error ''shared buffer mapping size overflows size_t''), p, k)
      else
        (let msize = kSharedBufferPayloadOffset + sz;
             id = next_block_id p;
             (nonce, p1) = draw_uid (p\<lparr>next_block_id := id + 1\<rparr>)
         in case create msize id nonce k of
              (Inl e, k1) \<Rightarrow> (Inl e, p1, k1)
            | (Inr pm, k1) \<Rightarrow>
                (let ctl = vm k1 (pm_mapping pm);
                     block = \<lparr>native_handle = pm_native_handle pm, mapping = pm_mapping pm,
                       mapped_size = pm_mapped_size pm, block_payload_size = sz, block_id = id,
                       control = ctl, current_uid = 0, socket_path = pm_ipc_name pm, in_use = False\<rparr>;
                     k2 = update_control ctl (\<lambda>_. default_control_header\<lparr>payload_size := sz,
                            ipc_uid := 0, reader_state := 0, publish_timestamp_us := 0\<rparr>) k1
                 in (Inr (length (all_blocks p1)),
                     p1\<lparr>all_blocks := all_blocks p1 @ [block], initialized := True, ipc_capable := True\<rparr>,
                     k2))))"

text \<open>The scan of a bucket: index of the first candidate that can be claimed.\<close>

fun claim_candidate ::
  "'b SharedBufferMemoryPool \<Rightarrow> nat list \<Rightarrow> nat \<Rightarrow> kernel \<Rightarrow> nat option \<times> kernel" where
  "claim_candidate p [] i k = (None, k)"
| "claim_candidate p (b # bs) i k =
     (let (ok, k') = try_claim_block (Some b) p k
      in if ok then (Some i, k') else claim_candidate p bs (Suc i) k')"

text \<open>
  The reservation at the end of \<^verbatim>\<open>allocate\<close>: new generation UID, header reset, claim released.
\<close>

definition reserve_block ::
  "nat \<Rightarrow> 'b SharedBufferMemoryPool \<Rightarrow> kernel \<Rightarrow> 'b SharedBufferMemoryPool \<times> kernel" where
  "reserve_block i p k =
     (let (uid, p1) = draw_uid p;
          uid' = (if uid = 0 then 1 else uid);
          p2 = update_block i (\<lambda>b. b\<lparr>in_use := True, current_uid := uid'\<rparr>) p1;
          ctl = control (all_blocks p2 ! i);
          k1 = update_control ctl (\<lambda>h. h\<lparr>ipc_uid := 0\<rparr>) k;
          k2 = update_control ctl (\<lambda>h. h\<lparr>publish_timestamp_us := 0\<rparr>) k1
      in (p2, k2\<lparr>hdr := release_shared_buffer_reuse_claim ctl (hdr k2)\<rparr>))"

definition take_candidate :: "u64 \<Rightarrow> nat list \<Rightarrow> nat \<Rightarrow> 'b SharedBufferMemoryPool \<Rightarrow> 'b SharedBufferMemoryPool" where
  "take_candidate sz candidates i p =
     (let rest = swap_remove i candidates
      in p\<lparr>free_blocks := (free_blocks p)(sz := (if rest = [] then None else Some rest))\<rparr>)"

definition allocate ::
  "create_mapping \<Rightarrow> u64 \<Rightarrow> 'b SharedBufferMemoryPool \<Rightarrow> kernel \<Rightarrow>
     (cpp_error + nat) \<times> 'b SharedBufferMemoryPool \<times> kernel" where
  "allocate create sz p k =
     (if sz = 0
      then (Inl (Invalid_argument ''shared buffer pool cannot allocate a zero-size block''), p, k)
      else
        (let candidates = bucket p sz;
             (found, k1) = claim_candidate p candidates 0 k
         in case found of
              Some i \<Rightarrow>
                (let (p2, k2) = reserve_block (candidates ! i) (take_candidate sz candidates i p) k1
                 in (Inr (candidates ! i), p2, k2))
            | None \<Rightarrow>
                (case create_block create sz p k1 of
                   (Inl e, p1, k2) \<Rightarrow> (Inl e, p1, k2)
                 | (Inr i, p1, k2) \<Rightarrow>
                     (let (p2, k3) = reserve_block i p1 k2 in (Inr i, p2, k3)))))"

definition pool_free :: "block_ptr \<Rightarrow> 'b SharedBufferMemoryPool \<Rightarrow> 'b SharedBufferMemoryPool" where
  "pool_free block p =
     (case block of
        None \<Rightarrow> p
      | Some i \<Rightarrow>
          (if \<not> in_use (all_blocks p ! i) then p
           else
             (let p1 = update_block i (\<lambda>b. b\<lparr>in_use := False\<rparr>) p;
                  sz = block_payload_size (all_blocks p ! i)
              in p1\<lparr>free_blocks := (free_blocks p1)(sz \<mapsto> bucket p1 sz @ [i])\<rparr>)))"

definition assign_uid :: "block_ptr \<Rightarrow> 'b SharedBufferMemoryPool \<Rightarrow> u64 \<times> 'b SharedBufferMemoryPool" where
  "assign_uid block p =
     (case block of
        None \<Rightarrow> (0, p)
      | Some i \<Rightarrow>
          (if control (all_blocks p ! i) = None then (0, p)
           else if current_uid (all_blocks p ! i) = 0
           then (let (uid, p1) = draw_uid p;
                     uid' = (if uid = 0 then 1 else uid)
                 in (uid', update_block i (\<lambda>b. b\<lparr>current_uid := uid'\<rparr>) p1))
           else (current_uid (all_blocks p ! i), p)))"

definition refresh_publish_timestamp :: "oid option \<Rightarrow> kernel \<Rightarrow> kernel" where
  "refresh_publish_timestamp ctl k =
     (case ctl of
        None \<Rightarrow> k
      | Some c \<Rightarrow>
          (let (now, k1) = monotonic_time_us k
           in update_control (Some c) (\<lambda>h. h\<lparr>publish_timestamp_us := now\<rparr>) k1))"

definition mark_published :: "block_ptr \<Rightarrow> 'b SharedBufferMemoryPool \<Rightarrow> kernel \<Rightarrow> kernel" where
  "mark_published block p k =
     (case block of
        None \<Rightarrow> k
      | Some i \<Rightarrow>
          (if control (all_blocks p ! i) = None then k
           else
             (let b = all_blocks p ! i;
                  k1 = update_control (control b) (\<lambda>h. h\<lparr>ipc_uid := current_uid b\<rparr>) k
              in refresh_publish_timestamp (control b) k1)))"

type_synonym 'b register_block =
  "SharedBufferBlock \<Rightarrow> 'b \<Rightarrow> kernel \<Rightarrow> (cpp_error + string) \<times> SharedBufferBlock \<times> 'b \<times> kernel"

definition register_block_for_ipc ::
  "'b register_block \<Rightarrow> block_ptr \<Rightarrow> 'b SharedBufferMemoryPool \<Rightarrow> kernel \<Rightarrow>
     (cpp_error + string) \<times> 'b SharedBufferMemoryPool \<times> kernel" where
  "register_block_for_ipc register block p k =
     (case (block, broker p) of
        (Some i, Some br) \<Rightarrow>
          (let (r, b', br', k') = register (all_blocks p ! i) br k
           in (r, update_block i (\<lambda>_. b') (p\<lparr>broker := Some br'\<rparr>), k'))
      | _ \<Rightarrow> (Inr '''', p, k))"

fun find_block :: "u64 \<Rightarrow> SharedBufferBlock list \<Rightarrow> nat \<Rightarrow> block_ptr" where
  "find_block address [] i = None"
| "find_block address (b # bs) i =
     (if address \<ge> mapping b + kSharedBufferPayloadOffset \<and> address < mapping b + mapped_size b
      then Some i else find_block address bs (Suc i))"

definition find_block_for_ptr :: "u64 \<Rightarrow> 'b SharedBufferMemoryPool \<Rightarrow> block_ptr" where
  "find_block_for_ptr ptr p = (if ptr = 0 then None else find_block ptr (all_blocks p) 0)"

fun destroy_blocks ::
  "(int \<Rightarrow> u64 \<Rightarrow> u64 \<Rightarrow> kernel \<Rightarrow> kernel) \<Rightarrow> SharedBufferBlock list \<Rightarrow> kernel \<Rightarrow>
     SharedBufferBlock list \<times> kernel" where
  "destroy_blocks destroy [] k = ([], k)"
| "destroy_blocks destroy (b # bs) k =
     (let k1 = destroy (native_handle b) (mapping b) (mapped_size b) k;
          (bs', k2) = destroy_blocks destroy bs k1
      in (b\<lparr>control := None, native_handle := - 1, mapping := 0\<rparr> # bs', k2))"

text \<open>The destructor: the broker goes first, then every mapping and descriptor of the pool.\<close>

definition destroy_pool ::
  "('b \<Rightarrow> kernel \<Rightarrow> kernel) \<Rightarrow> (int \<Rightarrow> u64 \<Rightarrow> u64 \<Rightarrow> kernel \<Rightarrow> kernel) \<Rightarrow>
     'b SharedBufferMemoryPool \<Rightarrow> kernel \<Rightarrow> 'b SharedBufferMemoryPool \<times> kernel" where
  "destroy_pool destroy_broker destroy p k =
     (let k1 = (case broker p of None \<Rightarrow> k | Some br \<Rightarrow> destroy_broker br k);
          (bs, k2) = destroy_blocks destroy (all_blocks p) k1
      in (p\<lparr>broker := None, all_blocks := bs\<rparr>, k2))"

end
