(* ===== verification/Platform_Linux.thy ===== *)
theory Platform_Linux
  imports Kernel
begin

text \<open>
  \<^verbatim>\<open>shared_buffer_platform_linux.cpp\<close>, mapping half: creating, importing and destroying a memfd
  mapping.  The outcome of each system call is a field of an environment record; the effects
  are those of \<open>Kernel\<close>.  \<^verbatim>\<open>std::strerror(errno)\<close> is the field \<open>errno_text\<close>.
\<close>

section \<open>Creating a mapping\<close>

record linux_create_env =
  memfd_result :: int
  ftruncate_ok :: bool
  mmap_result :: "u64 option"
  errno_text :: string

definition off_t_max :: u64 where
  "off_t_max = 0x7FFFFFFFFFFFFFFF"

definition linux_create_platform_mapping :: "linux_create_env \<Rightarrow> create_mapping" where
  "linux_create_platform_mapping env mapped_size block_id nonce k =
     (if mapped_size > off_t_max
      then (Inl (Length_error ''shared-memory mapping is too large for ftruncate''), k)
      else
        (let fd = memfd_result env in
         if fd < 0 then (Inl (Runtime_error (''memfd_create failed: '' @ errno_text env)), k)
         else
           (let k1 = sys_new_object fd k; c = next_oid k in
            if \<not> ftruncate_ok env
            then (Inl (Runtime_error (''ftruncate for shared-memory mapping failed: '' @ errno_text env)),
                  sys_close fd k1)
            else
              (let k2 = set_object_size c mapped_size k1 in
               case mmap_result env of
                 None \<Rightarrow>
                   (Inl (Runtime_error (''mmap for shared-memory mapping failed: '' @ errno_text env)),
                    sys_close fd k2)
               | Some mapping \<Rightarrow>
                   (Inr \<lparr>pm_native_handle = fd, pm_mapping = mapping, pm_mapped_size = mapped_size,
                         pm_ipc_name = ''''\<rparr>,
                    sys_map mapping c k2)))))"

definition linux_destroy_platform_mapping :: "int \<Rightarrow> u64 \<Rightarrow> u64 \<Rightarrow> kernel \<Rightarrow> kernel" where
  "linux_destroy_platform_mapping native_handle mapping mapped_size k =
     (let k1 = (if mapping \<noteq> 0 \<and> mapped_size > 0 then sys_unmap mapping k else k) in
      if native_handle \<ge> 0 then sys_close native_handle k1 else k1)"

text \<open>Documented outcomes: a new descriptor is not open, an mmap address is free.\<close>

definition linux_good :: "linux_create_env \<Rightarrow> kernel \<Rightarrow> u64 \<Rightarrow> bool" where
  "linux_good env k sz \<longleftrightarrow> fds k (memfd_result env) = None \<and>
     (\<forall>b. mmap_result env = Some b \<longrightarrow> range_free k b sz)"

section \<open>Importing a mapping\<close>

record linux_import_env =
  socket_result :: int
  connect_ok :: bool
  recvmsg_result :: int
  cmsg_rights :: "(int \<times> oid) option"   \<comment> \<open>descriptor received by SCM_RIGHTS and its object\<close>
  fstat_ok :: bool
  import_mmap_result :: "u64 option"
  import_errno_text :: string

definition sun_path_size :: nat where
  "sun_path_size = 108"

definition receive_fd_from_socket ::
  "linux_import_env \<Rightarrow> string \<Rightarrow> kernel \<Rightarrow> (cpp_error + int) \<times> kernel" where
  "receive_fd_from_socket env socket_path k =
     (if socket_path = [] \<or> length socket_path \<ge> sun_path_size
      then (Inl (Runtime_error ''invalid shared-memory broker socket path''), k)
      else
        (let socket = socket_result env in
         if socket < 0
         then (Inl (Runtime_error ''failed to create shared-memory broker client socket''), k)
         else
           (let k1 = k\<lparr>fds := (fds k)(socket \<mapsto> Socket_fd)\<rparr> in
            if \<not> connect_ok env
            then (Inl (Runtime_error (''failed to connect to shared-memory broker: '' @ import_errno_text env)),
                  sys_close socket k1)
            else
              (let k2 = (case cmsg_rights env of
                           Some (fd, c) \<Rightarrow>
                             if recvmsg_result env = 1 \<and> fd \<ge> 0 then sys_open_object fd c k1 else k1
                         | None \<Rightarrow> k1);
                   k3 = sys_close socket k2
               in
               if recvmsg_result env \<noteq> 1
               then (Inl (Runtime_error ''shared-memory broker returned no descriptor''), k3)
               else
                 (case cmsg_rights env of
                    None \<Rightarrow>
                      (Inl (Runtime_error ''shared-memory broker returned an invalid control message''), k3)
                  | Some (fd, c) \<Rightarrow>
                      (if fd < 0
                       then (Inl (Runtime_error ''shared-memory broker returned an invalid descriptor''), k3)
                       else (Inr fd, k3)))))))"

text \<open>\<^verbatim>\<open>fstat\<close> on a descriptor: the signed size of the memory object it refers to.\<close>

definition st_size_matches :: "kernel \<Rightarrow> int \<Rightarrow> u64 \<Rightarrow> bool" where
  "st_size_matches k fd mapped_size =
     (case fds k fd of
        Some (Memory c) \<Rightarrow> \<not> sint (osize k c) < 0 \<and> osize k c = mapped_size
      | _ \<Rightarrow> False)"

definition map_received :: "u64 \<Rightarrow> int \<Rightarrow> kernel \<Rightarrow> kernel" where
  "map_received mapping fd k =
     (case fds k fd of Some (Memory c) \<Rightarrow> sys_map mapping c k | _ \<Rightarrow> k)"

definition linux_import_platform_mapping :: "linux_import_env \<Rightarrow> import_mapping" where
  "linux_import_platform_mapping env ipc_name mapped_size k =
     (case receive_fd_from_socket env ipc_name k of
        (Inl e, k1) \<Rightarrow> (Inl e, k1)
      | (Inr fd, k1) \<Rightarrow>
          (if \<not> fstat_ok env \<or> \<not> st_size_matches k1 fd mapped_size
           then (Inl (Runtime_error ''shared-memory size does not match descriptor message''),
                 sys_close fd k1)
           else
             (case import_mmap_result env of
                None \<Rightarrow>
                  (Inl (Runtime_error (''failed to map received shared-memory FD: '' @ import_errno_text env)),
                   sys_close fd k1)
              | Some mapping \<Rightarrow>
                  (Inr \<lparr>pm_native_handle = fd, pm_mapping = mapping, pm_mapped_size = mapped_size,
                        pm_ipc_name = ipc_name\<rparr>,
                   map_received mapping fd k1))))"

definition linux_good_import :: "linux_import_env \<Rightarrow> kernel \<Rightarrow> u64 \<Rightarrow> bool" where
  "linux_good_import env k sz \<longleftrightarrow> fds k (socket_result env) = None \<and>
     (\<forall>fd c. cmsg_rights env = Some (fd, c) \<longrightarrow> fds k fd = None \<and> fd \<noteq> socket_result env \<and> c < next_oid k) \<and>
     (\<forall>b. import_mmap_result env = Some b \<longrightarrow> range_free k b sz)"

section \<open>Lemmas\<close>

lemma linux_create_success:
  assumes "linux_create_platform_mapping env sz i n k = (Inr pm, k')"
  shows "\<exists>b. mmap_result env = Some b \<and> 0 \<le> memfd_result env \<and> sz \<le> off_t_max \<and>
    pm = \<lparr>pm_native_handle = memfd_result env, pm_mapping = b, pm_mapped_size = sz, pm_ipc_name = ''''\<rparr> \<and>
    k' = sys_map b (next_oid k) (set_object_size (next_oid k) sz (sys_new_object (memfd_result env) k))"
  using assms
  by (auto simp: linux_create_platform_mapping_def Let_def split: if_splits option.splits)

interpretation linux: platform
  "linux_create_platform_mapping env" linux_destroy_platform_mapping "linux_good env" for env
proof
  fix sz i n k pm k'
  assume "linux_create_platform_mapping env sz i n k = (Inr pm, k')" and "linux_good env k sz"
  then show "pm_mapped_size pm = sz \<and> 0 \<le> pm_native_handle pm \<and> range_free k (pm_mapping pm) sz \<and>
       vm k' = (vm k)(pm_mapping pm \<mapsto> next_oid k) \<and> next_oid k' = Suc (next_oid k) \<and>
       fds k (pm_native_handle pm) = None \<and>
       fds k' = (fds k)(pm_native_handle pm \<mapsto> Memory (next_oid k)) \<and>
       osize k' (next_oid k) = sz \<and>
       pay k' (next_oid k) = replicate (unat sz - unat kSharedBufferPayloadOffset) 0"
    by (auto dest!: linux_create_success
        simp: linux_good_def sys_map_def set_object_size_def sys_new_object_def)
next
  fix sz i n k r k'
  assume "linux_create_platform_mapping env sz i n k = (r, k')"
  then show "objects_kept k k'"
    by (auto simp: linux_create_platform_mapping_def Let_def objects_kept_def sys_map_def
        set_object_size_def sys_new_object_def split: if_splits option.splits)
next
  fix sz i n k e k'
  assume "linux_create_platform_mapping env sz i n k = (Inl e, k')" and "linux_good env k sz"
  then show "vm k' = vm k \<and> fds k' = fds k"
    by (auto simp: linux_create_platform_mapping_def Let_def linux_good_def
        set_object_size_def sys_new_object_def split: if_splits option.splits)
next
  fix h b sz k
  assume "0 \<le> (h :: int)" and "b \<noteq> (0 :: u64)" and "0 < (sz :: u64)"
  then show "vm (linux_destroy_platform_mapping h b sz k) = (vm k)(b := None) \<and>
      fds (linux_destroy_platform_mapping h b sz k) = (fds k)(h := None)"
    by (simp add: linux_destroy_platform_mapping_def Let_def)
next
  fix h b sz k
  show "objects_kept k (linux_destroy_platform_mapping h b sz k)"
    by (simp add: linux_destroy_platform_mapping_def Let_def objects_kept_def)
next
  fix k k' sz
  assume "same_layout k k'" and "linux_good env k sz"
  then show "linux_good env k' sz" by (auto simp: linux_good_def same_layout_def range_free_def)
qed

lemma receive_fd_objects:
  "receive_fd_from_socket env path k = (r, k') \<Longrightarrow>
     vm k' = vm k \<and> osize k' = osize k \<and> hdr k' = hdr k \<and> pay k' = pay k \<and> next_oid k' = next_oid k"
  by (auto simp: receive_fd_from_socket_def Let_def sys_open_object_def
      split: if_splits option.splits prod.splits)

lemma receive_fd_success:
  assumes "receive_fd_from_socket env path k = (Inr fd, k')" and "linux_good_import env k sz"
  shows "\<exists>c. cmsg_rights env = Some (fd, c) \<and> 0 \<le> fd \<and> fds k' = (fds k)(fd \<mapsto> Memory c)"
  using assms
  by (auto simp: receive_fd_from_socket_def linux_good_import_def Let_def sys_open_object_def fun_eq_iff
      split: if_splits option.splits prod.splits)

lemma receive_fd_failure:
  "receive_fd_from_socket env path k = (Inl e, k') \<Longrightarrow> linux_good_import env k sz \<Longrightarrow> fds k' = fds k"
  by (auto simp: receive_fd_from_socket_def linux_good_import_def Let_def sys_open_object_def
      fun_eq_iff split: if_splits option.splits prod.splits)

lemma map_received_frame [simp]:
  "osize (map_received b fd k) = osize k" "hdr (map_received b fd k) = hdr k"
  "pay (map_received b fd k) = pay k" "next_oid (map_received b fd k) = next_oid k"
  "fds (map_received b fd k) = fds k"
  by (simp_all add: map_received_def sys_map_def split: option.splits fd_entry.splits)

lemma linux_import_success:
  assumes imp: "linux_import_platform_mapping env path sz k = (Inr pm, k')"
    and good: "linux_good_import env k sz"
  shows "\<exists>c fd b. cmsg_rights env = Some (fd, c) \<and> import_mmap_result env = Some b \<and> 0 \<le> fd \<and>
    pm = \<lparr>pm_native_handle = fd, pm_mapping = b, pm_mapped_size = sz, pm_ipc_name = path\<rparr> \<and>
    osize k c = sz \<and> vm k' = (vm k)(b \<mapsto> c) \<and> fds k' = (fds k)(fd \<mapsto> Memory c)"
proof -
  obtain r k1 where r: "receive_fd_from_socket env path k = (r, k1)"
    by (cases "receive_fd_from_socket env path k")
  with imp obtain fd where "r = Inr fd"
    by (cases r) (auto simp: linux_import_platform_mapping_def)
  with r good obtain c where c: "cmsg_rights env = Some (fd, c)" "0 \<le> fd" "fds k1 = (fds k)(fd \<mapsto> Memory c)"
    using receive_fd_success by blast
  have o: "osize k1 = osize k" "vm k1 = vm k" using receive_fd_objects [OF r] by auto
  from imp r \<open>r = Inr fd\<close> c o show ?thesis
    by (auto simp: linux_import_platform_mapping_def st_size_matches_def map_received_def sys_map_def
        split: if_splits option.splits)
qed

lemma linux_import_failure:
  assumes imp: "linux_import_platform_mapping env path sz k = (Inl e, k')"
    and good: "linux_good_import env k sz"
  shows "vm k' = vm k \<and> fds k' = fds k"
proof -
  obtain r k1 where r: "receive_fd_from_socket env path k = (r, k1)"
    by (cases "receive_fd_from_socket env path k")
  have o: "vm k1 = vm k" using receive_fd_objects [OF r] by auto
  show ?thesis
  proof (cases r)
    case (Inl e')
    with imp r have "k' = k1" by (simp add: linux_import_platform_mapping_def)
    with r Inl o good show ?thesis using receive_fd_failure by blast
  next
    case (Inr fd)
    then have "fds k1 = (fds k)(fd := fds k1 fd)" and "fds k fd = None"
      using r good receive_fd_success [of env path k fd k1 sz]
      by (auto simp: linux_good_import_def fun_eq_iff)
    with imp r Inr o show ?thesis
      by (auto simp: linux_import_platform_mapping_def fun_eq_iff split: if_splits option.splits)
  qed
qed

interpretation linux_import: platform_import
  "linux_create_platform_mapping env" linux_destroy_platform_mapping "linux_good env"
  "linux_import_platform_mapping ienv" "linux_good_import ienv" for env ienv
proof
  fix path sz k pm k'
  assume "linux_import_platform_mapping ienv path sz k = (Inr pm, k')" and "linux_good_import ienv k sz"
  then show "pm_mapped_size pm = sz \<and> 0 \<le> pm_native_handle pm \<and> range_free k (pm_mapping pm) sz \<and>
       fds k (pm_native_handle pm) = None \<and>
       (\<exists>c < next_oid k. vm k' = (vm k)(pm_mapping pm \<mapsto> c) \<and> sz \<le> osize k c \<and>
            fds k' = (fds k)(pm_native_handle pm \<mapsto> Memory c))"
    by (auto dest!: linux_import_success simp: linux_good_import_def)
next
  fix path sz k r k'
  assume "linux_import_platform_mapping ienv path sz k = (r, k')"
  then show "osize k' = osize k \<and> hdr k' = hdr k \<and> pay k' = pay k \<and> next_oid k' = next_oid k"
    by (auto simp: linux_import_platform_mapping_def dest!: receive_fd_objects
        split: prod.splits sum.splits if_splits option.splits)
next
  fix path sz k e k'
  assume "linux_import_platform_mapping ienv path sz k = (Inl e, k')" and "linux_good_import ienv k sz"
  then show "vm k' = vm k \<and> fds k' = fds k" by (rule linux_import_failure)
qed

end
