(* ===== verification/Platform_Windows.thy ===== *)
theory Platform_Windows
  imports Kernel
begin

text \<open>
  \<^verbatim>\<open>shared_buffer_platform_windows.cpp\<close>: file mappings found by name.  A \<^verbatim>\<open>HANDLE\<close> is an \<open>int\<close>,
  the null handle is 0.  Whether a name exists is the kernel's \<open>names\<close>; the handles and
  addresses the system calls return, and the error codes of failing calls, are fields of the
  environment record (\<open>create_handles n\<close> for the n-th attempt).
\<close>

section \<open>Names\<close>

text \<open>\<^verbatim>\<open>char\<close> is signed: each character is sign-extended to a \<^verbatim>\<open>wchar_t\<close>.\<close>

definition widen_ascii :: "string \<Rightarrow> wstring" where
  "widen_ascii value = List.map (\<lambda>c. scast (word_of_int (int (of_char c)) :: u8)) value"

record windows_create_env =
  process_id :: u32
  create_handles :: "nat \<Rightarrow> int"
  create_error :: u32
  view_result :: "u64 option"
  view_error :: u32

definition mapping_name :: "u32 \<Rightarrow> u64 \<Rightarrow> u32 \<Rightarrow> nat \<Rightarrow> string" where
  "mapping_name pid nonce block_id attempt =
     ''Local'' @ CHR 0x5C # ''rosidl_shared_buffer_'' @ to_string (unat pid) @ ''_'' @
     to_string (unat (nonce + of_nat attempt)) @ ''_'' @ to_string (unat block_id)"

definition ERROR_SUCCESS :: u32 where "ERROR_SUCCESS = 0"
definition ERROR_ALREADY_EXISTS :: u32 where "ERROR_ALREADY_EXISTS = 183"

section \<open>Creating a mapping\<close>

text \<open>
  \<^verbatim>\<open>CreateFileMappingW\<close> with the page file: the handle (0 when it fails), the thread's last error,
  and the effect.  An existing name gives a handle to the existing object.
\<close>

definition CreateFileMappingW ::
  "windows_create_env \<Rightarrow> nat \<Rightarrow> wstring \<Rightarrow> u64 \<Rightarrow> kernel \<Rightarrow> int \<times> u32 \<times> kernel" where
  "CreateFileMappingW env attempt name mapped_size k =
     (let h = create_handles env attempt in
      if h = 0 then (0, create_error env, k)
      else case names k name of
             Some c \<Rightarrow> (h, ERROR_ALREADY_EXISTS, sys_open_object h c k)
           | None \<Rightarrow>
               (let k1 = set_object_size (next_oid k) mapped_size (sys_new_object h k)
                in (h, ERROR_SUCCESS, k1\<lparr>names := (names k1)(name \<mapsto> next_oid k)\<rparr>)))"

text \<open>
  The loop over the attempts.  Arguments: \<open>attempt\<close>, and the values of \<^verbatim>\<open>mapping_handle\<close>,
  \<^verbatim>\<open>mapping_error\<close> and \<^verbatim>\<open>mapping_name\<close> before the iteration.
\<close>

function create_attempts ::
  "windows_create_env \<Rightarrow> u64 \<Rightarrow> u32 \<Rightarrow> u64 \<Rightarrow> nat \<Rightarrow> int \<times> u32 \<times> string \<Rightarrow> kernel \<Rightarrow>
     (int \<times> u32 \<times> string) \<times> kernel" where
  "create_attempts env mapped_size block_id nonce attempt s k =
     (if attempt < 8 then
        (let name = mapping_name (process_id env) nonce block_id attempt;
             (h, err, k1) = CreateFileMappingW env attempt (widen_ascii name) mapped_size k
         in if h = 0 then ((0, err, name), k1)
            else if err \<noteq> ERROR_ALREADY_EXISTS then ((h, err, name), k1)
            else create_attempts env mapped_size block_id nonce (Suc attempt) (0, err, name) (sys_close h k1))
      else (s, k))"
  by pat_completeness auto
termination
  by (relation "measure (\<lambda>(_, _, _, _, attempt, _, _). 8 - attempt)") auto

declare create_attempts.simps [simp del]

definition windows_create_platform_mapping :: "windows_create_env \<Rightarrow> create_mapping" where
  "windows_create_platform_mapping env mapped_size block_id nonce k =
     (let ((h, err, name), k1) = create_attempts env mapped_size block_id nonce 0 (0, ERROR_SUCCESS, '''') k in
      if h = 0 \<or> err = ERROR_ALREADY_EXISTS
      then (Inl (Runtime_error (''CreateFileMappingW failed: Windows error '' @ to_string (unat err))),
            if h \<noteq> 0 then sys_close h k1 else k1)
      else
        (case view_result env of
           None \<Rightarrow> (Inl (Runtime_error (''MapViewOfFile failed: Windows error '' @ to_string (unat (view_error env)))),
                    sys_close h k1)
         | Some mapping \<Rightarrow>
             (Inr \<lparr>pm_native_handle = h, pm_mapping = mapping, pm_mapped_size = mapped_size, pm_ipc_name = name\<rparr>,
              case fds k1 h of Some (Memory c) \<Rightarrow> sys_map mapping c k1 | _ \<Rightarrow> k1)))"

definition windows_destroy_platform_mapping :: "int \<Rightarrow> u64 \<Rightarrow> u64 \<Rightarrow> kernel \<Rightarrow> kernel" where
  "windows_destroy_platform_mapping native_handle mapping mapped_size k =
     (let k1 = (if mapping \<noteq> 0 then sys_unmap mapping k else k) in
      if native_handle \<ge> 0 then sys_close native_handle k1 else k1)"

text \<open>
  Documented outcomes: a handle returned is positive and new, a view address is free, and a
  name belongs to an object that still has a handle or a view.
\<close>

definition names_alive :: "kernel \<Rightarrow> bool" where
  "names_alive k \<longleftrightarrow> (\<forall>s c. names k s = Some c \<longrightarrow> 0 < refs k c \<and> c < next_oid k)"

definition windows_good :: "windows_create_env \<Rightarrow> kernel \<Rightarrow> u64 \<Rightarrow> bool" where
  "windows_good env k sz \<longleftrightarrow>
     (\<forall>n. create_handles env n \<ge> 0 \<and> (create_handles env n \<noteq> 0 \<longrightarrow> fds k (create_handles env n) = None)) \<and>
     (\<forall>b. view_result env = Some b \<longrightarrow> range_free k b sz) \<and> names_alive k"

section \<open>Importing a mapping\<close>

record windows_import_env =
  open_handle :: int
  open_error :: u32
  import_view_result :: "u64 option"
  import_view_error :: u32

text \<open>
  \<^verbatim>\<open>MapViewOfFile\<close> does not map more bytes than the mapping object has.
\<close>

definition windows_import_platform_mapping :: "windows_import_env \<Rightarrow> import_mapping" where
  "windows_import_platform_mapping env ipc_name mapped_size k =
     (case names k (widen_ascii ipc_name) of
        None \<Rightarrow> (Inl (Runtime_error (''OpenFileMappingW failed: Windows error '' @ to_string (unat (open_error env)))), k)
      | Some c \<Rightarrow>
          (if open_handle env = 0
           then (Inl (Runtime_error (''OpenFileMappingW failed: Windows error '' @ to_string (unat (open_error env)))), k)
           else
             (let h = open_handle env; k1 = sys_open_object h c k in
              case (if mapped_size \<le> osize k c then import_view_result env else None) of
                None \<Rightarrow>
                  (Inl (Runtime_error (''MapViewOfFile failed: Windows error '' @ to_string (unat (import_view_error env)))),
                   sys_close h k1)
              | Some mapping \<Rightarrow>
                  (Inr \<lparr>pm_native_handle = h, pm_mapping = mapping, pm_mapped_size = mapped_size, pm_ipc_name = ipc_name\<rparr>,
                   sys_map mapping c k1))))"

definition windows_good_import :: "windows_import_env \<Rightarrow> kernel \<Rightarrow> u64 \<Rightarrow> bool" where
  "windows_good_import env k sz \<longleftrightarrow> 0 \<le> open_handle env \<and> fds k (open_handle env) = None \<and>
     (\<forall>b. import_view_result env = Some b \<longrightarrow> range_free k b sz) \<and> names_alive k"

section \<open>Lemmas\<close>

lemma sys_open_close: "fds k h = None \<Longrightarrow> 0 < refs k c \<Longrightarrow> sys_close h (sys_open_object h c k) = k"
  by (cases k) (auto simp: sys_close_def sys_open_object_def drop_ref_def Let_def fun_eq_iff)

lemma CreateFileMappingW_cases:
  "CreateFileMappingW env n name sz k = (h, err, k1) \<Longrightarrow>
     h = 0 \<and> k1 = k \<and> create_handles env n = 0 \<and> err = create_error env \<or>
     h = create_handles env n \<and> h \<noteq> 0 \<and> err = ERROR_ALREADY_EXISTS \<and>
       (\<exists>c. names k name = Some c \<and> k1 = sys_open_object h c k) \<or>
     h = create_handles env n \<and> h \<noteq> 0 \<and> err = ERROR_SUCCESS \<and> names k name = None \<and>
       k1 = (let k1 = set_object_size (next_oid k) sz (sys_new_object h k)
             in k1\<lparr>names := (names k1)(name \<mapsto> next_oid k)\<rparr>)"
  by (auto simp: CreateFileMappingW_def Let_def split: if_splits option.splits)

lemma sys_close_objects_kept [simp]: "objects_kept k (sys_close h k') = objects_kept k k'"
  by (simp add: objects_kept_def)

lemma create_attempts_kept:
  "create_attempts env sz i nonce n s k = (r, k1) \<Longrightarrow> objects_kept k k1"
proof (induction env sz i nonce n s k arbitrary: r k1 rule: create_attempts.induct)
  case (1 env sz i nonce n s k)
  let ?name = "mapping_name (process_id env) nonce i n"
  obtain h err k2 where cf: "CreateFileMappingW env n (widen_ascii ?name) sz k = (h, err, k2)"
    by (cases "CreateFileMappingW env n (widen_ascii ?name) sz k") auto
  have k2: "objects_kept k k2"
    using CreateFileMappingW_cases [OF cf]
    by (auto simp: objects_kept_def sys_open_object_def Let_def set_object_size_def sys_new_object_def)
  show ?case
  proof (cases "n < 8 \<and> h \<noteq> 0 \<and> err = ERROR_ALREADY_EXISTS")
    case True
    with 1(2) cf have "create_attempts env sz i nonce (Suc n) (0, err, ?name) (sys_close h k2) = (r, k1)"
      by (simp add: create_attempts.simps [of _ _ _ _ n])
    then have "objects_kept (sys_close h k2) k1" using 1(1) [OF _ refl cf [symmetric] refl] True by auto
    with k2 show ?thesis by (simp add: objects_kept_def)
  next
    case False
    with 1(2) cf k2 show ?thesis by (auto simp: create_attempts.simps [of _ _ _ _ n] Let_def split: if_splits)
  qed
qed

text \<open>
  The outcome of the loop: the first free name gets the new object, every earlier name was
  taken and left as it was; or there is no handle and nothing has changed.
\<close>

definition created :: "windows_create_env \<Rightarrow> u64 \<Rightarrow> u32 \<Rightarrow> u64 \<Rightarrow> nat \<Rightarrow> kernel \<Rightarrow> int \<Rightarrow> string \<Rightarrow> kernel \<Rightarrow> bool" where
  "created env sz i nonce n k h name k1 \<longleftrightarrow>
     name = mapping_name (process_id env) nonce i n \<and> h = create_handles env n \<and> h \<noteq> 0 \<and>
     names k (widen_ascii name) = None \<and>
     k1 = (let k2 = set_object_size (next_oid k) sz (sys_new_object h k)
           in k2\<lparr>names := (names k2)(widen_ascii name \<mapsto> next_oid k)\<rparr>)"

lemma create_attempts_outcome:
  "create_attempts env sz i nonce n s k = ((h, err, name), k1) \<Longrightarrow> windows_good env k sz' \<Longrightarrow> fst s = 0 \<Longrightarrow>
     h = 0 \<and> k1 = k \<and> ((\<exists>m. create_handles env m = 0) \<or> (\<forall>a. n \<le> a \<longrightarrow> a < 8 \<longrightarrow>
       names k (widen_ascii (mapping_name (process_id env) nonce i a)) \<noteq> None)) \<or>
     err = ERROR_SUCCESS \<and> (\<exists>m. n \<le> m \<and> m < 8 \<and> created env sz i nonce m k h name k1 \<and>
       (\<forall>a. n \<le> a \<longrightarrow> a < m \<longrightarrow> names k (widen_ascii (mapping_name (process_id env) nonce i a)) \<noteq> None))"
proof (induction env sz i nonce n s k arbitrary: h err name k1 rule: create_attempts.induct)
  case (1 env sz i nonce n s k)
  let ?name = "mapping_name (process_id env) nonce i n"
  obtain h' err' k2 where cf: "CreateFileMappingW env n (widen_ascii ?name) sz k = (h', err', k2)"
    by (cases "CreateFileMappingW env n (widen_ascii ?name) sz k") auto
  note cs = CreateFileMappingW_cases [OF cf]
  show ?case
  proof (cases "n < 8 \<and> h' \<noteq> 0 \<and> err' = ERROR_ALREADY_EXISTS")
    case True
    then obtain c where c: "names k (widen_ascii ?name) = Some c" "k2 = sys_open_object h' c k"
        "h' = create_handles env n"
      using cs by (auto simp: ERROR_SUCCESS_def ERROR_ALREADY_EXISTS_def)
    with 1(3) True have cl: "sys_close h' k2 = k"
      by (auto simp: windows_good_def names_alive_def intro!: sys_open_close)
    with 1(2) True cf have "create_attempts env sz i nonce (Suc n) (0, err', ?name) k = ((h, err, name), k1)"
      by (simp add: create_attempts.simps [of _ _ _ _ n])
    then have "h = 0 \<and> k1 = k \<and> ((\<exists>m. create_handles env m = 0) \<or> (\<forall>a. Suc n \<le> a \<longrightarrow> a < 8 \<longrightarrow>
          names k (widen_ascii (mapping_name (process_id env) nonce i a)) \<noteq> None)) \<or> err = ERROR_SUCCESS \<and>
        (\<exists>m. Suc n \<le> m \<and> m < 8 \<and> created env sz i nonce m k h name k1 \<and>
          (\<forall>a. Suc n \<le> a \<longrightarrow> a < m \<longrightarrow> names k (widen_ascii (mapping_name (process_id env) nonce i a)) \<noteq> None))"
      using 1(1) [OF _ refl cf [symmetric] refl] True 1(3) by (simp add: cl)
    then show ?thesis using c(1) by (metis Suc_leD Suc_leI le_neq_implies_less option.distinct(1))
  next
    case False
    with 1(2,4) cf cs show ?thesis
      by (cases "n < 8") (auto simp: create_attempts.simps [of _ _ _ _ n] created_def Let_def split: if_splits)
  qed
qed

lemma windows_create_success:
  assumes "windows_create_platform_mapping env sz i nonce k = (Inr pm, k')" and good: "windows_good env k sz'"
  shows "\<exists>m b k1. m < 8 \<and> created env sz i nonce m k (create_handles env m) (pm_ipc_name pm) k1 \<and>
    view_result env = Some b \<and> k' = sys_map b (next_oid k) k1 \<and>
    pm = \<lparr>pm_native_handle = create_handles env m, pm_mapping = b, pm_mapped_size = sz, pm_ipc_name = pm_ipc_name pm\<rparr> \<and>
    (\<forall>a < m. names k (widen_ascii (mapping_name (process_id env) nonce i a)) \<noteq> None)"
proof -
  obtain h err name k1 where ca: "create_attempts env sz i nonce 0 (0, ERROR_SUCCESS, '''') k = ((h, err, name), k1)"
    by (metis prod.exhaust)
  with assms obtain b where h: "h \<noteq> 0" and b: "view_result env = Some b"
      and pm: "pm = \<lparr>pm_native_handle = h, pm_mapping = b, pm_mapped_size = sz, pm_ipc_name = name\<rparr>"
      and k': "k' = (case fds k1 h of Some (Memory c) \<Rightarrow> sys_map b c k1 | _ \<Rightarrow> k1)"
    by (auto simp: windows_create_platform_mapping_def Let_def split: if_splits option.splits)
  from create_attempts_outcome [OF ca good] h obtain m where m: "m < 8" "created env sz i nonce m k h name k1"
      "\<forall>a < m. names k (widen_ascii (mapping_name (process_id env) nonce i a)) \<noteq> None" by auto
  then have "fds k1 h = Some (Memory (next_oid k))" and "h = create_handles env m"
    by (auto simp: created_def Let_def set_object_size_def sys_new_object_def)
  with m b pm k' show ?thesis by (intro exI [of _ m] exI [of _ b] exI [of _ k1]) simp
qed

lemma windows_create_failure:
  assumes "windows_create_platform_mapping env sz i nonce k = (Inl e, k')" and good: "windows_good env k sz'"
  shows "vm k' = vm k \<and> fds k' = fds k"
proof -
  obtain h err name k1 where ca: "create_attempts env sz i nonce 0 (0, ERROR_SUCCESS, '''') k = ((h, err, name), k1)"
    by (metis prod.exhaust)
  from create_attempts_outcome [OF ca good] consider "h = 0" "k1 = k"
    | m where "err = ERROR_SUCCESS" "created env sz i nonce m k h name k1" by auto
  then show ?thesis
  proof cases
    case 1
    with assms ca show ?thesis by (simp add: windows_create_platform_mapping_def)
  next
    case 2
    then have "vm k1 = vm k" "(fds k1)(h := None) = fds k" "h \<noteq> 0" "err \<noteq> ERROR_ALREADY_EXISTS"
      using good by (auto simp: created_def Let_def set_object_size_def sys_new_object_def windows_good_def
          ERROR_SUCCESS_def ERROR_ALREADY_EXISTS_def fun_eq_iff)
    with assms ca show ?thesis
      by (auto simp: windows_create_platform_mapping_def split: option.splits)
  qed
qed

lemma sys_map_kept [simp]: "objects_kept k (sys_map b c k') = objects_kept k k'"
  by (simp add: objects_kept_def sys_map_def)

lemma windows_create_kept:
  assumes "windows_create_platform_mapping env sz i nonce k = (r, k')"
  shows "objects_kept k k'"
proof -
  obtain h err name k1 where ca: "create_attempts env sz i nonce 0 (0, ERROR_SUCCESS, '''') k = ((h, err, name), k1)"
    by (metis prod.exhaust)
  from create_attempts_kept [OF ca] ca assms show ?thesis
    by (auto simp: windows_create_platform_mapping_def Let_def split: if_splits option.splits fd_entry.splits)
qed

interpretation windows: platform
  "windows_create_platform_mapping env" windows_destroy_platform_mapping "windows_good env" for env
proof
  fix sz i n k pm k'
  assume cr: "windows_create_platform_mapping env sz i n k = (Inr pm, k')" and good: "windows_good env k sz"
  from windows_create_success [OF this] obtain m b k1 where
    "created env sz i n m k (create_handles env m) (pm_ipc_name pm) k1" "view_result env = Some b"
    "k' = sys_map b (next_oid k) k1" "pm_native_handle pm = create_handles env m" "pm_mapping pm = b" "pm_mapped_size pm = sz"
    by (metis SharedBufferPlatformMapping.select_convs(1,2,3))
  with good show "pm_mapped_size pm = sz \<and> 0 \<le> pm_native_handle pm \<and> range_free k (pm_mapping pm) sz \<and>
       vm k' = (vm k)(pm_mapping pm \<mapsto> next_oid k) \<and> next_oid k' = Suc (next_oid k) \<and>
       fds k (pm_native_handle pm) = None \<and>
       fds k' = (fds k)(pm_native_handle pm \<mapsto> Memory (next_oid k)) \<and>
       osize k' (next_oid k) = sz \<and>
       pay k' (next_oid k) = replicate (unat sz - unat kSharedBufferPayloadOffset) 0"
    by (simp add: windows_good_def created_def Let_def sys_map_def set_object_size_def sys_new_object_def)
next
  fix h b sz k
  assume "0 \<le> (h :: int)" and "b \<noteq> (0 :: u64)" and "0 < (sz :: u64)"
  then show "vm (windows_destroy_platform_mapping h b sz k) = (vm k)(b := None) \<and>
      fds (windows_destroy_platform_mapping h b sz k) = (fds k)(h := None)"
    by (simp add: windows_destroy_platform_mapping_def Let_def)
next
  fix h b sz k
  show "objects_kept k (windows_destroy_platform_mapping h b sz k)"
    by (simp add: windows_destroy_platform_mapping_def Let_def objects_kept_def)
next
  fix k k' sz
  assume "same_layout k k'" and "windows_good env k sz"
  then show "windows_good env k' sz"
    by (auto simp: windows_good_def same_layout_def range_free_def names_alive_def)
qed (auto dest: windows_create_kept windows_create_failure)

lemma windows_import_success:
  assumes "windows_import_platform_mapping env name sz k = (Inr pm, k')"
  shows "\<exists>c b. names k (widen_ascii name) = Some c \<and> import_view_result env = Some b \<and> sz \<le> osize k c \<and>
    k' = sys_map b c (sys_open_object (open_handle env) c k) \<and>
    pm = \<lparr>pm_native_handle = open_handle env, pm_mapping = b, pm_mapped_size = sz, pm_ipc_name = name\<rparr>"
  using assms by (auto simp: windows_import_platform_mapping_def Let_def split: option.splits if_splits)

interpretation windows_import: platform_import
  "windows_create_platform_mapping env" windows_destroy_platform_mapping "windows_good env"
  "windows_import_platform_mapping ienv" "windows_good_import ienv" for env ienv
proof
  fix name sz k pm k'
  assume "windows_import_platform_mapping ienv name sz k = (Inr pm, k')" and "windows_good_import ienv k sz"
  then show "pm_mapped_size pm = sz \<and> 0 \<le> pm_native_handle pm \<and> range_free k (pm_mapping pm) sz \<and>
       fds k (pm_native_handle pm) = None \<and>
       (\<exists>c < next_oid k. vm k' = (vm k)(pm_mapping pm \<mapsto> c) \<and> sz \<le> osize k c \<and>
            fds k' = (fds k)(pm_native_handle pm \<mapsto> Memory c))"
    by (fastforce dest!: windows_import_success
        simp: windows_good_import_def names_alive_def sys_map_def sys_open_object_def)
next
  fix name sz k r k'
  assume "windows_import_platform_mapping ienv name sz k = (r, k')"
  then show "osize k' = osize k \<and> hdr k' = hdr k \<and> pay k' = pay k \<and> next_oid k' = next_oid k"
    by (auto simp: windows_import_platform_mapping_def Let_def sys_map_def sys_open_object_def
        split: option.splits if_splits)
next
  fix name sz k e k'
  assume "windows_import_platform_mapping ienv name sz k = (Inl e, k')" and "windows_good_import ienv k sz"
  then show "vm k' = vm k \<and> fds k' = fds k"
    by (auto simp: windows_import_platform_mapping_def windows_good_import_def Let_def sys_open_object_def fun_eq_iff
        split: option.splits if_splits)
qed


section \<open>Properties\<close>

text \<open>
  The name loop of the Windows implementation succeeds exactly when one of the eight names it
  tries is free (the system calls themselves succeeding): it takes the first free one, binds it
  to a new object, and never adopts an object that already exists; otherwise it throws and the
  kernel is as before.
\<close>

theorem windows_create_takes_first_free_name:
  assumes "windows_good env k sz" and "\<forall>n. create_handles env n \<noteq> 0" and "view_result env = Some b"
  shows "(let (r, k') = windows_create_platform_mapping env sz block_id nonce k in
      case r of
        Inr pm \<Rightarrow> (\<exists>m < 8. pm_ipc_name pm = mapping_name (process_id env) nonce block_id m \<and>
          names k (widen_ascii (pm_ipc_name pm)) = None \<and>
          (\<forall>a < m. names k (widen_ascii (mapping_name (process_id env) nonce block_id a)) \<noteq> None) \<and>
          names k' = (names k)(widen_ascii (pm_ipc_name pm) \<mapsto> next_oid k) \<and>
          vm k' = (vm k)(b \<mapsto> next_oid k))
      | Inl e \<Rightarrow> k' = k \<and>
          (\<forall>a < 8. names k (widen_ascii (mapping_name (process_id env) nonce block_id a)) \<noteq> None))"
proof (cases "windows_create_platform_mapping env sz block_id nonce k")
  case (Pair r k')
  show ?thesis
  proof (cases r)
    case (Inr pm)
    with Pair windows_create_success [OF _ assms(1)] obtain m k1 where
      m: "m < 8" "created env sz block_id nonce m k (create_handles env m) (pm_ipc_name pm) k1"
      "k' = sys_map b (next_oid k) k1" "\<forall>a < m. names k (widen_ascii (mapping_name (process_id env) nonce block_id a)) \<noteq> None"
      using assms(3) by (metis option.inject)
    then have "names k' = (names k)(widen_ascii (pm_ipc_name pm) \<mapsto> next_oid k)" "vm k' = (vm k)(b \<mapsto> next_oid k)"
      by (simp_all add: created_def Let_def sys_map_def set_object_size_def sys_new_object_def)
    with Pair Inr m show ?thesis by (auto simp: created_def)
  next
    case (Inl e)
    obtain h err name k1 where ca:
      "create_attempts env sz block_id nonce 0 (0, ERROR_SUCCESS, '''') k = ((h, err, name), k1)"
      by (metis prod.exhaust)
    from Pair Inl ca assms(3) have "h = 0 \<or> err = ERROR_ALREADY_EXISTS" and k': "k' = (if h = 0 then k1 else sys_close h k1)"
      by (auto simp: windows_create_platform_mapping_def split: if_splits)
    with create_attempts_outcome [OF ca assms(1)] assms(2)
    have "h = 0" "k1 = k" "\<forall>a < 8. names k (widen_ascii (mapping_name (process_id env) nonce block_id a)) \<noteq> None"
      by (auto simp: created_def ERROR_SUCCESS_def ERROR_ALREADY_EXISTS_def)
    with Pair Inl k' show ?thesis by simp
  qed
qed

definition sample_windows_env :: windows_create_env where
  "sample_windows_env = \<lparr>process_id = 9, create_handles = (\<lambda>_. 100), create_error = 8,
     view_result = Some 0x10000, view_error = 0\<rparr>"

definition sample_windows_kernel :: kernel where
  "sample_windows_kernel = \<lparr>vm = (\<lambda>_. None), fds = [3 \<mapsto> Memory 0], osize = (\<lambda>_. 64), hdr = (\<lambda>_. zero_header),
     pay = (\<lambda>_. []), next_oid = 1, names = [widen_ascii (mapping_name 9 5 0 0) \<mapsto> 0],
     socket_files = (\<lambda>_. None), refs = (\<lambda>_. 0)(0 := 1), clock = (\<lambda>_. 0)\<rparr>"

lemma sample_windows_good: "windows_good sample_windows_env sample_windows_kernel 68"
  by (simp add: windows_good_def sample_windows_env_def sample_windows_kernel_def range_free_def names_alive_def)

theorem windows_create_takes_first_free_name_witness:
  "\<exists>pm k'. windows_create_platform_mapping sample_windows_env 68 0 5 sample_windows_kernel = (Inr pm, k') \<and>
     pm_ipc_name pm \<noteq> mapping_name 9 5 0 0"
proof -
  have ne: "widen_ascii (mapping_name 9 5 0 0) \<noteq> widen_ascii (mapping_name 9 5 0 1)"
    by (simp add: mapping_name_def widen_ascii_def to_string.simps digit_char_def)
  then have free: "names sample_windows_kernel (widen_ascii (mapping_name 9 5 0 1)) = None"
      and taken: "names sample_windows_kernel (widen_ascii (mapping_name 9 5 0 0)) \<noteq> None"
    by (simp_all add: sample_windows_kernel_def)
  obtain r k' where r: "windows_create_platform_mapping sample_windows_env 68 0 5 sample_windows_kernel = (r, k')"
    by (cases "windows_create_platform_mapping sample_windows_env 68 0 5 sample_windows_kernel")
  have env: "\<forall>n. create_handles sample_windows_env n \<noteq> 0" "view_result sample_windows_env = Some 0x10000"
      "process_id sample_windows_env = 9" by (simp_all add: sample_windows_env_def)
  note main = windows_create_takes_first_free_name [OF sample_windows_good env(1,2), of 0 5, unfolded r env Let_def prod.case]
  show ?thesis
  proof (cases r)
    case (Inl e)
    with main have "\<forall>a < 8. names sample_windows_kernel (widen_ascii (mapping_name 9 5 0 a)) \<noteq> None" by simp
    from this [rule_format, of 1] free show ?thesis by simp
  next
    case (Inr pm)
    with main taken r show ?thesis by auto
  qed
qed

text \<open>
  C36: a mapping created on Windows is found by its name: an import with the name and size that
  \<^verbatim>\<open>create_platform_mapping\<close> returned succeeds and maps the very object that was created, at a
  second address; importing more bytes than it has fails and leaves nothing open.
\<close>

theorem windows_import_finds_created:
  assumes "windows_create_platform_mapping env sz block_id nonce k = (Inr pm, k1)" and "windows_good env k sz"
    and "windows_good_import ienv k1 sz'" and "open_handle ienv \<noteq> 0" and "import_view_result ienv = Some b"
  shows "vm k1 (pm_mapping pm) = Some (next_oid k) \<and>
    (let (r, k2) = windows_import_platform_mapping ienv (pm_ipc_name pm) sz' k1 in
      if sz' \<le> sz then r = Inr \<lparr>pm_native_handle = open_handle ienv, pm_mapping = b, pm_mapped_size = sz',
             pm_ipc_name = pm_ipc_name pm\<rparr> \<and> vm k2 = (vm k1)(b \<mapsto> next_oid k)
      else (\<exists>e. r = Inl e) \<and> vm k2 = vm k1 \<and> fds k2 = fds k1)"
proof -
  from windows_create_success [OF assms(1,2)] obtain m c k2 where
    "created env sz block_id nonce m k (create_handles env m) (pm_ipc_name pm) k2" "k1 = sys_map c (next_oid k) k2"
    "pm_mapping pm = c"
    by (metis SharedBufferPlatformMapping.select_convs(2))
  then have "names k1 (widen_ascii (pm_ipc_name pm)) = Some (next_oid k)" "osize k1 (next_oid k) = sz"
      "vm k1 (pm_mapping pm) = Some (next_oid k)"
    by (simp_all add: created_def Let_def sys_map_def set_object_size_def sys_new_object_def)
  moreover have "fds k1 (open_handle ienv) = None" using assms(3) by (simp add: windows_good_import_def)
  ultimately show ?thesis using assms(4,5)
    by (auto simp: windows_import_platform_mapping_def Let_def sys_open_object_def sys_map_def fun_eq_iff)
qed

definition sample_windows_import_env :: windows_import_env where
  "sample_windows_import_env =
     \<lparr>open_handle = 200, open_error = 0, import_view_result = Some 0x20000, import_view_error = 0\<rparr>"

theorem windows_import_finds_created_witness:
  "\<exists>pm k1. windows_create_platform_mapping sample_windows_env 68 0 6 sample_windows_kernel = (Inr pm, k1) \<and>
     vm k1 (pm_mapping pm) = Some 1 \<and>
     vm (snd (windows_import_platform_mapping sample_windows_import_env (pm_ipc_name pm) 68 k1)) 0x20000 = Some 1"
proof -
  let ?env = "sample_windows_env" and ?k = sample_windows_kernel
  let ?ienv = sample_windows_import_env
  have ne: "widen_ascii (mapping_name 9 6 0 0) \<noteq> widen_ascii (mapping_name 9 5 0 0)"
    by (simp add: mapping_name_def widen_ascii_def to_string.simps digit_char_def)
  then have cr: "\<exists>pm k1. windows_create_platform_mapping ?env 68 0 6 ?k = (Inr pm, k1) \<and>
      vm k1 = [0x10000 \<mapsto> 1] \<and> fds k1 = [3 \<mapsto> Memory 0, 100 \<mapsto> Memory 1] \<and> (osize k1) 1 = 68 \<and> names_alive k1"
    by (simp add: windows_create_platform_mapping_def create_attempts.simps CreateFileMappingW_def
        sample_windows_env_def sample_windows_kernel_def ERROR_SUCCESS_def ERROR_ALREADY_EXISTS_def
        sys_new_object_def set_object_size_def sys_map_def Let_def names_alive_def)
  then obtain pm k1 where k1: "windows_create_platform_mapping ?env 68 0 6 ?k = (Inr pm, k1)"
      "vm k1 = [0x10000 \<mapsto> 1]" "fds k1 = [3 \<mapsto> Memory 0, 100 \<mapsto> Memory 1]" "osize k1 1 = 68" "names_alive k1" by blast
  then have "windows_good_import ?ienv k1 68"
    by (simp add: windows_good_import_def range_free_def ranges_disjoint_def sample_windows_import_env_def)
  from windows_import_finds_created [OF k1(1) sample_windows_good this, of "0x20000"]
  have "vm k1 (pm_mapping pm) = Some 1 \<and> vm (snd (windows_import_platform_mapping ?ienv (pm_ipc_name pm) 68 k1)) 0x20000 = Some 1"
    using k1(2) by (cases "windows_import_platform_mapping ?ienv (pm_ipc_name pm) 68 k1")
      (auto simp: sample_windows_kernel_def sample_windows_import_env_def)
  with k1(1) show ?thesis by (intro exI [of _ pm] exI [of _ k1]) simp
qed

end
