(* ===== verification/Pool_Correct.thy ===== *)
theory Pool_Correct
  imports Pool Platform_Linux Platform_Windows
begin

text \<open>
  Correctness of the memory pool.  \<open>pool_inv\<close> ties the pool's bookkeeping to the kernel and to
  the shared headers: every block is a live mapping with a well-formed header, the mappings do
  not meet, and the free lists hold exactly the blocks that are not in use, each in the bucket
  of its payload size.  Every operation preserves it, for either platform: the lemmas about
  \<open>create_block\<close> and \<open>allocate\<close> are proved in the locale \<open>platform\<close>.
\<close>

section \<open>Invariant\<close>

definition block_ok :: "kernel \<Rightarrow> SharedBufferBlock \<Rightarrow> bool" where
  "block_ok k b \<longleftrightarrow>
     (case control b of
        None \<Rightarrow> False
      | Some c \<Rightarrow>
          c < next_oid k \<and> vm k (mapping b) = Some c \<and> osize k c = mapped_size b \<and>
          magic (hdr k c) = kSharedBufferControlMagic \<and>
          abi_version (hdr k c) = kSharedBufferControlAbiVersion \<and>
          payload_size (hdr k c) = block_payload_size b \<and>
          length (pay k c) = unat (block_payload_size b)) \<and>
     0 \<le> native_handle b \<and> 0 < block_payload_size b \<and>
     unat (mapped_size b) = 64 + unat (block_payload_size b) \<and>
     mapping b \<noteq> 0 \<and> unat (mapping b) + unat (mapped_size b) < 2 ^ 64"

definition blocks_disjoint :: "SharedBufferBlock list \<Rightarrow> bool" where
  "blocks_disjoint bs \<longleftrightarrow>
     (\<forall>i < length bs. \<forall>j < length bs. i \<noteq> j \<longrightarrow>
        control (bs ! i) \<noteq> control (bs ! j) \<and>
        ranges_disjoint (mapping (bs ! i)) (mapped_size (bs ! i)) (mapping (bs ! j)) (mapped_size (bs ! j)))"

text \<open>
  The invariant except for the blocks in \<open>R\<close>, which an operation has taken out of the free
  lists (or just created) and not yet marked as used.
\<close>

definition free_ok :: "nat set \<Rightarrow> 'b SharedBufferMemoryPool \<Rightarrow> bool" where
  "free_ok R p \<longleftrightarrow>
     (\<forall>sz l. free_blocks p sz = Some l \<longrightarrow> l \<noteq> [] \<and> distinct l \<and>
        (\<forall>i \<in> set l. i < length (all_blocks p) \<and> i \<notin> R \<and>
           block_payload_size (all_blocks p ! i) = sz \<and> \<not> in_use (all_blocks p ! i))) \<and>
     (\<forall>i < length (all_blocks p). i \<notin> R \<longrightarrow> \<not> in_use (all_blocks p ! i) \<longrightarrow>
        (\<exists>l. free_blocks p (block_payload_size (all_blocks p ! i)) = Some l \<and> i \<in> set l))"

definition block_lock :: "kernel \<Rightarrow> SharedBufferBlock \<Rightarrow> reader_lock" where
  "block_lock k b =
     (case control b of None \<Rightarrow> Claimed | Some c \<Rightarrow> reader_lock_of (reader_state (hdr k c)))"

definition pool_inv_except :: "nat set \<Rightarrow> 'b SharedBufferMemoryPool \<Rightarrow> kernel \<Rightarrow> bool" where
  "pool_inv_except R p k \<longleftrightarrow>
     (\<forall>i < length (all_blocks p). block_ok k (all_blocks p ! i)) \<and>
     blocks_disjoint (all_blocks p) \<and> free_ok R p \<and>
     (\<forall>i < length (all_blocks p). i \<notin> R \<longrightarrow> block_lock k (all_blocks p ! i) \<noteq> Claimed)"

definition pool_inv :: "'b SharedBufferMemoryPool \<Rightarrow> kernel \<Rightarrow> bool" where
  "pool_inv p k \<longleftrightarrow> pool_inv_except {} p k"

lemma pool_inv_new: "pool_inv (new_pool rng br) k"
  by (simp add: pool_inv_def pool_inv_except_def new_pool_def blocks_disjoint_def free_ok_def)

lemma block_ok_control: "block_ok k b \<Longrightarrow> \<exists>c. control b = Some c \<and> c < next_oid k \<and> vm k (mapping b) = Some c"
  by (auto simp: block_ok_def split: option.splits)

lemma block_ok_kept:
  "block_ok k b \<Longrightarrow> objects_kept k k' \<Longrightarrow> vm k' (mapping b) = vm k (mapping b) \<Longrightarrow> block_ok k' b"
  by (auto simp: block_ok_def objects_kept_def split: option.splits)

lemma block_ok_same_layout: "same_layout k k' \<Longrightarrow> block_ok k' b \<longleftrightarrow> block_ok k b"
  by (auto simp: block_ok_def same_layout_def split: option.splits)

section \<open>Claiming a candidate\<close>

text \<open>
  The reuse condition of \<^verbatim>\<open>try_claim_block\<close> for a clock reading \<open>now\<close>: never published, or the
  grace period is over.
\<close>

definition reusable_at :: "u64 \<Rightarrow> control_header \<Rightarrow> bool" where
  "reusable_at now h \<longleftrightarrow> publish_timestamp_us h = 0 \<or>
     \<not> now < publish_timestamp_us h \<and> \<not> now - publish_timestamp_us h < kSharedBufferGracePeriodUs"

lemma reusable_at_nat:
  "reusable_at now h \<longleftrightarrow> publish_timestamp_us h = 0 \<or>
     unat (publish_timestamp_us h) + 100000 \<le> unat now"
  by (auto simp: reusable_at_def word_less_nat_alt unat_sub_if' kSharedBufferGracePeriodUs_def)

definition claim_header :: "oid \<Rightarrow> cmem \<Rightarrow> cmem" where
  "claim_header c m = m(c := (m c)\<lparr>reader_state := kSharedBufferReuseClaimed\<rparr>)"

lemma same_layout_claim: "same_layout k k1 \<Longrightarrow> hdr k1 = hdr k \<Longrightarrow> same_layout k (k1\<lparr>hdr := claim_header c (hdr k)\<rparr>)"
  by (auto simp: same_layout_def claim_header_def)

definition passed_time :: "nat \<Rightarrow> kernel \<Rightarrow> kernel" where
  "passed_time n k = k\<lparr>clock := (\<lambda>j. clock k (n + j))\<rparr>"

lemma passed_time_simps [simp]:
  "passed_time 0 k = k" "hdr (passed_time n k) = hdr k" "same_layout k (passed_time n k)"
  "clock (passed_time n k) j = clock k (n + j)"
  "passed_time n (passed_time n' k) = passed_time (n' + n) k"
  by (simp_all add: passed_time_def same_layout_def add.assoc)

lemma snd_monotonic_time: "snd (monotonic_time_us k) = passed_time 1 k"
  by (simp add: monotonic_time_us_def passed_time_def)

lemma try_claim_block_result:
  assumes "control (all_blocks p ! i) = Some c"
  shows "\<exists>n \<le> 1. try_claim_block (Some i) p k =
    (if reusable_at (clock k 0) (hdr k c) \<and> reader_state (hdr k c) = 0
     then (True, (passed_time n k)\<lparr>hdr := claim_header c (hdr k)\<rparr>)
     else (False, passed_time n k))"
proof (cases "publish_timestamp_us (hdr k c) = 0")
  case True
  with assms show ?thesis
    by (intro exI [of _ 0]) (auto simp: try_claim_block_def Let_def
        try_claim_shared_buffer_reuse_def reusable_at_def claim_header_def)
next
  case False
  with assms show ?thesis
    by (intro exI [of _ 1]) (auto simp: try_claim_block_def Let_def monotonic_time_us_def passed_time_def
        try_claim_shared_buffer_reuse_def reusable_at_def claim_header_def)
qed

lemma claim_candidate_Some:
  "claim_candidate p bs i k = (Some j, k') \<Longrightarrow>
   \<forall>b \<in> set bs. \<exists>c. control (all_blocks p ! b) = Some c \<Longrightarrow>
   i \<le> j \<and> j - i < length bs \<and>
   (\<exists>c n m. control (all_blocks p ! (bs ! (j - i))) = Some c \<and> n \<le> length bs \<and>
      reader_state (hdr k c) = 0 \<and> reusable_at (clock k n) (hdr k c) \<and>
      k' = (passed_time m k)\<lparr>hdr := claim_header c (hdr k)\<rparr>)"
proof (induction bs arbitrary: i k)
  case Nil
  then show ?case by simp
next
  case (Cons b bs)
  then obtain c where c: "control (all_blocks p ! b) = Some c" by auto
  obtain n where n: "n \<le> 1" "try_claim_block (Some b) p k =
      (if reusable_at (clock k 0) (hdr k c) \<and> reader_state (hdr k c) = 0
       then (True, (passed_time n k)\<lparr>hdr := claim_header c (hdr k)\<rparr>) else (False, passed_time n k))"
    using try_claim_block_result [where ?k = k, OF c] by blast
  show ?case
  proof (cases "reusable_at (clock k 0) (hdr k c) \<and> reader_state (hdr k c) = 0")
    case True
    with Cons.prems(1) n(2) have j: "j = i" and k': "k' = (passed_time n k)\<lparr>hdr := claim_header c (hdr k)\<rparr>"
      by auto
    show ?thesis unfolding j k' using c True by (intro conjI exI [of _ c] exI [of _ 0] exI [of _ n]) simp_all
  next
    case False
    with Cons.prems(1) n(2) have "claim_candidate p bs (Suc i) (passed_time n k) = (Some j, k')" by auto
    from Cons.IH [OF this] Cons.prems(2) obtain d n' m where IH: "Suc i \<le> j" "j - Suc i < length bs"
        "control (all_blocks p ! (bs ! (j - Suc i))) = Some d" "n' \<le> length bs" "reader_state (hdr k d) = 0"
        "reusable_at (clock k (n + n')) (hdr k d)"
        "k' = (passed_time (n + m) k)\<lparr>hdr := claim_header d (hdr k)\<rparr>"
      by auto
    from IH(1) have sh: "(b # bs) ! (j - i) = bs ! (j - Suc i)"
      by (metis Suc_diff_Suc Suc_le_lessD nth_Cons_Suc)
    show ?thesis using IH n(1) sh
      by (intro conjI exI [of _ d] exI [of _ "n + n'"] exI [of _ "n + m"]) simp_all
  qed
qed

lemma claim_candidate_None:
  "claim_candidate p bs i k = (None, k') \<Longrightarrow>
   \<forall>b \<in> set bs. \<exists>c. control (all_blocks p ! b) = Some c \<Longrightarrow>
   (\<exists>m. k' = passed_time m k) \<and>
   (\<forall>b \<in> set bs. \<forall>c. control (all_blocks p ! b) = Some c \<longrightarrow>
      (\<exists>n \<le> length bs. \<not> (reusable_at (clock k n) (hdr k c) \<and> reader_state (hdr k c) = 0)))"
proof (induction bs arbitrary: i k)
  case Nil
  then show ?case by (auto intro: exI [of _ 0])
next
  case (Cons b bs)
  then obtain c where c: "control (all_blocks p ! b) = Some c" by auto
  obtain n where n: "n \<le> 1" "try_claim_block (Some b) p k =
      (if reusable_at (clock k 0) (hdr k c) \<and> reader_state (hdr k c) = 0
       then (True, (passed_time n k)\<lparr>hdr := claim_header c (hdr k)\<rparr>) else (False, passed_time n k))"
    using try_claim_block_result [where ?k = k, OF c] by blast
  with Cons.prems(1) have nc: "\<not> (reusable_at (clock k 0) (hdr k c) \<and> reader_state (hdr k c) = 0)"
    and rest: "claim_candidate p bs (Suc i) (passed_time n k) = (None, k')"
    by (auto split: if_splits)
  from Cons.IH [OF rest] Cons.prems(2) obtain m where IH: "k' = passed_time (n + m) k"
      "\<forall>b \<in> set bs. \<forall>c. control (all_blocks p ! b) = Some c \<longrightarrow>
      (\<exists>n' \<le> length bs. \<not> (reusable_at (clock k (n + n')) (hdr k c) \<and> reader_state (hdr k c) = 0))"
    by auto
  have "\<exists>n' \<le> length (b # bs). \<not> (reusable_at (clock k n') (hdr k d) \<and> reader_state (hdr k d) = 0)"
    if "a \<in> set (b # bs)" and "control (all_blocks p ! a) = Some d" for a d
  proof (cases "a = b")
    case True
    with that c nc show ?thesis by (intro exI [of _ 0]) simp
  next
    case False
    with that IH(2) obtain n' where "n' \<le> length bs"
        "\<not> (reusable_at (clock k (n + n')) (hdr k d) \<and> reader_state (hdr k d) = 0)" by auto
    with n(1) show ?thesis by (intro exI [of _ "n + n'"]) simp
  qed
  with IH(1) show ?case by blast
qed

section \<open>Taking a candidate, reserving a block\<close>

lemma take_candidate_frame [simp]:
  "all_blocks (take_candidate sz cs i p) = all_blocks p" "uid_rng (take_candidate sz cs i p) = uid_rng p"
  "broker (take_candidate sz cs i p) = broker p"
  by (simp_all add: take_candidate_def Let_def)

lemma free_ok_candidates:
  assumes "free_ok R p" and "free_blocks p sz = Some cs" and "i \<in> set cs"
  shows "i < length (all_blocks p) \<and> i \<notin> R \<and> block_payload_size (all_blocks p ! i) = sz \<and>
    \<not> in_use (all_blocks p ! i)"
  using assms by (auto simp: free_ok_def)

lemma free_ok_bucket:
  assumes "free_ok R p" and "i \<in> set (bucket p sz)"
  shows "i < length (all_blocks p) \<and> i \<notin> R \<and> block_payload_size (all_blocks p ! i) = sz \<and>
    \<not> in_use (all_blocks p ! i)"
  using assms free_ok_candidates by (cases "free_blocks p sz") (fastforce simp: bucket_def)+

lemma free_ok_listed:
  "free_ok R p \<Longrightarrow> i < length (all_blocks p) \<Longrightarrow> i \<notin> R \<Longrightarrow> \<not> in_use (all_blocks p ! i) \<Longrightarrow>
   \<exists>l. free_blocks p (block_payload_size (all_blocks p ! i)) = Some l \<and> i \<in> set l"
  by (simp add: free_ok_def)

lemma free_ok_take_candidate:
  assumes ok: "free_ok {} p" and cs: "free_blocks p sz = Some cs" and j: "j < length cs"
  shows "free_ok {cs ! j} (take_candidate sz cs j p)"
proof -
  let ?q = "take_candidate sz cs j p"
  have d: "distinct cs" using ok cs by (auto simp: free_ok_def)
  have sr: "distinct (swap_remove j cs)" "set (swap_remove j cs) = set cs - {cs ! j}"
    using distinct_swap_remove [OF d j] by auto
  have fb: "free_blocks ?q s = (if s = sz then if swap_remove j cs = [] then None
      else Some (swap_remove j cs) else free_blocks p s)" for s
    by (simp add: take_candidate_def Let_def)
  have size_j: "block_payload_size (all_blocks p ! (cs ! j)) = sz"
    using free_ok_candidates [OF ok cs] j by simp
  have "l \<noteq> [] \<and> distinct l \<and> (\<forall>i \<in> set l. i < length (all_blocks p) \<and> i \<notin> {cs ! j} \<and>
      block_payload_size (all_blocks p ! i) = s \<and> \<not> in_use (all_blocks p ! i))"
    if "free_blocks ?q s = Some l" for s l
  proof (cases "s = sz")
    case True
    with that have l: "l = swap_remove j cs" "l \<noteq> []" by (auto simp: fb split: if_splits)
    with sr True show ?thesis using free_ok_candidates [OF ok cs] by auto
  next
    case False
    with that have "free_blocks p s = Some l" by (simp add: fb)
    with ok False size_j show ?thesis by (auto simp: free_ok_def)
  qed
  moreover have "\<exists>l. free_blocks ?q (block_payload_size (all_blocks p ! i)) = Some l \<and> i \<in> set l"
    if "i < length (all_blocks p)" "i \<noteq> cs ! j" "\<not> in_use (all_blocks p ! i)" for i
  proof -
    have "\<exists>l. free_blocks p (block_payload_size (all_blocks p ! i)) = Some l \<and> i \<in> set l"
      using free_ok_listed [OF ok] that by blast
    then obtain l where l: "free_blocks p (block_payload_size (all_blocks p ! i)) = Some l" "i \<in> set l"
      by blast
    show ?thesis
    proof (cases "block_payload_size (all_blocks p ! i) = sz")
      case True
      with l cs that(2) sr(2) have "i \<in> set (swap_remove j cs)" by simp
      moreover from this have "swap_remove j cs \<noteq> []" by auto
      ultimately show ?thesis using True by (simp add: fb)
    next
      case False
      with l show ?thesis by (simp add: fb)
    qed
  qed
  ultimately show ?thesis by (simp add: free_ok_def)
qed

lemma update_block_frame [simp]:
  "length (all_blocks (update_block i f p)) = length (all_blocks p)"
  "free_blocks (update_block i f p) = free_blocks p" "broker (update_block i f p) = broker p"
  "uid_rng (update_block i f p) = uid_rng p"
  by (simp_all add: update_block_def)

lemma update_block_nth [simp]:
  "j < length (all_blocks p) \<Longrightarrow>
   all_blocks (update_block i f p) ! j = (if i = j then f (all_blocks p ! j) else all_blocks p ! j)"
  by (auto simp: update_block_def)

lemma draw_uid_frame [simp]:
  "all_blocks (snd (draw_uid p)) = all_blocks p" "free_blocks (snd (draw_uid p)) = free_blocks p"
  "broker (snd (draw_uid p)) = broker p"
  by (simp_all add: draw_uid_def)

definition fresh_uid :: "u64 \<Rightarrow> u64" where
  "fresh_uid uid = (if uid = 0 then 1 else uid)"

lemma fresh_uid_nonzero [simp]: "fresh_uid uid \<noteq> 0"
  by (simp add: fresh_uid_def)

lemma reserve_block_eq:
  assumes "i < length (all_blocks p)" and "control (all_blocks p ! i) = Some c"
  shows "reserve_block i p k =
    (update_block i (\<lambda>b. b\<lparr>in_use := True, current_uid := fresh_uid (uid_rng p 0)\<rparr>) (snd (draw_uid p)),
     k\<lparr>hdr := (hdr k)(c := (hdr k c)\<lparr>ipc_uid := 0, publish_timestamp_us := 0, reader_state := 0\<rparr>)\<rparr>)"
  using assms
  by (simp add: reserve_block_def Let_def draw_uid_def fresh_uid_def update_block_def update_control_def
      release_shared_buffer_reuse_claim_def)

lemma blocks_disjoint_update:
  assumes "\<And>b. control (f b) = control b" "\<And>b. mapping (f b) = mapping b" "\<And>b. mapped_size (f b) = mapped_size b"
  shows "blocks_disjoint (bs[i := f (bs ! i)]) \<longleftrightarrow> blocks_disjoint bs"
proof -
  have "g (bs[i := f (bs ! i)] ! j) = g (bs ! j)" if "\<And>b. g (f b) = g b" for g :: "SharedBufferBlock \<Rightarrow> 'a" and j
    using that by (metis list_update_beyond not_le nth_list_update_eq nth_list_update_neq)
  from this [of control] this [of mapping] this [of mapped_size] assms show ?thesis
    by (simp add: blocks_disjoint_def)
qed

lemma block_ok_update:
  assumes "\<And>b. control (f b) = control b" "\<And>b. mapping (f b) = mapping b" "\<And>b. mapped_size (f b) = mapped_size b"
    "\<And>b. block_payload_size (f b) = block_payload_size b" "\<And>b. native_handle (f b) = native_handle b"
  shows "block_ok k (f b) \<longleftrightarrow> block_ok k b"
  by (simp add: block_ok_def assms split: option.splits)

lemma distinct_controls:
  "blocks_disjoint bs \<Longrightarrow> i < length bs \<Longrightarrow> j < length bs \<Longrightarrow> control (bs ! i) = control (bs ! j) \<Longrightarrow> i = j"
  by (auto simp: blocks_disjoint_def)

lemma reserve_block_inv:
  assumes inv: "pool_inv_except {i} p k" and i: "i < length (all_blocks p)"
    and res: "reserve_block i p k = (p', k')"
  shows "pool_inv p' k' \<and> length (all_blocks p') = length (all_blocks p) \<and> in_use (all_blocks p' ! i) \<and>
    block_payload_size (all_blocks p' ! i) = block_payload_size (all_blocks p ! i) \<and>
    current_uid (all_blocks p' ! i) = fresh_uid (uid_rng p 0) \<and>
    control (all_blocks p' ! i) = control (all_blocks p ! i) \<and>
    (\<exists>c. control (all_blocks p' ! i) = Some c \<and> ipc_uid (hdr k' c) = 0 \<and>
       publish_timestamp_us (hdr k' c) = 0 \<and> reader_state (hdr k' c) = 0 \<and>
       (\<forall>d. d \<noteq> c \<longrightarrow> hdr k' d = hdr k d)) \<and>
    same_layout k k' \<and> (\<forall>j < length (all_blocks p). j \<noteq> i \<longrightarrow> all_blocks p' ! j = all_blocks p ! j)"
proof -
  from inv i have bo: "block_ok k (all_blocks p ! i)" by (simp add: pool_inv_except_def)
  then obtain c where c: "control (all_blocks p ! i) = Some c" by (auto dest: block_ok_control)
  let ?f = "\<lambda>b. b\<lparr>in_use := True, current_uid := fresh_uid (uid_rng p 0)\<rparr>"
  let ?p' = "update_block i ?f (snd (draw_uid p))"
  let ?k' = "k\<lparr>hdr := (hdr k)(c := (hdr k c)\<lparr>ipc_uid := 0, publish_timestamp_us := 0, reader_state := 0\<rparr>)\<rparr>"
  from res reserve_block_eq [OF i c] have p': "p' = ?p'" and k': "k' = ?k'" by auto
  have lay: "same_layout k ?k'" by (auto simp: same_layout_def)
  have ab: "all_blocks ?p' = (all_blocks p)[i := ?f (all_blocks p ! i)]"
    by (simp add: update_block_def)
  have "\<forall>j < length (all_blocks p). block_ok ?k' (all_blocks ?p' ! j)"
    using inv by (simp add: block_ok_same_layout [OF lay] pool_inv_except_def block_ok_update)
  moreover have "blocks_disjoint (all_blocks ?p')"
    unfolding ab using inv by (subst blocks_disjoint_update [of ?f]) (simp_all add: pool_inv_except_def)
  moreover have "free_ok {} ?p'"
    using inv i by (auto simp: pool_inv_except_def free_ok_def)
  moreover have "block_lock ?k' (all_blocks ?p' ! j) \<noteq> Claimed" if j: "j < length (all_blocks p)" for j
  proof (cases "j = i")
    case True
    then show ?thesis using c i by (simp add: block_lock_def reader_lock_of_def)
  next
    case False
    then have "control (all_blocks p ! j) \<noteq> Some c"
      using distinct_controls [of "all_blocks p" j i] inv i j c by (auto simp: pool_inv_except_def)
    moreover have "block_lock k (all_blocks p ! j) \<noteq> Claimed"
      using inv j False by (simp add: pool_inv_except_def)
    ultimately show ?thesis using False j by (auto simp: block_lock_def split: option.splits)
  qed
  ultimately have "pool_inv ?p' ?k'" by (simp add: pool_inv_def pool_inv_except_def)
  then show ?thesis unfolding p' k' using lay i c by simp
qed

section \<open>Creating a block, allocating\<close>

lemma mapped_size_no_overflow:
  fixes sz :: u64
  assumes "\<not> sz > - 1 - kSharedBufferPayloadOffset"
  shows "unat (kSharedBufferPayloadOffset + sz) = 64 + unat sz"
proof -
  have "unat (- 1 - kSharedBufferPayloadOffset) = 2 ^ 64 - 1 - 64"
    by (simp add: kSharedBufferPayloadOffset_def unat_sub_if' unsigned_minus_1_eq_mask mask_eq_exp_minus_1)
  with assms have "unat sz \<le> 2 ^ 64 - 1 - 64" by (simp add: word_le_nat_alt not_less)
  then show ?thesis by (simp add: kSharedBufferPayloadOffset_def unat_word_ariths)
qed

lemma draw_uid_eq: "draw_uid p = (uid_rng p 0, p\<lparr>uid_rng := (\<lambda>n. uid_rng p (Suc n))\<rparr>)"
  by (simp add: draw_uid_def)

lemma blocks_disjoint_snoc:
  "blocks_disjoint bs \<Longrightarrow>
   (\<And>b. b \<in> set bs \<Longrightarrow> control b \<noteq> control x \<and>
      ranges_disjoint (mapping x) (mapped_size x) (mapping b) (mapped_size b)) \<Longrightarrow>
   blocks_disjoint (bs @ [x])"
  by (fastforce simp: blocks_disjoint_def nth_append ranges_disjoint_def less_Suc_eq in_set_conv_nth)

lemma free_ok_snoc:
  "free_ok {} p \<Longrightarrow> all_blocks p' = all_blocks p @ [x] \<Longrightarrow> free_blocks p' = free_blocks p \<Longrightarrow>
   free_ok {length (all_blocks p)} p'"
  by (fastforce simp: free_ok_def nth_append less_Suc_eq)

lemma block_lock_kept:
  "block_ok k b \<Longrightarrow> objects_kept k k' \<Longrightarrow> block_lock k' b = block_lock k b"
  by (auto simp: block_lock_def block_ok_def objects_kept_def split: option.splits)

lemma pool_inv_layout:
  assumes "pool_inv_except R p k" and "same_layout k k'"
    and "\<forall>i < length (all_blocks p). i \<notin> R \<longrightarrow> block_lock k' (all_blocks p ! i) = block_lock k (all_blocks p ! i)"
  shows "pool_inv_except R p k'"
  using assms block_ok_same_layout [OF assms(2)] by (simp add: pool_inv_except_def)

lemma pool_inv_passed_time: "pool_inv p k \<Longrightarrow> pool_inv p (passed_time m k)"
  unfolding pool_inv_def by (erule pool_inv_layout) (auto simp: block_lock_def split: option.splits)

lemma pool_inv_block: "pool_inv p k \<Longrightarrow> i < length (all_blocks p) \<Longrightarrow> block_ok k (all_blocks p ! i)"
  by (simp add: pool_inv_def pool_inv_except_def)

lemma claim_inv:
  assumes inv: "pool_inv p k" and cs: "free_blocks p sz = Some cs" and j: "j < length cs"
    and c: "control (all_blocks p ! (cs ! j)) = Some c"
  shows "pool_inv_except {cs ! j} (take_candidate sz cs j p) ((passed_time m k)\<lparr>hdr := claim_header c (hdr k)\<rparr>)"
proof -
  let ?k = "(passed_time m k)\<lparr>hdr := claim_header c (hdr k)\<rparr>" and ?p = "take_candidate sz cs j p"
  have lay: "same_layout k ?k" by (rule same_layout_claim) simp_all
  have fo: "free_ok {} p" using inv by (simp add: pool_inv_def pool_inv_except_def)
  have cj: "cs ! j < length (all_blocks p)" using free_ok_candidates [OF fo cs] j by simp
  have "free_ok {cs ! j} ?p" using fo cs j by (rule free_ok_take_candidate)
  moreover have "block_lock ?k (all_blocks p ! i) \<noteq> Claimed" if "i < length (all_blocks p)" "i \<noteq> cs ! j" for i
  proof -
    have "control (all_blocks p ! i) \<noteq> Some c"
      using distinct_controls [of "all_blocks p" i "cs ! j"] inv that cj c
      by (auto simp: pool_inv_def pool_inv_except_def)
    then have "block_lock ?k (all_blocks p ! i) = block_lock k (all_blocks p ! i)"
      by (auto simp: block_lock_def claim_header_def split: option.splits)
    with inv that show ?thesis by (simp add: pool_inv_def pool_inv_except_def)
  qed
  ultimately show ?thesis
    using inv block_ok_same_layout [OF lay] by (simp add: pool_inv_def pool_inv_except_def)
qed

lemma allocate_claimed:
  "sz \<noteq> 0 \<Longrightarrow> claim_candidate p (bucket p sz) 0 k = (Some j, k1) \<Longrightarrow>
   reserve_block (bucket p sz ! j) (take_candidate sz (bucket p sz) j p) k1 = (p2, k2) \<Longrightarrow>
   allocate create sz p k = (Inr (bucket p sz ! j), p2, k2)"
  by (simp add: allocate_def)

lemma allocate_not_created:
  "sz \<noteq> 0 \<Longrightarrow> claim_candidate p (bucket p sz) 0 k = (None, k1) \<Longrightarrow>
   create_block create sz p k1 = (Inl e, p1, k2) \<Longrightarrow>
   allocate create sz p k = (Inl e, p1, k2)"
  by (simp add: allocate_def)

lemma allocate_created:
  "sz \<noteq> 0 \<Longrightarrow> claim_candidate p (bucket p sz) 0 k = (None, k1) \<Longrightarrow>
   create_block create sz p k1 = (Inr i, p1, k2) \<Longrightarrow> reserve_block i p1 k2 = (p2, k3) \<Longrightarrow>
   allocate create sz p k = (Inr i, p2, k3)"
  by (simp add: allocate_def)

lemma allocate_zero: "allocate create 0 p k =
    (Inl (Invalid_argument ''shared buffer pool cannot allocate a zero-size block''), p, k)"
  by (simp add: allocate_def)

lemmas allocate_cases = allocate_claimed allocate_not_created allocate_created allocate_zero

context platform
begin

lemma create_block_failure:
  assumes inv: "pool_inv p k" and good: "good k (kSharedBufferPayloadOffset + sz)"
    and cb: "create_block create sz p k = (Inl e, p', k')"
  shows "pool_inv p' k' \<and> all_blocks p' = all_blocks p \<and> free_blocks p' = free_blocks p \<and>
    vm k' = vm k \<and> fds k' = fds k \<and> objects_kept k k'"
proof -
  have p': "all_blocks p' = all_blocks p" "free_blocks p' = free_blocks p"
    using cb by (auto simp: create_block_def Let_def draw_uid_eq split: if_splits prod.splits sum.splits)
  have "k' = k \<or> create (kSharedBufferPayloadOffset + sz) (next_block_id p) (uid_rng p 0) k = (Inl e, k')"
    using cb by (auto simp: create_block_def Let_def draw_uid_eq split: if_splits prod.splits sum.splits)
  then have k': "objects_kept k k' \<and> vm k' = vm k \<and> fds k' = fds k"
    using create_kept create_failure good by fastforce
  have "block_ok k' b \<and> block_lock k' b = block_lock k b" if "block_ok k b" for b
    using k' block_ok_kept [OF that, of k'] block_lock_kept [OF that, of k'] by simp
  moreover have "free_ok {} p' \<longleftrightarrow> free_ok {} p" by (simp add: free_ok_def p')
  ultimately show ?thesis using inv k' p' by (simp add: pool_inv_def pool_inv_except_def)
qed

lemma create_block_success:
  assumes inv: "pool_inv p k" and good: "good k (kSharedBufferPayloadOffset + sz)" and sz: "0 < sz"
    and cb: "create_block create sz p k = (Inr i, p', k')"
  shows "i = length (all_blocks p) \<and>
    (\<exists>b. all_blocks p' = all_blocks p @ [b] \<and> block_payload_size b = sz \<and> block_id b = next_block_id p \<and>
       control b = Some (next_oid k)) \<and>
    free_blocks p' = free_blocks p \<and> next_block_id p' = next_block_id p + 1 \<and> objects_kept k k' \<and>
    pool_inv_except {i} p' k'"
proof -
  let ?n = "next_oid k" and ?ms = "kSharedBufferPayloadOffset + sz"
  from cb obtain pm k1 where cr: "create ?ms (next_block_id p) (uid_rng p 0) k = (Inr pm, k1)"
    and nov: "\<not> sz > - 1 - kSharedBufferPayloadOffset"
    by (auto simp: create_block_def Let_def draw_uid_eq split: if_splits prod.splits sum.splits)
  note c = create_success [OF cr good] and kept = create_kept [OF cr]
  let ?h = "default_control_header\<lparr>payload_size := sz, ipc_uid := 0, reader_state := 0, publish_timestamp_us := 0\<rparr>"
  let ?b = "\<lparr>native_handle = pm_native_handle pm, mapping = pm_mapping pm, mapped_size = ?ms,
    block_payload_size = sz, block_id = next_block_id p, control = Some ?n, current_uid = 0,
    socket_path = pm_ipc_name pm, in_use = False\<rparr>"
  from cb cr nov c have p': "all_blocks p' = all_blocks p @ [?b]" "free_blocks p' = free_blocks p"
      "i = length (all_blocks p)" "next_block_id p' = next_block_id p + 1"
    and k': "k' = k1\<lparr>hdr := (hdr k1)(?n := ?h)\<rparr>"
    by (auto simp: create_block_def Let_def draw_uid_eq update_control_def)
  have kk: "objects_kept k k'" using kept by (auto simp: objects_kept_def k')
  have old: "block_ok k' b \<and> control b \<noteq> Some ?n \<and> mapping b \<noteq> pm_mapping pm" if "b \<in> set (all_blocks p)" for b
  proof -
    have bo: "block_ok k b" using inv that by (auto simp: pool_inv_def pool_inv_except_def in_set_conv_nth)
    then obtain d where d: "control b = Some d" "d < ?n" "vm k (mapping b) = Some d"
      by (blast dest: block_ok_control)
    with c have ne: "mapping b \<noteq> pm_mapping pm" by (auto simp: range_free_def)
    with c have "vm k' (mapping b) = vm k (mapping b)" by (simp add: k')
    with bo kk d ne show ?thesis by (auto intro: block_ok_kept)
  qed
  have new: "block_ok k' ?b"
    using c sz nov mapped_size_no_overflow [OF nov]
    by (simp add: block_ok_def k' default_control_header_def range_free_def kSharedBufferPayloadOffset_def)
  have rng: "ranges_disjoint (pm_mapping pm) ?ms (mapping b) (mapped_size b)" if "b \<in> set (all_blocks p)" for b
  proof -
    have "block_ok k b" using inv that by (auto simp: pool_inv_def pool_inv_except_def in_set_conv_nth)
    then obtain d where "vm k (mapping b) = Some d" "osize k d = mapped_size b"
      by (auto simp: block_ok_def split: option.splits)
    moreover from c have "\<forall>a d. vm k a = Some d \<longrightarrow> ranges_disjoint (pm_mapping pm) ?ms a (osize k d)"
      by (simp add: range_free_def)
    ultimately show ?thesis by metis
  qed
  have "blocks_disjoint (all_blocks p')"
    unfolding p' using inv old rng
    by (intro blocks_disjoint_snoc) (auto simp: pool_inv_def pool_inv_except_def)
  moreover have "free_ok {i} p'"
    using inv free_ok_snoc [of p p' ?b] p' by (simp add: pool_inv_def pool_inv_except_def)
  moreover have "block_ok k' (all_blocks p' ! j)" if "j < length (all_blocks p')" for j
    using that new old by (auto simp: p' nth_append less_Suc_eq)
  moreover have "block_lock k' (all_blocks p' ! j) \<noteq> Claimed" if "j < length (all_blocks p')" "j \<notin> {i}" for j
    using that inv block_lock_kept [OF _ kk]
    by (auto simp: p' nth_append less_Suc_eq pool_inv_def pool_inv_except_def)
  ultimately show ?thesis using p' kk by (simp add: pool_inv_except_def)
qed

lemma allocate_success:
  assumes inv: "pool_inv p k" and good: "good k (kSharedBufferPayloadOffset + sz)"
    and al: "allocate create sz p k = (Inr i, p', k')"
  shows "pool_inv p' k' \<and> i < length (all_blocks p') \<and> in_use (all_blocks p' ! i) \<and>
    block_payload_size (all_blocks p' ! i) = sz \<and> current_uid (all_blocks p' ! i) \<noteq> 0 \<and>
    next_oid k \<le> next_oid k' \<and>
    (\<forall>d < next_oid k. pay k' d = pay k d \<and> (control (all_blocks p' ! i) \<noteq> Some d \<longrightarrow> hdr k' d = hdr k d)) \<and>
    (\<exists>c. control (all_blocks p' ! i) = Some c \<and> ipc_uid (hdr k' c) = 0 \<and>
       publish_timestamp_us (hdr k' c) = 0 \<and> reader_state (hdr k' c) = 0) \<and>
    (\<forall>j < length (all_blocks p). j \<noteq> i \<longrightarrow> all_blocks p' ! j = all_blocks p ! j) \<and>
    (i = length (all_blocks p) \<and> length (all_blocks p') = Suc i \<and>
       (\<forall>b \<in> set (bucket p sz).
          \<forall>c. control (all_blocks p ! b) = Some c \<longrightarrow>
            (\<exists>n. \<not> (reusable_at (clock k n) (hdr k c) \<and> reader_state (hdr k c) = 0))) \<or>
     i < length (all_blocks p) \<and> length (all_blocks p') = length (all_blocks p) \<and>
       \<not> in_use (all_blocks p ! i) \<and>
       (\<exists>c n. control (all_blocks p ! i) = Some c \<and> reader_state (hdr k c) = 0 \<and>
          reusable_at (clock k n) (hdr k c)))"
proof -
  define cs where "cs = bucket p sz"
  have fo: "free_ok {} p" using inv by (simp add: pool_inv_def pool_inv_except_def)
  have sz: "0 < sz" using al by (auto simp: allocate_def word_gt_0 split: if_splits)
  have csb: "b < length (all_blocks p) \<and> block_payload_size (all_blocks p ! b) = sz \<and> \<not> in_use (all_blocks p ! b)"
    if "b \<in> set cs" for b
    using that free_ok_bucket [OF fo] by (simp add: cs_def)
  then have ctl: "\<forall>b \<in> set cs. \<exists>c. control (all_blocks p ! b) = Some c"
    using pool_inv_block [OF inv] block_ok_control by blast
  obtain found k1 where cl: "claim_candidate p cs 0 k = (found, k1)" by (cases "claim_candidate p cs 0 k")
  show ?thesis
  proof (cases found)
    case (Some j)
    from claim_candidate_Some [OF cl [unfolded Some] ctl] obtain c n m where j: "j < length cs"
        and c: "control (all_blocks p ! (cs ! j)) = Some c" "reader_state (hdr k c) = 0"
          "reusable_at (clock k n) (hdr k c)"
        and k1: "k1 = (passed_time m k)\<lparr>hdr := claim_header c (hdr k)\<rparr>"
      by auto
    then have cs: "free_blocks p sz = Some cs" by (auto simp: cs_def bucket_def split: option.splits)
    let ?p1 = "take_candidate sz cs j p"
    obtain p2 k2 where rb: "reserve_block (cs ! j) ?p1 k1 = (p2, k2)" by (cases "reserve_block (cs ! j) ?p1 k1")
    from al allocate_claimed [OF _ cl [unfolded Some cs_def], of p2 k2 create] rb sz
    have i: "i = cs ! j" and res: "reserve_block i ?p1 k1 = (p', k')" by (auto simp: cs_def)
    have inv1: "pool_inv_except {i} ?p1 k1" unfolding i k1 using inv cs j c(1) by (rule claim_inv)
    have ib: "i < length (all_blocks p)" "block_payload_size (all_blocks p ! i) = sz"
        "\<not> in_use (all_blocks p ! i)" using csb [of i] j i by auto
    note rs = reserve_block_inv [OF inv1 _ res]
    have "control (all_blocks p' ! i) = Some c" using rs ib c i by simp
    moreover have "next_oid k1 = next_oid k" "pay k1 = pay k" "\<forall>d. d \<noteq> c \<longrightarrow> hdr k1 d = hdr k d"
      by (simp_all add: k1 passed_time_def claim_header_def)
    ultimately have "next_oid k \<le> next_oid k' \<and>
        (\<forall>d < next_oid k. pay k' d = pay k d \<and> (control (all_blocks p' ! i) \<noteq> Some d \<longrightarrow> hdr k' d = hdr k d))"
      using rs ib by (auto simp: same_layout_def)
    with rs ib c i show ?thesis by auto
  next
    case None
    from claim_candidate_None [OF cl [unfolded None] ctl] obtain m where k1: "k1 = passed_time m k"
        and busy: "\<forall>b \<in> set cs. \<forall>c. control (all_blocks p ! b) = Some c \<longrightarrow>
          (\<exists>n. \<not> (reusable_at (clock k n) (hdr k c) \<and> reader_state (hdr k c) = 0))"
      by blast
    have inv1: "pool_inv p k1" unfolding k1 by (rule pool_inv_passed_time [OF inv])
    have good1: "good k1 (kSharedBufferPayloadOffset + sz)"
      unfolding k1 by (rule good_layout [OF _ good]) simp
    note cl' = cl [unfolded None cs_def]
    obtain r p1 k2 where cb1: "create_block create sz p k1 = (r, p1, k2)" by (cases "create_block create sz p k1")
    with al allocate_not_created [OF _ cl'] sz obtain i' where "r = Inr i'" by (cases r) fastforce+
    with cb1 have cb2: "create_block create sz p k1 = (Inr i', p1, k2)" by simp
    obtain p2 k3 where rb: "reserve_block i' p1 k2 = (p2, k3)" by (cases "reserve_block i' p1 k2")
    from al allocate_created [OF _ cl' cb2 rb] sz
    have cb: "create_block create sz p k1 = (Inr i, p1, k2)" and res: "reserve_block i p1 k2 = (p', k')"
      using cb2 rb by auto
    from create_block_success [OF inv1 good1 sz cb] obtain b where
      b: "i = length (all_blocks p)" "all_blocks p1 = all_blocks p @ [b]" "block_payload_size b = sz"
        "pool_inv_except {i} p1 k2" "control b = Some (next_oid k1)" "objects_kept k1 k2" by blast
    note rs = reserve_block_inv [OF b(4) _ res]
    have "next_oid k1 = next_oid k" "pay k1 = pay k" "hdr k1 = hdr k" by (simp_all add: k1 passed_time_def)
    then have "next_oid k \<le> next_oid k' \<and>
        (\<forall>d < next_oid k. pay k' d = pay k d \<and> (control (all_blocks p' ! i) \<noteq> Some d \<longrightarrow> hdr k' d = hdr k d))"
      using rs b by (auto simp: same_layout_def objects_kept_def nth_append)
    with rs b busy cs_def show ?thesis by (auto simp: nth_append)
  qed
qed

lemma allocate_failure:
  assumes inv: "pool_inv p k" and good: "good k (kSharedBufferPayloadOffset + sz)"
    and al: "allocate create sz p k = (Inl e, p', k')"
  shows "pool_inv p' k' \<and> all_blocks p' = all_blocks p \<and> free_blocks p' = free_blocks p \<and>
    vm k' = vm k \<and> fds k' = fds k \<and> objects_kept k k'"
proof (cases "sz = 0")
  case True
  with al inv show ?thesis by (simp add: allocate_def)
next
  case False
  define cs where "cs = bucket p sz"
  have fo: "free_ok {} p" using inv by (simp add: pool_inv_def pool_inv_except_def)
  have ctl: "\<forall>b \<in> set cs. \<exists>c. control (all_blocks p ! b) = Some c"
  proof
    fix b assume "b \<in> set cs"
    then have "block_ok k (all_blocks p ! b)"
      using free_ok_bucket [OF fo, of b sz] pool_inv_block [OF inv] by (simp add: cs_def)
    then show "\<exists>c. control (all_blocks p ! b) = Some c" by (blast dest: block_ok_control)
  qed
  obtain found k1 where cl: "claim_candidate p cs 0 k = (found, k1)" by (cases "claim_candidate p cs 0 k")
  have none: "found = None"
  proof (cases found)
    case (Some j)
    show ?thesis
      using al allocate_claimed [OF False cl [unfolded Some cs_def] surjective_pairing] by simp
  qed
  from claim_candidate_None [OF cl [unfolded none] ctl] obtain m where k1: "k1 = passed_time m k" by blast
  note cl' = cl [unfolded none cs_def]
  obtain r p1 k2 where cb: "create_block create sz p k1 = (r, p1, k2)" by (cases "create_block create sz p k1")
  have "create_block create sz p k1 = (Inl e, p', k')"
  proof (cases r)
    case (Inl e')
    with al allocate_not_created [OF False cl' cb [unfolded Inl]] cb show ?thesis by simp
  next
    case (Inr i)
    show ?thesis using al allocate_created [OF False cl' cb [unfolded Inr] surjective_pairing] by simp
  qed
  moreover have "pool_inv p k1" unfolding k1 by (rule pool_inv_passed_time [OF inv])
  moreover have "good k1 (kSharedBufferPayloadOffset + sz)"
    unfolding k1 by (rule good_layout [OF _ good]) simp
  ultimately have "pool_inv p' k' \<and> all_blocks p' = all_blocks p \<and> free_blocks p' = free_blocks p \<and>
      vm k' = vm k1 \<and> fds k' = fds k1 \<and> objects_kept k1 k'" using create_block_failure by metis
  then show ?thesis by (simp add: k1 passed_time_def objects_kept_def)
qed

end

section \<open>Bookkeeping changes\<close>

lemma free_okI:
  assumes "\<And>sz l. free_blocks p sz = Some l \<Longrightarrow> l \<noteq> [] \<and> distinct l \<and>
      (\<forall>i \<in> set l. i < length (all_blocks p) \<and> i \<notin> R \<and>
         block_payload_size (all_blocks p ! i) = sz \<and> \<not> in_use (all_blocks p ! i))"
    and "\<And>i. i < length (all_blocks p) \<Longrightarrow> i \<notin> R \<Longrightarrow> \<not> in_use (all_blocks p ! i) \<Longrightarrow>
      \<exists>l. free_blocks p (block_payload_size (all_blocks p ! i)) = Some l \<and> i \<in> set l"
  shows "free_ok R p"
  using assms by (simp add: free_ok_def)

text \<open>A change to fields of a block that neither the kernel nor the free lists know about.\<close>

lemma pool_inv_update_block:
  assumes inv: "pool_inv p k" and ab: "all_blocks p' = (all_blocks p)[i := f (all_blocks p ! i)]"
    and fb: "free_blocks p' = free_blocks p" and mem: "memory_kept k k'"
    and f: "\<And>b. control (f b) = control b \<and> mapping (f b) = mapping b \<and> mapped_size (f b) = mapped_size b \<and>
      native_handle (f b) = native_handle b \<and> block_payload_size (f b) = block_payload_size b \<and> in_use (f b) = in_use b"
  shows "pool_inv p' k'"
proof -
  have nth: "all_blocks p' ! j = (if j = i then f (all_blocks p ! j) else all_blocks p ! j)"
    if "j < length (all_blocks p)" for j
    using that by (auto simp: ab)
  have len: "length (all_blocks p') = length (all_blocks p)" by (simp add: ab)
  have "block_ok k' (f b) = block_ok k b" "block_lock k' (f b) = block_lock k b"
      "block_ok k' b = block_ok k b" "block_lock k' b = block_lock k b" for b
    using mem f by (simp_all add: block_ok_def block_lock_def memory_kept_def split: option.splits)
  then have "block_ok k' (all_blocks p' ! j) \<and> block_lock k' (all_blocks p' ! j) \<noteq> Claimed"
    if "j < length (all_blocks p)" for j
    using inv that by (simp add: nth pool_inv_def pool_inv_except_def)
  moreover have "blocks_disjoint (all_blocks p')"
    unfolding ab using inv f by (subst blocks_disjoint_update) (simp_all add: pool_inv_def pool_inv_except_def)
  moreover have "free_ok {} p'"
  proof -
    have "block_payload_size (all_blocks p' ! j) = block_payload_size (all_blocks p ! j)"
        "in_use (all_blocks p' ! j) = in_use (all_blocks p ! j)" if "j < length (all_blocks p)" for j
      using that f by (simp_all add: nth)
    moreover have fo: "free_ok {} p" using inv by (simp add: pool_inv_def pool_inv_except_def)
    ultimately show ?thesis
      using free_ok_listed [OF fo] free_ok_candidates [OF fo] fo
      by (intro free_okI) (auto simp: fb len free_ok_def)
  qed
  ultimately show ?thesis using len by (simp add: pool_inv_def pool_inv_except_def)
qed

end
