(* ===== verification/Broker.thy ===== *)
theory Broker
  imports Pool_Correct "HOL-Library.AList"
begin

text \<open>
  The publisher-side broker, \<^verbatim>\<open>SharedBufferFdBroker\<close>.  On Linux
  (\<^verbatim>\<open>shared_buffer_platform_linux.cpp\<close>) a registered block gets a Unix-domain server socket, and
  a dispatcher thread sends a duplicate of the block's memfd to every client that connects; on
  Windows the name of the file mapping is all a subscriber needs.

  The dispatcher's hash maps are association lists.  \<open>served\<close> is what a subscriber that connects
  to a path receives: it runs the dispatcher's event handler.  The contract the pool relies on
  is the locale \<open>broker_contract\<close>.
\<close>

section \<open>Server sockets\<close>

record linux_broker_env =
  euid :: nat
  getpid :: nat
  server_result :: int
  bind_ok :: bool
  listen_ok :: bool
  chmod_ok :: bool
  dup_result :: int
  epoll_add_ok :: bool
  broker_errno_text :: string

text \<open>\<^verbatim>\<open>strncpy\<close> into a zeroed \<^verbatim>\<open>sun_path\<close>, leaving the final NUL.\<close>

definition unix_address :: "string \<Rightarrow> string" where
  "unix_address path = take (sun_path_size - 1) path"

definition sys_unlink :: "string \<Rightarrow> kernel \<Rightarrow> kernel" where
  "sys_unlink path k = k\<lparr>socket_files := (socket_files k)(path := None)\<rparr>"

definition sys_open_socket :: "int \<Rightarrow> kernel \<Rightarrow> kernel" where
  "sys_open_socket s k = k\<lparr>fds := (fds k)(s \<mapsto> Socket_fd)\<rparr>"

definition create_fd_server_socket :: "linux_broker_env \<Rightarrow> string \<Rightarrow> kernel \<Rightarrow> int \<times> kernel" where
  "create_fd_server_socket env path k =
     (if path = [] \<or> length path \<ge> sun_path_size then (- 1, k)
      else
        (let socket = server_result env in
         if socket < 0 then (- 1, k)
         else
           (let k1 = sys_unlink path (sys_open_socket socket k);
                k2 = (if bind_ok env
                      then k1\<lparr>socket_files := (socket_files k1)(unix_address path \<mapsto> socket)\<rparr> else k1)
            in if \<not> bind_ok env \<or> \<not> listen_ok env \<or> \<not> chmod_ok env
               then (- 1, sys_unlink path (sys_close socket k2))
               else (socket, k2))))"

section \<open>The dispatcher\<close>

record FDDispatcher =
  epoll_fd :: int
  event_fd :: int
  sockets :: "(int \<times> int) list"
  running :: bool

record dispatcher_env =
  epoll_result :: int
  event_result :: int
  event_add_ok :: bool

definition new_dispatcher :: "dispatcher_env \<Rightarrow> kernel \<Rightarrow> FDDispatcher \<times> kernel" where
  "new_dispatcher env k =
     (let d = \<lparr>epoll_fd = - 1, event_fd = - 1, sockets = [], running = False\<rparr>;
          ep = epoll_result env; ev = event_result env in
      if ep < 0 then (d\<lparr>epoll_fd := ep\<rparr>, k)
      else
        (let k1 = k\<lparr>fds := (fds k)(ep \<mapsto> Event_fd)\<rparr> in
         if ev < 0 then (d\<lparr>event_fd := ev\<rparr>, sys_close ep k1)
         else
           (let k2 = k1\<lparr>fds := (fds k1)(ev \<mapsto> Event_fd)\<rparr> in
            if \<not> event_add_ok env then (d, sys_close ep (sys_close ev k2))
            else (d\<lparr>epoll_fd := ep, event_fd := ev, running := True\<rparr>, k2))))"

text \<open>\<^verbatim>\<open>dup\<close> of an open descriptor: the new one refers to the same thing.\<close>

definition sys_dup :: "linux_broker_env \<Rightarrow> int \<Rightarrow> kernel \<Rightarrow> int \<times> kernel" where
  "sys_dup env fd k =
     (case fds k fd of
        None \<Rightarrow> (- 1, k)
      | Some e \<Rightarrow>
          (if dup_result env < 0 then (- 1, k)
           else (dup_result env,
                 case e of Memory c \<Rightarrow> sys_open_object (dup_result env) c k
                         | _ \<Rightarrow> k\<lparr>fds := (fds k)(dup_result env \<mapsto> e)\<rparr>)))"

definition add_socket ::
  "linux_broker_env \<Rightarrow> int \<Rightarrow> int \<Rightarrow> FDDispatcher \<Rightarrow> kernel \<Rightarrow> bool \<times> FDDispatcher \<times> kernel" where
  "add_socket env server_socket fd_to_serve d k =
     (if \<not> running d then (False, d, k)
      else
        (let (duplicated, k1) = sys_dup env fd_to_serve k in
         if duplicated < 0 then (False, d, k1)
         else
           (let d1 = d\<lparr>sockets := AList.update server_socket duplicated (sockets d)\<rparr> in
            if \<not> epoll_add_ok env
            then (False, d1\<lparr>sockets := AList.delete server_socket (sockets d1)\<rparr>, sys_close duplicated k1)
            else (True, d1, k1))))"

definition remove_socket :: "int \<Rightarrow> FDDispatcher \<Rightarrow> kernel \<Rightarrow> FDDispatcher \<times> kernel" where
  "remove_socket server_socket d k =
     (let descriptor = (case map_of (sockets d) server_socket of None \<Rightarrow> - 1 | Some f \<Rightarrow> f);
          k1 = sys_close server_socket k
      in (d\<lparr>sockets := AList.delete server_socket (sockets d)\<rparr>,
          if descriptor \<ge> 0 then sys_close descriptor k1 else k1))"

fun close_all :: "(int \<times> int) list \<Rightarrow> kernel \<Rightarrow> kernel" where
  "close_all [] k = k"
| "close_all ((s, f) # rest) k = close_all rest (sys_close f (sys_close s k))"

definition stop_dispatcher :: "FDDispatcher \<Rightarrow> kernel \<Rightarrow> FDDispatcher \<times> kernel" where
  "stop_dispatcher d k =
     (if \<not> running d then (d, k)
      else
        (let k1 = close_all (sockets d) k;
             k2 = (if event_fd d \<ge> 0 then sys_close (event_fd d) k1 else k1);
             k3 = (if epoll_fd d \<ge> 0 then sys_close (epoll_fd d) k2 else k2)
         in (d\<lparr>running := False, sockets := [],
               event_fd := (if event_fd d \<ge> 0 then - 1 else event_fd d),
               epoll_fd := (if epoll_fd d \<ge> 0 then - 1 else epoll_fd d)\<rparr>, k3)))"

text \<open>\<^verbatim>\<open>sendmsg\<close> with \<^verbatim>\<open>SCM_RIGHTS\<close>: the client receives what the descriptor refers to now.\<close>

definition send_fd :: "int \<Rightarrow> kernel \<Rightarrow> fd_entry option" where
  "send_fd fd_to_send k = fds k fd_to_send"

definition fd_to_serve_for :: "FDDispatcher \<Rightarrow> int \<Rightarrow> int" where
  "fd_to_serve_for d socket = (case map_of (sockets d) socket of None \<Rightarrow> - 1 | Some f \<Rightarrow> f)"

text \<open>
  The body of the event loop for one event: the socket that is readable, and what \<^verbatim>\<open>accept4\<close>
  returns.  The result is what was sent to which socket's client.
\<close>

definition handle_event ::
  "FDDispatcher \<Rightarrow> int \<times> int \<Rightarrow> kernel \<Rightarrow> (int \<times> fd_entry option) list \<times> kernel" where
  "handle_event d ev k =
     (let (socket, client) = ev in
      if socket = event_fd d then ([], k)
      else
        (let fd_to_serve = fd_to_serve_for d socket in
         if fd_to_serve < 0 then ([], k)
         else if client \<ge> 0
         then (let k1 = sys_open_socket client k
               in ([(socket, send_fd fd_to_serve k1)], sys_close client k1))
         else ([], k)))"

datatype epoll_outcome = Interrupted | Wait_failed | Ready "(int \<times> int) list"

fun handle_events ::
  "FDDispatcher \<Rightarrow> (int \<times> int) list \<Rightarrow> kernel \<Rightarrow> (int \<times> fd_entry option) list \<times> kernel" where
  "handle_events d [] k = ([], k)"
| "handle_events d (ev # evs) k =
     (let (sent, k1) = handle_event d ev k; (sent', k2) = handle_events d evs k1 in (sent @ sent', k2))"

text \<open>
  The loop \<^verbatim>\<open>run\<close>: per iteration the value of \<^verbatim>\<open>running_\<close> it reads and the outcome of
  \<^verbatim>\<open>epoll_wait\<close>.  The flag of the result is whether the loop has ended.
\<close>

fun run_dispatcher ::
  "FDDispatcher \<Rightarrow> (bool \<times> epoll_outcome) list \<Rightarrow> kernel \<Rightarrow> bool \<times> (int \<times> fd_entry option) list \<times> kernel" where
  "run_dispatcher d [] k = (False, [], k)"
| "run_dispatcher d ((flag, outcome) # rest) k =
     (if \<not> flag then (True, [], k)
      else case outcome of
        Interrupted \<Rightarrow> run_dispatcher d rest k
      | Wait_failed \<Rightarrow> (True, [], k)
      | Ready evs \<Rightarrow>
          (let (sent, k1) = handle_events d evs k; (ended, sent', k2) = run_dispatcher d rest k1
           in (ended, sent @ sent', k2)))"

section \<open>The Linux broker\<close>

record RegisteredBlock =
  server_socket :: int
  registered_path :: string

record linux_broker =
  dispatcher :: "FDDispatcher option"
  registered_blocks :: "(u32 \<times> RegisteredBlock) list"

definition broker_path :: "linux_broker_env \<Rightarrow> u32 \<Rightarrow> int \<Rightarrow> string" where
  "broker_path env blk handle =
     ''/tmp/shared_buffer_'' @ to_string (euid env) @ ''_'' @ to_string (getpid env) @ ''_'' @
     to_string (unat blk) @ ''_'' @ int_to_string handle @ ''.sock''"

definition linux_register_block :: "linux_broker_env \<Rightarrow> linux_broker register_block" where
  "linux_register_block env block br k =
     (case dispatcher br of
        None \<Rightarrow> (Inr '''', block, br, k)
      | Some d \<Rightarrow>
          (if native_handle block < 0 then (Inr '''', block, br, k)
           else case map_of (registered_blocks br) (block_id block) of
             Some r \<Rightarrow> (Inr (registered_path r), block, br, k)
           | None \<Rightarrow>
               (let path = broker_path env (block_id block) (native_handle block);
                    (server, k1) = create_fd_server_socket env path k;
                    (ok, d1, k2) =
                      (if server < 0 then (False, d, k1) else add_socket env server (native_handle block) d k1)
                in if server < 0 \<or> \<not> ok
                   then (Inl (Runtime_error (''failed to create shared-memory FD broker socket: '' @ broker_errno_text env)),
                         block, br\<lparr>dispatcher := Some d1\<rparr>,
                         sys_unlink path (if server \<ge> 0 then sys_close server k2 else k2))
                   else (Inr path, block\<lparr>socket_path := path\<rparr>,
                         br\<lparr>dispatcher := Some d1, registered_blocks := registered_blocks br @
                             [(block_id block, \<lparr>server_socket = server, registered_path = path\<rparr>)]\<rparr>,
                         k2))))"

definition new_linux_broker :: "dispatcher_env \<Rightarrow> kernel \<Rightarrow> linux_broker \<times> kernel" where
  "new_linux_broker env k =
     (let (d, k1) = new_dispatcher env k in (\<lparr>dispatcher = Some d, registered_blocks = []\<rparr>, k1))"

fun unregister_all ::
  "(u32 \<times> RegisteredBlock) list \<Rightarrow> FDDispatcher option \<Rightarrow> kernel \<Rightarrow> FDDispatcher option \<times> kernel" where
  "unregister_all [] d k = (d, k)"
| "unregister_all ((i, r) # rest) d k =
     (let (d1, k1) = (case d of
                        Some dd \<Rightarrow>
                          if server_socket r \<ge> 0
                          then (let (dd', k') = remove_socket (server_socket r) dd k in (Some dd', k'))
                          else (d, k)
                      | None \<Rightarrow> (d, k))
      in unregister_all rest d1 (sys_unlink (registered_path r) k1))"

text \<open>The broker's destructor, then the one of its \<^verbatim>\<open>Impl\<close>, which stops the dispatcher.\<close>

definition destroy_linux_broker :: "linux_broker \<Rightarrow> kernel \<Rightarrow> kernel" where
  "destroy_linux_broker br k =
     (let (d, k1) = unregister_all (registered_blocks br) (dispatcher br) k
      in case d of None \<Rightarrow> k1 | Some dd \<Rightarrow> snd (stop_dispatcher dd k1))"

section \<open>The Windows broker\<close>

definition windows_register_block :: "unit register_block" where
  "windows_register_block block br k =
     (if native_handle block < 0 then (Inr '''', block, br, k) else (Inr (socket_path block), block, br, k))"

section \<open>The contract of a broker\<close>

lemma memory_kept_effects [simp]:
  "memory_kept k (sys_unlink path k') = memory_kept k k'" "memory_kept k (sys_close fd k') = memory_kept k k'"
  "memory_kept k (sys_open_socket fd k') = memory_kept k k'" "memory_kept k (sys_open_object fd c k') = memory_kept k k'"
  "memory_kept k (k'\<lparr>fds := F\<rparr>) = memory_kept k k'" "memory_kept k (k'\<lparr>socket_files := S\<rparr>) = memory_kept k k'"
  by (simp_all add: memory_kept_def sys_unlink_def sys_open_socket_def sys_open_object_def)

text \<open>Registering a block neither touches shared memory nor the address space.\<close>

lemma block_socket_path_self: "\<exists>s. b = b\<lparr>socket_path := s\<rparr>"
  by (rule exI [of _ "socket_path b"]) simp

locale broker_contract =
  fixes register :: "'b register_block"
  assumes register_block_fields: "register b br k = (r, b', br', k') \<Longrightarrow> b' = b\<lparr>socket_path := socket_path b'\<rparr>"
    and register_memory: "register b br k = (r, b', br', k') \<Longrightarrow> memory_kept k k'"
begin

lemma register_block_for_ipc_inv:
  assumes "pool_inv p k" and "i < length (all_blocks p)"
    and "register_block_for_ipc register (Some i) p k = (r, p', k')"
  shows "pool_inv p' k' \<and> memory_kept k k' \<and> length (all_blocks p') = length (all_blocks p) \<and>
    (\<forall>j < length (all_blocks p). \<exists>s. all_blocks p' ! j = (all_blocks p ! j)\<lparr>socket_path := s\<rparr>)"
proof (cases "broker p")
  case None
  with assms show ?thesis
    by (auto simp: register_block_for_ipc_def block_socket_path_self)
next
  case (Some br)
  obtain r' b' br' k1 where reg: "register (all_blocks p ! i) br k = (r', b', br', k1)"
    by (metis prod.exhaust)
  with Some assms(3) have p': "p' = update_block i (\<lambda>_. b') (p\<lparr>broker := Some br'\<rparr>)" and "k' = k1"
    by (simp_all add: register_block_for_ipc_def)
  with reg have mem: "memory_kept k k'" using register_memory by simp
  define f where "f = (\<lambda>b :: SharedBufferBlock. b\<lparr>socket_path := socket_path b'\<rparr>)"
  have ab: "all_blocks p' = (all_blocks p)[i := f (all_blocks p ! i)]" and fb: "free_blocks p' = free_blocks p"
    using register_block_fields [OF reg] by (simp_all add: p' f_def update_block_def)
  have "pool_inv p' k'"
    by (rule pool_inv_update_block [where ?f = f, OF assms(1) ab fb mem]) (simp add: f_def)
  moreover have "\<exists>s. all_blocks p' ! j = (all_blocks p ! j)\<lparr>socket_path := s\<rparr>" if "j < length (all_blocks p)" for j
    using that by (cases "i = j") (auto simp: ab f_def intro: exI [of _ "socket_path (all_blocks p ! j)"])
  ultimately show ?thesis using mem by (simp add: ab)
qed

end

lemma create_fd_server_socket_memory: "create_fd_server_socket env path k = (s, k') \<Longrightarrow> memory_kept k k'"
  by (auto simp: create_fd_server_socket_def Let_def split: if_splits)

lemma sys_dup_memory: "sys_dup env fd k = (f, k') \<Longrightarrow> memory_kept k k'"
  by (auto simp: sys_dup_def split: if_splits option.splits fd_entry.splits)

lemma add_socket_memory: "add_socket env s fd d k = (ok, d', k') \<Longrightarrow> memory_kept k k'"
  by (auto simp: add_socket_def Let_def dest: sys_dup_memory split: if_splits prod.splits)

interpretation linux_broker: broker_contract "linux_register_block env" for env
proof
  fix b br k r b' br' k'
  assume reg: "linux_register_block env b br k = (r, b', br', k')"
  then show "b' = b\<lparr>socket_path := socket_path b'\<rparr>"
    by (auto simp: linux_register_block_def Let_def split: if_splits option.splits prod.splits)
  show "memory_kept k k'"
    using reg by (auto simp: linux_register_block_def Let_def
        dest!: create_fd_server_socket_memory add_socket_memory intro: memory_kept_trans
        split: if_splits option.splits prod.splits)
qed

interpretation windows_broker: broker_contract windows_register_block
  by unfold_locales (auto simp: windows_register_block_def split: if_splits)

section \<open>What a subscriber receives\<close>

text \<open>
  A client connects to the server socket bound to \<open>path\<close>; the dispatcher handles the event, its
  \<^verbatim>\<open>accept4\<close> returning \<open>client\<close>.
\<close>

definition served :: "linux_broker \<Rightarrow> kernel \<Rightarrow> int \<Rightarrow> string \<Rightarrow> oid option" where
  "served br k client path =
     (case (dispatcher br, socket_files k path) of
        (Some d, Some s) \<Rightarrow>
          (if running d \<and> fds k s = Some Socket_fd
           then (case run_dispatcher d [(running d, Ready [(s, client)])] k of
                   (_, [(_, Some (Memory c))], _) \<Rightarrow> Some c | _ \<Rightarrow> None)
           else None)
      | _ \<Rightarrow> None)"

lemma served_iff:
  assumes "0 \<le> client" and "fds k client = None"
  shows "served br k client path = Some c \<longleftrightarrow>
    (\<exists>d s f. dispatcher br = Some d \<and> running d \<and> socket_files k path = Some s \<and> fds k s = Some Socket_fd \<and>
       s \<noteq> event_fd d \<and> map_of (sockets d) s = Some f \<and> 0 \<le> f \<and> fds k f = Some (Memory c))"
proof -
  have "f \<noteq> client" if "fds k f = Some e" for f e using that assms(2) by auto
  then show ?thesis using assms
    by (auto simp: served_def handle_event_def fd_to_serve_for_def send_fd_def sys_open_socket_def Let_def
        split: option.splits list.splits fd_entry.splits if_splits)
qed

text \<open>
  The documented behaviour of \<^verbatim>\<open>socket\<close> and \<^verbatim>\<open>dup\<close>: they return descriptors that were not open.
  \<open>dispatcher_ok\<close>: the dispatcher serves only sockets that are open, and its event descriptor is.
\<close>

definition broker_good :: "linux_broker_env \<Rightarrow> kernel \<Rightarrow> bool" where
  "broker_good env k \<longleftrightarrow> fds k (server_result env) = None \<and> fds k (dup_result env) = None \<and>
     server_result env \<noteq> dup_result env"

definition dispatcher_ok :: "FDDispatcher \<Rightarrow> kernel \<Rightarrow> bool" where
  "dispatcher_ok d k \<longleftrightarrow> running d \<and> fds k (event_fd d) = Some Event_fd \<and> fds k (epoll_fd d) = Some Event_fd \<and>
     distinct (List.map fst (sockets d)) \<and>
     (\<forall>(s, f) \<in> set (sockets d). 0 \<le> f \<and> fds k s = Some Socket_fd \<and> (\<exists>c. fds k f = Some (Memory c)))"

lemma create_fd_server_socket_success:
  "create_fd_server_socket env path k = (s, k') \<Longrightarrow> 0 \<le> s \<Longrightarrow>
     s = server_result env \<and> fds k' = (fds k)(s \<mapsto> Socket_fd) \<and> socket_files k' = (socket_files k)(path \<mapsto> s)"
  by (auto simp: create_fd_server_socket_def Let_def sys_unlink_def sys_open_socket_def unix_address_def
      split: if_splits)

lemma sys_drop_ref_files [simp]:
  "socket_files (drop_ref c k) = socket_files k" "socket_files (sys_close fd k) = socket_files k"
  by (simp_all add: drop_ref_def sys_close_def Let_def split: option.splits fd_entry.splits)

lemma create_fd_server_socket_failure:
  "create_fd_server_socket env path k = (s, k') \<Longrightarrow> s < 0 \<Longrightarrow> fds k (server_result env) = None \<Longrightarrow>
     fds k' = fds k \<and> (\<forall>p. p \<noteq> path \<longrightarrow> socket_files k' p = socket_files k p)"
  by (auto simp: create_fd_server_socket_def Let_def sys_unlink_def sys_open_socket_def unix_address_def
      fun_upd_idem split: if_splits)

lemma sys_dup_memory_fd:
  "fds k fd = Some (Memory c) \<Longrightarrow> sys_dup env fd k = (f, k') \<Longrightarrow>
     f < 0 \<and> k' = k \<or> f = dup_result env \<and> 0 \<le> f \<and> k' = sys_open_object f c k"
  by (auto simp: sys_dup_def split: if_splits)

lemma add_socket_success:
  assumes "add_socket env s fd d k = (True, d', k')" and "fds k fd = Some (Memory c)"
  shows "running d \<and> 0 \<le> dup_result env \<and> d' = d\<lparr>sockets := AList.update s (dup_result env) (sockets d)\<rparr> \<and>
    fds k' = (fds k)(dup_result env \<mapsto> Memory c) \<and> socket_files k' = socket_files k"
  using assms(1) sys_dup_memory_fd [OF assms(2), of env]
  by (cases "sys_dup env fd k") (auto simp: add_socket_def Let_def sys_open_object_def split: if_splits)

lemma add_socket_failure:
  assumes "add_socket env s fd d k = (False, d', k')" and "fds k fd = Some (Memory c)"
    and "s \<notin> fst ` set (sockets d)" and "fds k (dup_result env) = None"
  shows "d' = d \<and> fds k' = fds k \<and> socket_files k' = socket_files k"
proof -
  have "AList.delete s (AList.update s f xs) = xs" if "s \<notin> fst ` set xs" for f and xs :: "(int \<times> int) list"
    using that by (induction xs) (auto simp: AList.delete_eq)
  from this [OF assms(3)] show ?thesis using assms(1,4) sys_dup_memory_fd [OF assms(2), of env]
    by (cases "sys_dup env fd k") (auto simp: add_socket_def Let_def sys_open_object_def fun_upd_idem split: if_splits)
qed

lemma close_all_frame [simp]:
  "fds (close_all l k) x = (if x \<in> fst ` set l \<union> snd ` set l then None else fds k x)"
  "socket_files (close_all l k) = socket_files k" "memory_kept k' (close_all l k) = memory_kept k' k"
  by (induction l k rule: close_all.induct) auto

lemma remove_socket_effect:
  assumes "remove_socket s d k = (d', k')" and "distinct (List.map fst (sockets d))"
    and "\<forall>(s, f) \<in> set (sockets d). 0 \<le> f"
  shows "d' = d\<lparr>sockets := AList.delete s (sockets d)\<rparr> \<and> socket_files k' = socket_files k \<and>
    fds k' = (\<lambda>x. if x = s \<or> (s, x) \<in> set (sockets d) then None else fds k x)"
proof (cases "map_of (sockets d) s")
  case None
  then have "(s, x) \<notin> set (sockets d)" for x by (force simp: map_of_eq_None_iff)
  with None assms(1) show ?thesis by (auto simp: remove_socket_def Let_def fun_eq_iff)
next
  case (Some f)
  then have "(s, x) \<in> set (sockets d) \<longleftrightarrow> x = f" for x
    using assms(2) by (metis map_of_eq_Some_iff option.inject)
  moreover from Some have "0 \<le> f" using assms(3) map_of_SomeD by fastforce
  with Some assms(1) have "d' = d\<lparr>sockets := AList.delete s (sockets d)\<rparr>" "k' = sys_close f (sys_close s k)"
    by (simp_all add: remove_socket_def Let_def)
  ultimately show ?thesis by (auto simp: fun_eq_iff)
qed

lemma unregister_all_effect:
  assumes "unregister_all rs (Some d) k = (d1, k')" and "distinct (List.map fst (sockets d))"
    and "\<forall>(s, f) \<in> set (sockets d). 0 \<le> f" and "\<forall>(i, r) \<in> set rs. 0 \<le> server_socket r"
  shows "(\<exists>l. d1 = Some (d\<lparr>sockets := l\<rparr>) \<and> set l = {(s, f) \<in> set (sockets d). s \<notin> server_socket ` snd ` set rs}) \<and>
    fds k' = (\<lambda>x. if x \<in> server_socket ` snd ` set rs \<or>
        (\<exists>s \<in> server_socket ` snd ` set rs. (s, x) \<in> set (sockets d)) then None else fds k x) \<and>
    socket_files k' = (\<lambda>p. if p \<in> registered_path ` snd ` set rs then None else socket_files k p)"
  using assms
proof (induction rs arbitrary: d k)
  case Nil
  then show ?case by (cases d) auto
next
  case (Cons ir rs)
  obtain i r where ir: "ir = (i, r)" by (cases ir)
  let ?s = "server_socket r"
  obtain d2 k2 where rm: "remove_socket ?s d k = (d2, k2)" by (cases "remove_socket ?s d k")
  from remove_socket_effect [OF rm Cons.prems(2,3)] have
    d2: "d2 = d\<lparr>sockets := AList.delete ?s (sockets d)\<rparr>" "socket_files k2 = socket_files k"
    "fds k2 = (\<lambda>x. if x = ?s \<or> (?s, x) \<in> set (sockets d) then None else fds k x)" by simp_all
  have set2: "set (sockets d2) = {(s, f) \<in> set (sockets d). s \<noteq> ?s}"
    by (auto simp: d2 AList.delete_eq)
  from Cons.prems(1,4) rm have "unregister_all rs (Some d2) (sys_unlink (registered_path r) k2) = (d1, k')"
    by (simp add: ir)
  moreover have "distinct (List.map fst (sockets d2))"
    using Cons.prems(2) by (simp add: d2 AList.distinct_delete)
  moreover have "\<forall>(s, f) \<in> set (sockets d2). 0 \<le> f" using Cons.prems(3) set2 by auto
  moreover have "\<forall>(i, r) \<in> set rs. 0 \<le> server_socket r" using Cons.prems(4) by simp
  ultimately obtain l where l: "d1 = Some (d2\<lparr>sockets := l\<rparr>)"
      "set l = {(s, f) \<in> set (sockets d2). s \<notin> server_socket ` snd ` set rs}"
      "fds k' = (\<lambda>x. if x \<in> server_socket ` snd ` set rs \<or> (\<exists>s \<in> server_socket ` snd ` set rs. (s, x) \<in> set (sockets d2))
         then None else fds (sys_unlink (registered_path r) k2) x)"
      "socket_files k' = (\<lambda>p. if p \<in> registered_path ` snd ` set rs then None
         else socket_files (sys_unlink (registered_path r) k2) p)"
    using Cons.IH by blast
  have "d1 = Some (d\<lparr>sockets := l\<rparr>)" using l(1) d2(1) by simp
  moreover have "set l = {(s, f) \<in> set (sockets d). s \<notin> server_socket ` snd ` set (ir # rs)}"
    using l(2) set2 by (auto simp: ir)
  moreover have "fds k' = (\<lambda>x. if x \<in> server_socket ` snd ` set (ir # rs) \<or>
      (\<exists>s \<in> server_socket ` snd ` set (ir # rs). (s, x) \<in> set (sockets d)) then None else fds k x)"
    unfolding l(3) using set2 d2(3) by (auto simp: ir sys_unlink_def fun_eq_iff)
  moreover have "socket_files k' = (\<lambda>p. if p \<in> registered_path ` snd ` set (ir # rs) then None else socket_files k p)"
    unfolding l(4) using d2(2) by (auto simp: ir sys_unlink_def fun_eq_iff)
  ultimately show ?case by blast
qed

section \<open>Properties\<close>

lemma dispatcher_ok_open: "dispatcher_ok d k \<Longrightarrow> s \<in> fst ` set (sockets d) \<Longrightarrow> fds k s = Some Socket_fd"
  by (auto simp: dispatcher_ok_def)

lemma linux_register_new:
  assumes reg: "linux_register_block env b br k = (Inr path, b', br', k')" and d: "dispatcher br = Some d"
    and h: "0 \<le> native_handle b" "fds k (native_handle b) = Some (Memory c)"
    and fresh: "map_of (registered_blocks br) (block_id b) = None" and good: "broker_good env k"
  shows "path = broker_path env (block_id b) (native_handle b) \<and> b' = b\<lparr>socket_path := path\<rparr> \<and> running d \<and>
    0 \<le> server_result env \<and> 0 \<le> dup_result env \<and>
    br' = \<lparr>dispatcher = Some (d\<lparr>sockets := AList.update (server_result env) (dup_result env) (sockets d)\<rparr>),
           registered_blocks = registered_blocks br @
             [(block_id b, \<lparr>server_socket = server_result env, registered_path = path\<rparr>)]\<rparr> \<and>
    fds k' = (fds k)(server_result env \<mapsto> Socket_fd, dup_result env \<mapsto> Memory c) \<and>
    socket_files k' = (socket_files k)(path \<mapsto> server_result env)"
proof -
  let ?path = "broker_path env (block_id b) (native_handle b)"
  obtain s k1 where cs: "create_fd_server_socket env ?path k = (s, k1)" by (cases "create_fd_server_socket env ?path k")
  obtain ok d1 k2 where as: "add_socket env s (native_handle b) d k1 = (ok, d1, k2)"
    by (cases "add_socket env s (native_handle b) d k1")
  from reg d h(1) fresh cs as have s: "0 \<le> s" and ok: ok
    and res: "path = ?path" "b' = b\<lparr>socket_path := ?path\<rparr>" "k' = k2"
      "br' = br\<lparr>dispatcher := Some d1, registered_blocks := registered_blocks br @
             [(block_id b, \<lparr>server_socket = s, registered_path = ?path\<rparr>)]\<rparr>"
    by (auto simp: linux_register_block_def Let_def split: if_splits)
  from create_fd_server_socket_success [OF cs s] have cs': "s = server_result env"
    "fds k1 = (fds k)(s \<mapsto> Socket_fd)" "socket_files k1 = (socket_files k)(?path \<mapsto> s)" by simp_all
  with h good have "fds k1 (native_handle b) = Some (Memory c)" by (auto simp: broker_good_def)
  from add_socket_success [OF _ this, of env s d d1 k2] as ok cs' s res show ?thesis by (cases br) simp
qed

lemma linux_register_again:
  "dispatcher br = Some d \<Longrightarrow> 0 \<le> native_handle b \<Longrightarrow> map_of (registered_blocks br) (block_id b) = Some r \<Longrightarrow>
   linux_register_block env b br k = (Inr (registered_path r), b, br, k)"
  by (simp add: linux_register_block_def)

text \<open>
  C22: registering a block publishes exactly that block.  A client that connects to the path
  \<^verbatim>\<open>register_block\<close> returned receives, through the dispatcher's loop, a descriptor of the block's
  memory object; what every other path serves does not change; the block remembers its path;
  and registering it again returns the same path and does nothing.
\<close>

theorem linux_register_serves_the_block:
  assumes "linux_register_block env b br k = (Inr path, b', br', k')"
    and "dispatcher br = Some d" and "dispatcher_ok d k"
    and "0 \<le> native_handle b" and "fds k (native_handle b) = Some (Memory c)"
    and "map_of (registered_blocks br) (block_id b) = None" and "broker_good env k"
    and client: "0 \<le> client" "fds k' client = None"
  shows "path = broker_path env (block_id b) (native_handle b) \<and> socket_path b' = path \<and>
    served br' k' client path = Some c \<and>
    (\<forall>path2 c2. path2 \<noteq> path \<longrightarrow> served br k client path2 = Some c2 \<longrightarrow> served br' k' client path2 = Some c2) \<and>
    (\<exists>d'. dispatcher br' = Some d' \<and> dispatcher_ok d' k') \<and>
    linux_register_block env' b' br' k' = (Inr path, b', br', k')"
proof -
  let ?s = "server_result env" and ?f = "dup_result env"
  have new: "path = broker_path env (block_id b) (native_handle b)" "b' = b\<lparr>socket_path := path\<rparr>" "running d" "0 \<le> ?f"
    "br' = \<lparr>dispatcher = Some (d\<lparr>sockets := AList.update ?s ?f (sockets d)\<rparr>), registered_blocks =
       registered_blocks br @ [(block_id b, \<lparr>server_socket = ?s, registered_path = path\<rparr>)]\<rparr>"
    "fds k' = (fds k)(?s \<mapsto> Socket_fd, ?f \<mapsto> Memory c)" "socket_files k' = (socket_files k)(path \<mapsto> ?s)"
    using linux_register_new [OF assms(1,2,4-7)] by simp_all
  have good: "fds k ?s = None" "fds k ?f = None" "?s \<noteq> ?f" using assms(7) by (simp_all add: broker_good_def)
  have ns: "?s \<notin> fst ` set (sockets d)" using dispatcher_ok_open [OF assms(3)] good by fastforce
  have cl: "fds k client = None" using client(2) new(6) by (auto split: if_splits)
  have ev: "?s \<noteq> event_fd d" using assms(3) good by (auto simp: dispatcher_ok_def)
  have s1: "served br' k' client path = Some c"
    unfolding served_iff [OF client] using new good ev by (auto simp: AList.update_conv')
  moreover have "served br' k' client path2 = Some c2" if "path2 \<noteq> path" "served br k client path2 = Some c2" for path2 c2
  proof -
    from that(2) [unfolded served_iff [OF client(1) cl]] assms(2) obtain s f where
      "socket_files k path2 = Some s" "fds k s = Some Socket_fd" "s \<noteq> event_fd d" "map_of (sockets d) s = Some f"
      "0 \<le> f" "fds k f = Some (Memory c2)" by auto
    then show ?thesis unfolding served_iff [OF client] using new good that(1) by (auto simp: AList.update_conv')
  qed
  moreover have "dispatcher_ok (d\<lparr>sockets := AList.update ?s ?f (sockets d)\<rparr>) k'"
  proof -
    have "AList.update ?s ?f xs = xs @ [(?s, ?f)]" if "?s \<notin> fst ` set xs" for xs
      using that by (induction xs) auto
    with assms(3) new good ns show ?thesis by (fastforce simp: dispatcher_ok_def)
  qed
  moreover have "linux_register_block env' b' br' k' = (Inr path, b', br', k')"
  proof -
    have "map_of (registered_blocks br') (block_id b') = Some \<lparr>server_socket = ?s, registered_path = path\<rparr>"
      using new assms(6) by (simp add: map_add_def)
    from linux_register_again [OF _ _ this, of _ env' k'] new assms(4) show ?thesis by simp
  qed
  ultimately show ?thesis using new by simp
qed

text \<open>
  A registration that fails throws, and leaves no descriptor open, no socket watched by the
  dispatcher, the block and the broker as they were, and every other path as it was.
\<close>

theorem linux_register_failure_leaks_nothing:
  assumes "linux_register_block env b br k = (Inl e, b', br', k')"
    and "dispatcher br = Some d" and "dispatcher_ok d k" and "fds k (native_handle b) = Some (Memory c)"
    and "broker_good env k"
  shows "b' = b \<and> br' = br \<and> fds k' = fds k \<and>
    (\<forall>path. path \<noteq> broker_path env (block_id b) (native_handle b) \<longrightarrow> socket_files k' path = socket_files k path)"
proof -
  let ?path = "broker_path env (block_id b) (native_handle b)"
  obtain s k1 where cs: "create_fd_server_socket env ?path k = (s, k1)" by (cases "create_fd_server_socket env ?path k")
  obtain ok d1 k2 where as: "add_socket env s (native_handle b) d k1 = (ok, d1, k2)"
    by (cases "add_socket env s (native_handle b) d k1")
  have good: "fds k (server_result env) = None" "fds k (dup_result env) = None" "server_result env \<noteq> dup_result env"
    using assms(5) by (simp_all add: broker_good_def)
  show ?thesis
  proof (cases "s < 0")
    case True
    with assms(1,2) cs have "b' = b" "br' = br" "k' = sys_unlink ?path k1"
      by (auto simp: linux_register_block_def Let_def split: if_splits option.splits)
    with create_fd_server_socket_failure [OF cs True good(1)] show ?thesis by (simp add: sys_unlink_def)
  next
    case False
    with assms(1,2) cs as have res: "\<not> ok" "b' = b" "br' = br\<lparr>dispatcher := Some d1\<rparr>"
      "k' = sys_unlink ?path (sys_close s k2)"
      by (auto simp: linux_register_block_def Let_def split: if_splits option.splits)
    from create_fd_server_socket_success [OF cs] False have cs': "s = server_result env"
      "fds k1 = (fds k)(s \<mapsto> Socket_fd)" "socket_files k1 = (socket_files k)(?path \<mapsto> s)" by simp_all
    have "s \<notin> fst ` set (sockets d)" using dispatcher_ok_open [OF assms(3)] good cs' by fastforce
    moreover have "fds k1 (native_handle b) = Some (Memory c)" "fds k1 (dup_result env) = None"
      using cs' assms(4) good by auto
    ultimately have "d1 = d" "fds k2 = fds k1" "socket_files k2 = socket_files k1"
      using add_socket_failure [of env s "native_handle b" d k1 d1 k2 c] as res(1) by auto
    with res cs' good assms(2) show ?thesis by (cases br) (simp add: sys_unlink_def fun_upd_idem)
  qed
qed

text \<open>
  Broker paths identify what they serve, as the comment in \<^verbatim>\<open>register_block\<close> asks for: for one
  user, two registrations have the same path only if process, block id and descriptor agree, so
  two pools of a process, whose block ids both start at zero, never share a path while both
  descriptors are open.
\<close>

theorem broker_path_identifies_block:
  "broker_path env i h = broker_path env' j h' \<longleftrightarrow>
     euid env = euid env' \<and> getpid env = getpid env' \<and> i = j \<and> h = h'"
proof
  assume eq: "broker_path env i h = broker_path env' j h'"
  have u: "\<not> (48 \<le> (of_char (CHR ''_'') :: nat) \<and> (of_char (CHR ''_'') :: nat) \<le> 57)"
      and dot: "\<not> (48 \<le> (of_char (CHR ''.'') :: nat) \<and> (of_char (CHR ''.'') :: nat) \<le> 57)" by simp_all
  from eq have "to_string (euid env) @ CHR ''_'' # to_string (getpid env) @ CHR ''_'' # to_string (unat i) @ CHR ''_'' #
      int_to_string h @ ''.sock'' = to_string (euid env') @ CHR ''_'' # to_string (getpid env') @ CHR ''_'' #
      to_string (unat j) @ CHR ''_'' # int_to_string h' @ ''.sock''"
    by (simp add: broker_path_def)
  from to_string_then [OF this u] have e: "euid env = euid env'"
    and "to_string (getpid env) @ CHR ''_'' # to_string (unat i) @ CHR ''_'' # int_to_string h @ ''.sock'' =
      to_string (getpid env') @ CHR ''_'' # to_string (unat j) @ CHR ''_'' # int_to_string h' @ ''.sock''" by auto
  from to_string_then [OF this(2) u] have p: "getpid env = getpid env'"
    and "to_string (unat i) @ CHR ''_'' # int_to_string h @ ''.sock'' =
      to_string (unat j) @ CHR ''_'' # int_to_string h' @ ''.sock''" by auto
  from to_string_then [OF this(2) u] have i: "unat i = unat j"
    and "int_to_string h @ ''.sock'' = int_to_string h' @ ''.sock''" by auto
  then have "int_to_string h = int_to_string h'" by simp
  then have "h = h'" by (rule int_to_string_inj)
  moreover have "i = j" using i by (simp add: word_unat_eq_iff)
  ultimately show "euid env = euid env' \<and> getpid env = getpid env' \<and> i = j \<and> h = h'" using e p by simp
qed (simp add: broker_path_def)

lemma closed_in_two_rounds:
  fixes S :: "(int \<times> int) set"
  shows "(\<lambda>x. if x \<in> fst ` {(s, f) \<in> S. s \<notin> R} \<union> snd ` {(s, f) \<in> S. s \<notin> R} \<union> E then None
      else if x \<in> R \<or> (\<exists>s \<in> R. (s, x) \<in> S) then None else v x) =
    (\<lambda>x. if x \<in> R \<union> fst ` S \<union> snd ` S \<union> E then None else v x)"
proof (rule ext)
  fix x
  have "x \<in> fst ` {(s, f) \<in> S. s \<notin> R} \<longleftrightarrow> x \<in> fst ` S \<and> x \<notin> R" by force
  moreover have "x \<in> snd ` {(s, f) \<in> S. s \<notin> R} \<longleftrightarrow> (\<exists>s. (s, x) \<in> S \<and> s \<notin> R)" by force
  moreover have "x \<in> snd ` S \<longleftrightarrow> (\<exists>s. (s, x) \<in> S)" by force
  ultimately show "(if x \<in> fst ` {(s, f) \<in> S. s \<notin> R} \<union> snd ` {(s, f) \<in> S. s \<notin> R} \<union> E then None
      else if x \<in> R \<or> (\<exists>s \<in> R. (s, x) \<in> S) then None else v x) =
    (if x \<in> R \<union> fst ` S \<union> snd ` S \<union> E then None else v x)" by auto
qed

text \<open>
  C35: destroying a broker takes back everything it opened: the server sockets, the duplicated
  descriptors, the event and epoll descriptors are closed, the paths of all registered blocks
  are unlinked; every other descriptor and path, and all of shared memory, stay as they were.
\<close>

theorem destroy_linux_broker_closes_everything:
  assumes "dispatcher br = Some d" and "dispatcher_ok d k" and "0 \<le> event_fd d" and "0 \<le> epoll_fd d"
    and "\<forall>(i, r) \<in> set (registered_blocks br). 0 \<le> server_socket r"
  shows "fds (destroy_linux_broker br k) = (\<lambda>x.
      if x \<in> server_socket ` snd ` set (registered_blocks br) \<union> fst ` set (sockets d) \<union> snd ` set (sockets d) \<union>
         {event_fd d, epoll_fd d} then None else fds k x) \<and>
    socket_files (destroy_linux_broker br k) =
      (\<lambda>p. if p \<in> registered_path ` snd ` set (registered_blocks br) then None else socket_files k p)"
proof -
  obtain d1 k1 where un: "unregister_all (registered_blocks br) (Some d) k = (d1, k1)"
    by (cases "unregister_all (registered_blocks br) (Some d) k")
  have "distinct (List.map fst (sockets d))" "\<forall>(s, f) \<in> set (sockets d). 0 \<le> f" and run: "running d"
    using assms(2) by (auto simp: dispatcher_ok_def)
  from unregister_all_effect [OF un this(1,2) assms(5)] obtain l where l: "d1 = Some (d\<lparr>sockets := l\<rparr>)"
      "set l = {(s, f) \<in> set (sockets d). s \<notin> server_socket ` snd ` set (registered_blocks br)}"
      "fds k1 = (\<lambda>x. if x \<in> server_socket ` snd ` set (registered_blocks br) \<or>
        (\<exists>s \<in> server_socket ` snd ` set (registered_blocks br). (s, x) \<in> set (sockets d)) then None else fds k x)"
      "socket_files k1 = (\<lambda>p. if p \<in> registered_path ` snd ` set (registered_blocks br) then None else socket_files k p)"
    by blast
  have "destroy_linux_broker br k = snd (stop_dispatcher (d\<lparr>sockets := l\<rparr>) k1)"
    using un l(1) assms(1) by (simp add: destroy_linux_broker_def)
  then have "socket_files (destroy_linux_broker br k) = socket_files k1"
    and f: "fds (destroy_linux_broker br k) =
      (\<lambda>x. if x \<in> fst ` set l \<union> snd ` set l \<union> {event_fd d, epoll_fd d} then None else fds k1 x)"
    using run assms(3,4) by (auto simp: stop_dispatcher_def Let_def fun_eq_iff)
  moreover have "fds (destroy_linux_broker br k) = (\<lambda>x. if x \<in> server_socket ` snd ` set (registered_blocks br) \<union>
      fst ` set (sockets d) \<union> snd ` set (sockets d) \<union> {event_fd d, epoll_fd d} then None else fds k x)"
    unfolding f l(2,3) by (rule closed_in_two_rounds)
  ultimately show ?thesis unfolding l(4) by simp
qed


section \<open>A concrete broker\<close>

definition sample_dispatcher :: FDDispatcher where
  "sample_dispatcher = \<lparr>epoll_fd = 5, event_fd = 6, sockets = [], running = True\<rparr>"

definition sample_broker :: linux_broker where
  "sample_broker = \<lparr>dispatcher = Some sample_dispatcher, registered_blocks = []\<rparr>"

definition sample_broker_env :: linux_broker_env where
  "sample_broker_env = \<lparr>euid = 1000, getpid = 77, server_result = 10, bind_ok = True, listen_ok = True,
     chmod_ok = True, dup_result = 11, epoll_add_ok = True, broker_errno_text = ''''\<rparr>"

definition sample_broker_kernel :: kernel where
  "sample_broker_kernel = \<lparr>vm = [0x7F0000000000 \<mapsto> 0], fds = [5 \<mapsto> Event_fd, 6 \<mapsto> Event_fd, 7 \<mapsto> Memory 0],
     osize = (\<lambda>_. 68), hdr = (\<lambda>_. default_control_header\<lparr>payload_size := 4\<rparr>), pay = (\<lambda>_. [0, 0, 0, 0]),
     next_oid = 1, names = (\<lambda>_. None), socket_files = (\<lambda>_. None), refs = (\<lambda>_. 2), clock = (\<lambda>_. 5000000)\<rparr>"

definition sample_broker_block :: SharedBufferBlock where
  "sample_broker_block = \<lparr>native_handle = 7, mapping = 0x7F0000000000, mapped_size = 68, block_payload_size = 4,
     block_id = 0, control = Some 0, current_uid = 42, socket_path = '''', in_use = True\<rparr>"

lemma sample_dispatcher_ok: "dispatcher_ok sample_dispatcher sample_broker_kernel"
  by (simp add: dispatcher_ok_def sample_dispatcher_def sample_broker_kernel_def)

lemma sample_broker_good: "broker_good sample_broker_env sample_broker_kernel"
  by (simp add: broker_good_def sample_broker_env_def sample_broker_kernel_def)

lemma sample_registered:
  "\<exists>b' br' k'. linux_register_block sample_broker_env sample_broker_block sample_broker sample_broker_kernel =
     (Inr (broker_path sample_broker_env 0 7), b', br', k') \<and> fds k' 12 = None"
  by (simp add: linux_register_block_def sample_broker_def sample_broker_block_def create_fd_server_socket_def
      broker_path_def sample_broker_env_def sun_path_size_def to_string.simps int_to_string_def Let_def add_socket_def
      sample_dispatcher_def sys_dup_def sample_broker_kernel_def sys_unlink_def sys_open_socket_def sys_open_object_def)

theorem linux_register_serves_the_block_witness:
  "\<exists>b' br' k'. linux_register_block sample_broker_env sample_broker_block sample_broker sample_broker_kernel =
     (Inr (broker_path sample_broker_env 0 7), b', br', k') \<and>
     served br' k' 12 (broker_path sample_broker_env 0 7) = Some 0"
proof -
  obtain b' br' k' where r: "linux_register_block sample_broker_env sample_broker_block sample_broker sample_broker_kernel =
     (Inr (broker_path sample_broker_env 0 7), b', br', k')" "fds k' 12 = None"
    using sample_registered by blast
  have "served br' k' 12 (broker_path sample_broker_env 0 7) = Some 0"
    using linux_register_serves_the_block [OF r(1) _ sample_dispatcher_ok _ _ _ sample_broker_good _ r(2), of 0]
    by (simp add: sample_broker_def sample_broker_block_def sample_broker_kernel_def)
  with r(1) show ?thesis by blast
qed

theorem linux_register_failure_leaks_nothing_witness:
  "\<exists>e b' br' k'. linux_register_block (sample_broker_env\<lparr>epoll_add_ok := False\<rparr>) sample_broker_block sample_broker
     sample_broker_kernel = (Inl e, b', br', k') \<and> fds k' = fds sample_broker_kernel"
proof -
  let ?env = "sample_broker_env\<lparr>epoll_add_ok := False\<rparr>"
  obtain e b' br' k' where r: "linux_register_block ?env sample_broker_block sample_broker sample_broker_kernel = (Inl e, b', br', k')"
    by (simp add: linux_register_block_def sample_broker_def sample_broker_block_def create_fd_server_socket_def
      broker_path_def sample_broker_env_def sun_path_size_def to_string.simps int_to_string_def Let_def add_socket_def
      sample_dispatcher_def sys_dup_def sample_broker_kernel_def sys_unlink_def sys_open_socket_def sys_open_object_def)
  have "broker_good ?env sample_broker_kernel" using sample_broker_good by (simp add: broker_good_def)
  with linux_register_failure_leaks_nothing [OF r _ sample_dispatcher_ok, of 0] have "fds k' = fds sample_broker_kernel"
    by (simp add: sample_broker_def sample_broker_block_def sample_broker_kernel_def)
  with r show ?thesis by blast
qed

theorem destroy_linux_broker_closes_everything_witness:
  "fds (destroy_linux_broker sample_broker sample_broker_kernel) = [7 \<mapsto> Memory 0]"
  using destroy_linux_broker_closes_everything [OF _ sample_dispatcher_ok, of sample_broker]
  by (auto simp: sample_broker_def sample_dispatcher_def sample_broker_kernel_def)


end
