(* ===== verification/Pool_Run.thy ===== *)
theory Pool_Run
  imports Broker
begin

text \<open>
  The remaining pool operations, and whole runs: any interleaving of the publisher's
  operations with readers that come and go in other processes and with time passing keeps
  \<open>pool_inv\<close>.
\<close>

section \<open>Free\<close>

lemma bucket_update_block [simp]: "bucket (update_block i f p) sz = bucket p sz"
  by (simp add: bucket_def)

lemma block_in_use_frame [simp]:
  "block_ok k (b\<lparr>in_use := u\<rparr>) = block_ok k b" "block_lock k (b\<lparr>in_use := u\<rparr>) = block_lock k b"
  by (simp_all add: block_ok_def block_lock_def split: option.splits)

lemma pool_free_None [simp]: "pool_free None p = p"
  by (simp add: pool_free_def)

lemma pool_free_unused: "\<not> in_use (all_blocks p ! i) \<Longrightarrow> pool_free (Some i) p = p"
  by (simp add: pool_free_def)

lemma pool_free_used:
  "in_use (all_blocks p ! i) \<Longrightarrow> pool_free (Some i) p =
     (update_block i (\<lambda>b. b\<lparr>in_use := False\<rparr>) p)
       \<lparr>free_blocks := (free_blocks p)(block_payload_size (all_blocks p ! i) \<mapsto>
          bucket p (block_payload_size (all_blocks p ! i)) @ [i])\<rparr>"
  by (simp add: pool_free_def Let_def)

lemma free_ok_pool_free:
  assumes fo: "free_ok {} p" and i: "i < length (all_blocks p)" and u: "in_use (all_blocks p ! i)"
  shows "free_ok {} (pool_free (Some i) p)"
proof -
  let ?sz = "block_payload_size (all_blocks p ! i)" and ?q = "pool_free (Some i) p"
  have q: "all_blocks ?q = all_blocks (update_block i (\<lambda>b. b\<lparr>in_use := False\<rparr>) p)"
      "free_blocks ?q = (free_blocks p)(?sz \<mapsto> bucket p ?sz @ [i])"
    by (simp_all add: pool_free_used [OF u])
  have d: "distinct (bucket p ?sz)"
    using fo by (auto simp: free_ok_def bucket_def split: option.splits)
  have b: "j < length (all_blocks p) \<and> block_payload_size (all_blocks p ! j) = ?sz \<and> \<not> in_use (all_blocks p ! j)"
    if "j \<in> set (bucket p ?sz)" for j
    using free_ok_bucket [OF fo that] by simp
  then have ni: "i \<notin> set (bucket p ?sz)" using u by blast
  have len: "length (all_blocks ?q) = length (all_blocks p)" by (simp add: q)
  show ?thesis
  proof (rule free_okI)
    fix s l assume sl: "free_blocks ?q s = Some l"
    show "l \<noteq> [] \<and> distinct l \<and> (\<forall>j \<in> set l. j < length (all_blocks ?q) \<and> j \<notin> {} \<and>
      block_payload_size (all_blocks ?q ! j) = s \<and> \<not> in_use (all_blocks ?q ! j))"
    proof (cases "s = ?sz")
      case True
      with sl have l: "l = bucket p ?sz @ [i]" by (simp add: q)
      show ?thesis unfolding l using True d b ni i by (auto simp: q)
    next
      case False
      with sl have l: "free_blocks p s = Some l" by (simp add: q)
      have "j < length (all_blocks ?q) \<and> j \<notin> {} \<and> block_payload_size (all_blocks ?q ! j) = s \<and>
          \<not> in_use (all_blocks ?q ! j)" if "j \<in> set l" for j
        using free_ok_candidates [OF fo l that] by (simp add: q)
      moreover have "l \<noteq> [] \<and> distinct l" using fo l unfolding free_ok_def by blast
      ultimately show ?thesis by blast
    qed
  next
    fix j assume j: "j < length (all_blocks ?q)" "j \<notin> {}" "\<not> in_use (all_blocks ?q ! j)"
    show "\<exists>l. free_blocks ?q (block_payload_size (all_blocks ?q ! j)) = Some l \<and> j \<in> set l"
    proof (cases "j = i")
      case True
      then show ?thesis using i by (simp add: q)
    next
      case False
      with j have eq: "all_blocks ?q ! j = all_blocks p ! j" by (simp add: q)
      with j obtain l where "free_blocks p (block_payload_size (all_blocks p ! j)) = Some l" "j \<in> set l"
        using free_ok_listed [OF fo, of j] len by auto
      then show ?thesis unfolding eq by (auto simp: q bucket_def)
    qed
  qed
qed

lemma pool_free_inv:
  assumes inv: "pool_inv p k" and i: "i < length (all_blocks p)"
  shows "pool_inv (pool_free (Some i) p) k"
proof (cases "in_use (all_blocks p ! i)")
  case False
  then show ?thesis using inv by (simp add: pool_free_unused)
next
  case True
  let ?f = "\<lambda>b. b\<lparr>in_use := False\<rparr>"
  have ab: "all_blocks (pool_free (Some i) p) = (all_blocks p)[i := ?f (all_blocks p ! i)]"
    by (simp add: pool_free_used [OF True] update_block_def)
  have nth: "all_blocks (pool_free (Some i) p) ! j = (if j = i then ?f (all_blocks p ! j) else all_blocks p ! j)"
    if "j < length (all_blocks p)" for j
    using that by (auto simp: ab)
  have "free_ok {} (pool_free (Some i) p)"
    using inv i True by (simp add: free_ok_pool_free pool_inv_def pool_inv_except_def)
  moreover have "blocks_disjoint (all_blocks (pool_free (Some i) p))"
    unfolding ab using inv by (subst blocks_disjoint_update) (simp_all add: pool_inv_def pool_inv_except_def)
  moreover have "length (all_blocks (pool_free (Some i) p)) = length (all_blocks p)" by (simp add: ab)
  moreover have "block_ok k (all_blocks (pool_free (Some i) p) ! j) \<and>
      block_lock k (all_blocks (pool_free (Some i) p) ! j) \<noteq> Claimed" if "j < length (all_blocks p)" for j
    using inv that by (simp add: nth pool_inv_def pool_inv_except_def)
  ultimately show ?thesis by (simp add: pool_inv_def pool_inv_except_def)
qed

section \<open>Publishing\<close>

lemma update_control_layout [simp]:
  "(\<And>h. magic (f h) = magic h) \<Longrightarrow> (\<And>h. abi_version (f h) = abi_version h) \<Longrightarrow>
   (\<And>h. payload_size (f h) = payload_size h) \<Longrightarrow> same_layout k (update_control ctl f k)"
  by (auto simp: update_control_def same_layout_def split: option.splits)

lemma update_control_lock:
  "(\<And>h. reader_state (f h) = reader_state h) \<Longrightarrow> block_lock (update_control ctl f k) b = block_lock k b"
  by (auto simp: update_control_def block_lock_def split: option.splits)

lemma refresh_layout: "same_layout k (refresh_publish_timestamp ctl k)"
  by (auto simp: refresh_publish_timestamp_def monotonic_time_us_def update_control_def same_layout_def
      split: option.splits)

lemma refresh_lock: "block_lock (refresh_publish_timestamp ctl k) b = block_lock k b"
  by (auto simp: refresh_publish_timestamp_def monotonic_time_us_def update_control_def block_lock_def
      split: option.splits)

lemma mark_published_layout: "same_layout k (mark_published block p k)"
proof -
  have "same_layout k (refresh_publish_timestamp c (update_control c (\<lambda>h. h\<lparr>ipc_uid := u\<rparr>) k))" for c u
    by (rule same_layout_trans [OF _ refresh_layout]) simp
  then show ?thesis by (simp add: mark_published_def Let_def split: option.splits)
qed

lemma mark_published_lock: "block_lock (mark_published block p k) b = block_lock k b"
  by (simp add: mark_published_def Let_def refresh_lock update_control_lock split: option.splits)

lemma mark_published_inv: "pool_inv p k \<Longrightarrow> pool_inv p (mark_published block p k)"
  unfolding pool_inv_def
  by (erule pool_inv_layout [OF _ mark_published_layout]) (simp add: mark_published_lock)

lemma mark_published_header:
  assumes "control (all_blocks p ! i) = Some c"
  shows "hdr (mark_published (Some i) p k) =
    (hdr k)(c := (hdr k c)\<lparr>ipc_uid := current_uid (all_blocks p ! i), publish_timestamp_us := clock k 0\<rparr>)"
  using assms
  by (simp add: mark_published_def refresh_publish_timestamp_def monotonic_time_us_def update_control_def)

lemma assign_uid_frame:
  assumes "assign_uid (Some i) p = (uid, p')" and "current_uid (all_blocks p ! i) \<noteq> 0"
    and "control (all_blocks p ! i) \<noteq> None"
  shows "p' = p \<and> uid = current_uid (all_blocks p ! i)"
  using assms by (auto simp: assign_uid_def)

section \<open>Looking a payload pointer up\<close>

lemma find_block_Some:
  "find_block a bs i = Some j \<Longrightarrow> i \<le> j \<and> j - i < length bs \<and>
     a \<ge> mapping (bs ! (j - i)) + kSharedBufferPayloadOffset \<and>
     a < mapping (bs ! (j - i)) + mapped_size (bs ! (j - i))"
proof (induction bs arbitrary: i)
  case Nil
  then show ?case by simp
next
  case (Cons b bs)
  show ?case
  proof (cases "a \<ge> mapping b + kSharedBufferPayloadOffset \<and> a < mapping b + mapped_size b")
    case True
    with Cons.prems show ?thesis by auto
  next
    case False
    with Cons.prems have "find_block a bs (Suc i) = Some j" by (auto split: if_splits)
    from Cons.IH [OF this] show ?thesis
      by (metis Suc_diff_Suc Suc_leD Suc_le_lessD length_Cons not_less_eq nth_Cons_Suc)
  qed
qed

lemma find_block_None:
  "find_block a bs i = None \<Longrightarrow> b \<in> set bs \<Longrightarrow>
     \<not> (a \<ge> mapping b + kSharedBufferPayloadOffset \<and> a < mapping b + mapped_size b)"
  by (induction bs arbitrary: i) (auto split: if_splits)

text \<open>The payload range of a block, without wrap-around.\<close>

definition in_payload :: "SharedBufferBlock \<Rightarrow> u64 \<Rightarrow> bool" where
  "in_payload b a \<longleftrightarrow> unat (mapping b) + 64 \<le> unat a \<and> unat a < unat (mapping b) + unat (mapped_size b)"

lemma in_payload_iff:
  assumes "block_ok k b"
  shows "a \<ge> mapping b + kSharedBufferPayloadOffset \<and> a < mapping b + mapped_size b \<longleftrightarrow> in_payload b a"
proof -
  have "unat (mapping b) + unat (mapped_size b) < 2 ^ 64" and "64 \<le> unat (mapped_size b)"
    using assms by (auto simp: block_ok_def)
  then have "unat (mapping b + kSharedBufferPayloadOffset) = unat (mapping b) + 64"
      and "unat (mapping b + mapped_size b) = unat (mapping b) + unat (mapped_size b)"
    by (simp_all add: unat_word_ariths kSharedBufferPayloadOffset_def)
  then show ?thesis by (simp add: in_payload_def word_le_nat_alt word_less_nat_alt)
qed

lemma in_payload_unique:
  assumes "blocks_disjoint bs" and "i < length bs" and "j < length bs"
    and "in_payload (bs ! i) a" and "in_payload (bs ! j) a"
  shows "i = j"
  using assms by (fastforce simp: blocks_disjoint_def ranges_disjoint_def in_payload_def)

lemma find_block_for_ptr_iff:
  assumes inv: "pool_inv p k"
  shows "find_block_for_ptr a p = Some i \<longleftrightarrow> i < length (all_blocks p) \<and> in_payload (all_blocks p ! i) a"
proof
  assume "find_block_for_ptr a p = Some i"
  then have "find_block a (all_blocks p) 0 = Some i" by (simp add: find_block_for_ptr_def split: if_splits)
  from find_block_Some [OF this] show "i < length (all_blocks p) \<and> in_payload (all_blocks p ! i) a"
    using in_payload_iff pool_inv_block [OF inv] by (metis diff_zero)
next
  assume i: "i < length (all_blocks p) \<and> in_payload (all_blocks p ! i) a"
  then have a: "a \<noteq> 0" by (auto simp: in_payload_def)
  show "find_block_for_ptr a p = Some i"
  proof (cases "find_block a (all_blocks p) 0")
    case None
    then show ?thesis
      using find_block_None [OF None, of "all_blocks p ! i"] i in_payload_iff pool_inv_block [OF inv]
      by (metis nth_mem)
  next
    case (Some j)
    from find_block_Some [OF this] have "j < length (all_blocks p)" "in_payload (all_blocks p ! j) a"
      using in_payload_iff pool_inv_block [OF inv] by (metis diff_zero)+
    then have "j = i"
      using in_payload_unique i inv by (auto simp: pool_inv_def pool_inv_except_def)
    with Some a show ?thesis by (simp add: find_block_for_ptr_def)
  qed
qed

section \<open>Runs of a publisher among readers\<close>

text \<open>
  One step: an operation of the pool on Linux, a reader of some header acquiring or releasing
  its lease, a relay refreshing a timestamp, somebody writing payload bytes, or the clock
  taking another course.  Readers release only leases that are held.
\<close>

type_synonym 'b pool_state = "'b SharedBufferMemoryPool \<times> kernel"

inductive pool_step :: "linux_broker pool_state \<Rightarrow> linux_broker pool_state \<Rightarrow> bool" where
  step_allocate: "linux_good env k (kSharedBufferPayloadOffset + sz) \<Longrightarrow>
    allocate (linux_create_platform_mapping env) sz p k = (r, p', k') \<Longrightarrow> pool_step (p, k) (p', k')"
| step_free: "i < length (all_blocks p) \<Longrightarrow> pool_step (p, k) (pool_free (Some i) p, k)"
| step_assign_uid: "i < length (all_blocks p) \<Longrightarrow> assign_uid (Some i) p = (uid, p') \<Longrightarrow>
    pool_step (p, k) (p', k)"
| step_register: "i < length (all_blocks p) \<Longrightarrow>
    register_block_for_ipc (linux_register_block benv) (Some i) p k = (r, p', k') \<Longrightarrow> pool_step (p, k) (p', k')"
| step_publish: "i < length (all_blocks p) \<Longrightarrow> pool_step (p, k) (p, mark_published (Some i) p k)"
| step_refresh: "pool_step (p, k) (p, refresh_publish_timestamp (Some c) k)"
| step_reader: "try_acquire_shared_buffer_reader (Some c) (hdr k) = (ok, m) \<Longrightarrow>
    pool_step (p, k) (p, k\<lparr>hdr := m\<rparr>)"
| step_reader_done: "reader_lock_of (reader_state (hdr k c)) = Readers (Suc n) \<Longrightarrow>
    pool_step (p, k) (p, k\<lparr>hdr := release_shared_buffer_reader (Some c) (hdr k)\<rparr>)"
| step_write: "length bytes = length (pay k c) \<Longrightarrow> pool_step (p, k) (p, k\<lparr>pay := (pay k)(c := bytes)\<rparr>)"
| step_time: "pool_step (p, k) (p, k\<lparr>clock := cl\<rparr>)"

inductive pool_reachable :: "linux_broker pool_state \<Rightarrow> bool" where
  start: "pool_reachable (new_pool rng br, k)"
| step: "pool_reachable s \<Longrightarrow> pool_step s t \<Longrightarrow> pool_reachable t"

lemma pool_inv_write:
  assumes "pool_inv p k" and "length bytes = length (pay k c)"
  shows "pool_inv p (k\<lparr>pay := (pay k)(c := bytes)\<rparr>)"
proof -
  let ?k = "k\<lparr>pay := (pay k)(c := bytes)\<rparr>"
  have "block_ok ?k b = block_ok k b" "block_lock ?k b = block_lock k b" for b
    using assms(2) by (auto simp: block_ok_def block_lock_def split: option.splits)
  with assms(1) show ?thesis by (simp add: pool_inv_def pool_inv_except_def)
qed

lemma pool_inv_headers:
  assumes "pool_inv p k" and "\<And>c. reader_lock_of (reader_state (m c)) = Claimed \<Longrightarrow>
      reader_lock_of (reader_state (hdr k c)) = Claimed"
    and "same_layout k (k\<lparr>hdr := m\<rparr>)"
  shows "pool_inv p (k\<lparr>hdr := m\<rparr>)"
proof -
  have "block_lock (k\<lparr>hdr := m\<rparr>) b = Claimed \<Longrightarrow> block_lock k b = Claimed" for b
    using assms(2) by (auto simp: block_lock_def split: option.splits)
  then show ?thesis
    using assms(1) block_ok_same_layout [OF assms(3)] by (auto simp: pool_inv_def pool_inv_except_def)
qed

lemma acquire_keeps_open:
  assumes "reader_lock_of (reader_state (snd (try_acquire_shared_buffer_reader (Some c) m) d)) = Claimed"
  shows "reader_lock_of (reader_state (m d)) = Claimed"
proof (cases "d = c \<and> fst (try_acquire_shared_buffer_reader (Some c) m)")
  case True
  then obtain n where "reader_lock_of (reader_state (m c)) = Readers n" "n < max_readers"
    using header.acquire_iff by blast
  from header.acquired [of m c, OF this] assms True show ?thesis by simp
next
  case False
  then show ?thesis using assms header.failed_acquire [of c m] by (cases "d = c") simp_all
qed

lemma release_keeps_open:
  assumes "reader_lock_of (reader_state (m c)) = Readers (Suc n)"
    and "reader_lock_of (reader_state (release_shared_buffer_reader (Some c) m d)) = Claimed"
  shows "reader_lock_of (reader_state (m d)) = Claimed"
  using header.release_reader [of m c, OF assms(1)] assms by (cases "d = c") simp_all

lemma assign_uid_inv:
  assumes inv: "pool_inv p k" and i: "i < length (all_blocks p)" and u: "assign_uid (Some i) p = (uid, p')"
  shows "pool_inv p' k \<and> uid \<noteq> 0"
proof (cases "current_uid (all_blocks p ! i) = 0")
  case False
  have "control (all_blocks p ! i) \<noteq> None" using pool_inv_block [OF inv i] block_ok_control by fastforce
  then show ?thesis using assign_uid_frame [OF u False] inv False by simp
next
  case True
  obtain c where c: "control (all_blocks p ! i) = Some c"
    using pool_inv_block [OF inv i] block_ok_control by blast
  let ?f = "\<lambda>b. b\<lparr>current_uid := fresh_uid (uid_rng p 0)\<rparr>"
  from u True c have uid: "uid = fresh_uid (uid_rng p 0)"
    and ab: "all_blocks p' = (all_blocks p)[i := ?f (all_blocks p ! i)]" and fb: "free_blocks p' = free_blocks p"
    by (auto simp: assign_uid_def Let_def draw_uid_eq fresh_uid_def update_block_def)
  have "pool_inv p' k"
    by (rule pool_inv_update_block [where ?f = ?f, OF inv ab fb memory_kept_refl]) simp
  then show ?thesis using uid by simp
qed

lemma pool_step_inv: "pool_step s t \<Longrightarrow> pool_inv (fst s) (snd s) \<Longrightarrow> pool_inv (fst t) (snd t)"
proof (induction rule: pool_step.induct)
  case (step_allocate env k sz p r p' k')
  then show ?case
    by (cases r) (auto dest: linux.allocate_failure linux.allocate_success)
next
  case (step_register i p benv k r p' k')
  then show ?case using linux_broker.register_block_for_ipc_inv [of p k i benv r p' k'] by simp
next
  case (step_refresh p k c)
  then show ?case unfolding pool_inv_def fst_conv snd_conv
    by (rule pool_inv_layout [OF _ refresh_layout]) (simp add: refresh_lock)
next
  case (step_reader c k ok m p)
  then have m: "m = snd (try_acquire_shared_buffer_reader (Some c) (hdr k))" by simp
  show ?case unfolding m fst_conv snd_conv
  proof (rule pool_inv_headers)
    show "pool_inv p k" using step_reader by simp
  qed (auto simp: same_layout_def intro: acquire_keeps_open)
next
  case (step_reader_done k c n p)
  show ?case unfolding fst_conv snd_conv
  proof (rule pool_inv_headers)
    show "pool_inv p k" using step_reader_done by simp
  qed (auto simp: same_layout_def intro: release_keeps_open [of "hdr k" c, OF step_reader_done(1)])
next
  case (step_time p k cl)
  then show ?case unfolding pool_inv_def fst_conv snd_conv
    by (rule pool_inv_layout) (auto simp: same_layout_def block_lock_def split: option.splits)
next
  case (step_assign_uid i p uid p' k)
  then show ?case using assign_uid_inv [of p k i uid p'] by simp
qed (simp_all add: pool_free_inv mark_published_inv pool_inv_write)

lemma pool_reachable_inv: "pool_reachable s \<Longrightarrow> pool_inv (fst s) (snd s)"
proof (induction rule: pool_reachable.induct)
  case (start rng br k)
  show ?case by (simp add: pool_inv_new)
next
  case (step s t)
  then show ?case using pool_step_inv by blast
qed

section \<open>A concrete publisher\<close>

text \<open>An empty kernel and the outcomes of the system calls for one mapping, for the witnesses.\<close>

definition empty_kernel :: kernel where
  "empty_kernel = \<lparr>vm = (\<lambda>_. None), fds = (\<lambda>_. None), osize = (\<lambda>_. 0), hdr = (\<lambda>_. zero_header),
     pay = (\<lambda>_. []), next_oid = 0, names = (\<lambda>_. None), socket_files = (\<lambda>_. None), refs = (\<lambda>_. 0),
     clock = (\<lambda>n. 5000000)\<rparr>"

definition sample_env :: linux_create_env where
  "sample_env = \<lparr>memfd_result = 7, ftruncate_ok = True, mmap_result = Some 0x7F0000000000, errno_text = ''''\<rparr>"

definition sample_pool :: "linux_broker SharedBufferMemoryPool" where
  "sample_pool = new_pool (\<lambda>n. 41 + of_nat n) sample_broker"

lemma sample_good: "linux_good sample_env empty_kernel sz" if "unat sz < 2 ^ 32"
  using that by (simp add: linux_good_def sample_env_def empty_kernel_def range_free_def)

definition sample_pool1 :: "linux_broker SharedBufferMemoryPool" where
  "sample_pool1 =
     \<lparr>initialized = True, ipc_capable = True, next_block_id = 1, uid_rng = (\<lambda>n. 41 + of_nat (Suc (Suc n))),
      free_blocks = (\<lambda>_. None),
      all_blocks = [\<lparr>native_handle = 7, mapping = 0x7F0000000000, mapped_size = 68, block_payload_size = 4,
        block_id = 0, control = Some 0, current_uid = 42, socket_path = '''', in_use = True\<rparr>],
      broker = Some sample_broker\<rparr>"

definition sample_kernel1 :: kernel where
  "sample_kernel1 = empty_kernel\<lparr>vm := [0x7F0000000000 \<mapsto> 0], fds := [7 \<mapsto> Memory 0],
     osize := (\<lambda>_. 0)(0 := 68), hdr := (\<lambda>_. zero_header)(0 := default_control_header\<lparr>payload_size := 4\<rparr>),
     pay := (\<lambda>_. [])(0 := [0, 0, 0, 0]), next_oid := 1, refs := (\<lambda>_. 0)(0 := Suc (Suc 0))\<rparr>"

lemma replicate_4: "replicate 4 x = [x, x, x, x]"
  by (simp add: eval_nat_numeral)

lemma sample_alloc:
  "allocate (linux_create_platform_mapping sample_env) 4 sample_pool empty_kernel =
     (Inr 0, sample_pool1, sample_kernel1)"
  by (simp add: allocate_def sample_pool_def new_pool_def bucket_def create_block_def
      draw_uid_def linux_create_platform_mapping_def sample_env_def off_t_max_def empty_kernel_def
      kSharedBufferPayloadOffset_def Let_def sys_new_object_def set_object_size_def sys_map_def
      update_control_def default_control_header_def reserve_block_def update_block_def
      release_shared_buffer_reuse_claim_def sample_pool1_def sample_kernel1_def replicate_4)

lemma sample_pool1_reachable: "pool_reachable (sample_pool1, sample_kernel1)"
proof (rule pool_reachable.step [OF pool_reachable.start])
  show "pool_step (new_pool (\<lambda>n. 41 + of_nat n) sample_broker, empty_kernel) (sample_pool1, sample_kernel1)"
    by (rule step_allocate [of sample_env _ 4])
      (simp_all add: sample_good kSharedBufferPayloadOffset_def sample_alloc [unfolded sample_pool_def])
qed

text \<open>Allocating again from a bucket that holds one idle, unpublished block.\<close>

lemma reserve_block_frame:
  assumes "reserve_block i p k = (p', k')"
  shows "length (all_blocks p') = length (all_blocks p) \<and> mapping (all_blocks p' ! j) = mapping (all_blocks p ! j)"
proof -
  from assms obtain u where "all_blocks p' = (all_blocks p)[i := (all_blocks p ! i)\<lparr>in_use := True, current_uid := u\<rparr>]"
    by (auto simp: reserve_block_def Let_def draw_uid_def update_block_def)
  then show ?thesis by (cases "i < length (all_blocks p)") (simp_all add: nth_list_update list_update_beyond)
qed

lemma allocate_single_candidate:
  assumes "sz \<noteq> 0" and "bucket p sz = [i]" and "control (all_blocks p ! i) = Some c"
    and "reader_state (hdr k c) = 0" and "publish_timestamp_us (hdr k c) = 0"
  shows "\<exists>p' k'. allocate create sz p k = (Inr i, p', k') \<and> length (all_blocks p') = length (all_blocks p) \<and>
    mapping (all_blocks p' ! i) = mapping (all_blocks p ! i)"
proof -
  obtain k1 where "claim_candidate p [i] 0 k = (Some 0, k1)"
    using assms by (simp add: try_claim_block_def try_claim_shared_buffer_reuse_def)
  then have cl: "claim_candidate p (bucket p sz) 0 k = (Some 0, k1)" by (simp add: assms(2))
  obtain p2 k2 where rb: "reserve_block (bucket p sz ! 0) (take_candidate sz (bucket p sz) 0 p) k1 = (p2, k2)"
    by (cases "reserve_block (bucket p sz ! 0) (take_candidate sz (bucket p sz) 0 p) k1")
  moreover have "length (all_blocks p2) = length (all_blocks p)" "mapping (all_blocks p2 ! i) = mapping (all_blocks p ! i)"
    using reserve_block_frame [OF rb] by (simp_all add: assms(2))
  moreover from allocate_claimed [OF assms(1) cl rb] have "allocate create sz p k = (Inr i, p2, k2)" by (simp add: assms(2))
  ultimately show ?thesis by blast
qed

section \<open>Properties\<close>

text \<open>
  C15: in every run of a Linux publisher among readers, relays and passing time, every block of
  the pool stays a live, well-formed mapping, no two blocks share memory or a header, the free
  lists hold exactly the unused blocks in the bucket of their size, and no block is left
  claimed.
\<close>

theorem pool_invariant_reachable:
  assumes "pool_reachable (p, k)"
  shows "pool_inv p k"
  using pool_reachable_inv [OF assms] by simp

theorem pool_invariant_reachable_witness: "pool_inv sample_pool1 sample_kernel1"
  by (rule pool_invariant_reachable [OF sample_pool1_reachable])

text \<open>
  C12: a successful \<^verbatim>\<open>allocate\<close> hands out a block of exactly the requested payload size that
  nobody else has: a newly created one, or one that was free, has no reader in any process
  and was last published at least 100 ms ago (or never).  The block starts a new generation:
  non-zero UID reserved, header UID and timestamp cleared, no readers, claim released; all
  other blocks are untouched.  A new block is created only if no candidate could be claimed.
\<close>

theorem allocate_hands_out_idle_block:
  assumes "pool_reachable (p, k)" and "linux_good env k (kSharedBufferPayloadOffset + sz)"
    and "allocate (linux_create_platform_mapping env) sz p k = (Inr i, p', k')"
  shows "i < length (all_blocks p') \<and> in_use (all_blocks p' ! i) \<and>
    block_payload_size (all_blocks p' ! i) = sz \<and> current_uid (all_blocks p' ! i) \<noteq> 0 \<and>
    (\<exists>c. control (all_blocks p' ! i) = Some c \<and> ipc_uid (hdr k' c) = 0 \<and>
       publish_timestamp_us (hdr k' c) = 0 \<and> reader_state (hdr k' c) = 0) \<and>
    (\<forall>j < length (all_blocks p). j \<noteq> i \<longrightarrow> all_blocks p' ! j = all_blocks p ! j) \<and>
    (i = length (all_blocks p) \<and>
       (\<forall>b \<in> set (bucket p sz). \<forall>c. control (all_blocks p ! b) = Some c \<longrightarrow> reader_state (hdr k c) \<noteq> 0 \<or>
          publish_timestamp_us (hdr k c) \<noteq> 0 \<and>
          (\<exists>n. unat (clock k n) < unat (publish_timestamp_us (hdr k c)) + 100000)) \<or>
     i < length (all_blocks p) \<and> \<not> in_use (all_blocks p ! i) \<and>
       (\<exists>c n. control (all_blocks p ! i) = Some c \<and> reader_state (hdr k c) = 0 \<and>
          (publish_timestamp_us (hdr k c) = 0 \<or>
           unat (publish_timestamp_us (hdr k c)) + 100000 \<le> unat (clock k n))))"
proof -
  have inv: "pool_inv p k" using pool_reachable_inv [OF assms(1)] by simp
  show ?thesis
    using linux.allocate_success [OF inv assms(2,3)]
    unfolding reusable_at_nat not_le [symmetric] by blast
qed

theorem allocate_hands_out_idle_block_witness:
  "in_use (all_blocks sample_pool1 ! 0) \<and> current_uid (all_blocks sample_pool1 ! 0) \<noteq> 0"
  using allocate_hands_out_idle_block
    [OF pool_reachable.start sample_good sample_alloc [unfolded sample_pool_def]]
  by (simp add: kSharedBufferPayloadOffset_def)

text \<open>
  An \<^verbatim>\<open>allocate\<close> that throws (zero size, size overflow, or a failing system call) leaves the
  blocks and free lists as they were, the invariant intact, and neither a mapping nor an open
  descriptor behind.
\<close>

theorem allocate_failure_leaves_nothing:
  assumes "pool_reachable (p, k)" and "linux_good env k (kSharedBufferPayloadOffset + sz)"
    and "allocate (linux_create_platform_mapping env) sz p k = (Inl e, p', k')"
  shows "pool_inv p' k' \<and> all_blocks p' = all_blocks p \<and> free_blocks p' = free_blocks p \<and>
    vm k' = vm k \<and> fds k' = fds k"
proof -
  have inv: "pool_inv p k" using pool_reachable_inv [OF assms(1)] by simp
  show ?thesis using linux.allocate_failure [OF inv assms(2,3)] by simp
qed

theorem allocate_failure_leaves_nothing_witness:
  "\<exists>e p' k'. allocate (linux_create_platform_mapping (sample_env\<lparr>mmap_result := None\<rparr>)) 4 sample_pool empty_kernel =
      (Inl e, p', k') \<and> all_blocks p' = all_blocks sample_pool \<and> fds k' = fds empty_kernel"
proof -
  let ?env = "sample_env\<lparr>mmap_result := None\<rparr>"
  have good: "linux_good ?env empty_kernel (kSharedBufferPayloadOffset + 4)"
    by (simp add: linux_good_def sample_env_def empty_kernel_def)
  obtain e p' k' where al: "allocate (linux_create_platform_mapping ?env) 4 sample_pool empty_kernel = (Inl e, p', k')"
    by (simp add: allocate_def sample_pool_def new_pool_def bucket_def create_block_def draw_uid_def
        linux_create_platform_mapping_def sample_env_def off_t_max_def kSharedBufferPayloadOffset_def Let_def)
  show ?thesis
    using allocate_failure_leaves_nothing [OF pool_reachable.start good al [unfolded sample_pool_def]] al
    by (auto simp: sample_pool_def)
qed

text \<open>
  \<^verbatim>\<open>find_block_for_ptr\<close> is exact: it returns a block if and only if the pointer lies in
  that block's payload, and since payloads do not overlap the block is unique; the address
  arithmetic of the source does not wrap.
\<close>

theorem find_block_for_ptr_exact:
  assumes "pool_reachable (p, k)"
  shows "find_block_for_ptr a p = Some i \<longleftrightarrow>
    i < length (all_blocks p) \<and> unat (mapping (all_blocks p ! i)) + 64 \<le> unat a \<and>
    unat a < unat (mapping (all_blocks p ! i)) + 64 + unat (block_payload_size (all_blocks p ! i))"
proof -
  have inv: "pool_inv p k" using pool_reachable_inv [OF assms] by simp
  have "unat (mapped_size (all_blocks p ! i)) = 64 + unat (block_payload_size (all_blocks p ! i))"
    if "i < length (all_blocks p)"
    using pool_inv_block [OF inv that] by (simp add: block_ok_def)
  then show ?thesis using find_block_for_ptr_iff [OF inv, of a i] by (auto simp: in_payload_def)
qed

theorem find_block_for_ptr_exact_witness:
  "find_block_for_ptr 0x7F0000000043 sample_pool1 = Some 0 \<and> find_block_for_ptr 0x7F0000000044 sample_pool1 \<noteq> Some 0"
  using find_block_for_ptr_exact [OF sample_pool1_reachable, of "0x7F0000000043" 0]
    find_block_for_ptr_exact [OF sample_pool1_reachable, of "0x7F0000000044" 0]
  by (simp add: sample_pool1_def)



end
