(* ===== verification/Handles.thy ===== *)
theory Handles
  imports Pool_Run
begin

text \<open>
  Buffers and access handles: \<^verbatim>\<open>shared_buffer_handle.hpp\<close>, \<^verbatim>\<open>shared_buffer.hpp\<close> and
  \<^verbatim>\<open>shared_buffer.cpp\<close>.

  A process is a \<open>world\<close>: the kernel, the global memory pool, and a store of the \<^verbatim>\<open>HandleState\<close>
  objects that buffers and their handles share (\<^verbatim>\<open>shared_ptr<HandleState>\<close> is an \<open>nat option\<close>).
  A \<^verbatim>\<open>shared_ptr<void>\<close> made by \<^verbatim>\<open>make_lease\<close> is the control header its deleter will release.  The
  deleters the code stores in a buffer are a datatype with an interpreter.  \<open>owner\<close> is the
  imported block an imported buffer keeps alive; the import cache never drops a block it has
  handed out, so resetting an owner has no effect on the kernel.  Moving from an object and
  destroying it are functions that return the object left behind.
\<close>

section \<open>State\<close>

datatype handle_access = Unset | InUse | Finalized

record HandleState =
  access :: handle_access
  active_readers :: nat

datatype deleter_fn = Empty_function | No_op | Free_block block_ptr | Release_reader "oid option"

record SharedBuffer =
  data_ptr :: u64
  buffer_size :: u64
  deleter :: deleter_fn
  buffer_control :: "oid option"
  owner :: "nat option"
  held_reader_lease :: "oid option"
  handle_state :: "nat option"
  buffer_block_id :: u32
  buffer_mapped_size :: u64
  writable :: bool
  ipc_pid :: int
  ipc_name :: string
  buffer_ipc_uid :: u64

definition empty_buffer :: SharedBuffer where
  "empty_buffer = \<lparr>data_ptr = 0, buffer_size = 0, deleter = Empty_function, buffer_control = None, owner = None,
     held_reader_lease = None, handle_state = None, buffer_block_id = 0, buffer_mapped_size = 0, writable = True,
     ipc_pid = 0, ipc_name = '''', buffer_ipc_uid = 0\<rparr>"

definition has_ipc_descriptor :: "SharedBuffer \<Rightarrow> bool" where
  "has_ipc_descriptor sb \<longleftrightarrow> ipc_pid sb > 0 \<and> ipc_name sb \<noteq> '''' \<and> buffer_ipc_uid sb \<noteq> 0"

record ReadHandle =
  read_ptr :: u64
  read_state :: "nat option"
  reader_lease :: "oid option"
  read_owner :: "nat option"
  read_promoted :: "SharedBuffer option"

record WriteHandle =
  write_ptr :: u64
  write_state :: "nat option"
  write_owner :: "nat option"
  write_promoted :: "SharedBuffer option"

record 'b world =
  kern :: kernel
  pool :: "'b SharedBufferMemoryPool"
  states :: "nat \<Rightarrow> HandleState"
  next_state :: nat

text \<open>The handles' constructors, and the buffer a read handle of the API keeps alive.\<close>

definition new_read_handle :: "u64 \<Rightarrow> oid option \<Rightarrow> nat option \<Rightarrow> nat option \<Rightarrow> ReadHandle" where
  [simp]: "new_read_handle ptr lease own st =
     \<lparr>read_ptr = ptr, read_state = st, reader_lease = lease, read_owner = own, read_promoted = None\<rparr>"

definition new_write_handle :: "u64 \<Rightarrow> nat option \<Rightarrow> nat option \<Rightarrow> WriteHandle" where
  [simp]: "new_write_handle ptr st own =
     \<lparr>write_ptr = ptr, write_state = st, write_owner = own, write_promoted = None\<rparr>"

definition set_promoted_buffer :: "SharedBuffer \<Rightarrow> ReadHandle \<Rightarrow> ReadHandle" where
  [simp]: "set_promoted_buffer sb rh = rh\<lparr>read_promoted := Some sb\<rparr>"

section \<open>Leases and deleters\<close>

definition make_lease :: "oid option \<Rightarrow> 'b world \<Rightarrow> (cpp_error + oid option) \<times> 'b world" where
  "make_lease ctl w =
     (case ctl of
        None \<Rightarrow> (Inr None, w)
      | Some c \<Rightarrow>
          (let (ok, m) = try_acquire_shared_buffer_reader (Some c) (hdr (kern w))
           in if \<not> ok then (Inl (Runtime_error ''shared buffer block is being reused''), w)
              else (Inr (Some c), w\<lparr>kern := (kern w)\<lparr>hdr := m\<rparr>\<rparr>)))"

definition drop_lease :: "oid option \<Rightarrow> 'b world \<Rightarrow> 'b world" where
  "drop_lease lease w = w\<lparr>kern := (kern w)\<lparr>hdr := release_shared_buffer_reader lease (hdr (kern w))\<rparr>\<rparr>"

definition run_deleter :: "deleter_fn \<Rightarrow> 'b world \<Rightarrow> 'b world" where
  "run_deleter d w =
     (case d of
        Empty_function \<Rightarrow> w
      | No_op \<Rightarrow> w
      | Free_block block \<Rightarrow> w\<lparr>pool := pool_free block (pool w)\<rparr>
      | Release_reader ctl \<Rightarrow> drop_lease ctl w)"

section \<open>Shared buffers\<close>

definition shared_buffer ::
  "u64 \<Rightarrow> u64 \<Rightarrow> deleter_fn \<Rightarrow> oid option \<Rightarrow> nat option \<Rightarrow> u32 \<Rightarrow> u64 \<Rightarrow> bool \<Rightarrow> int \<Rightarrow> string \<Rightarrow> u64 \<Rightarrow>
     cpp_error + SharedBuffer" where
  "shared_buffer payload sz del ctl own blk msize wr pid name uid =
     (if payload = 0 \<and> sz \<noteq> 0 then Inl (Invalid_argument ''SharedBuffer payload must not be null'')
      else Inr \<lparr>data_ptr = payload, buffer_size = sz, deleter = (if del = Empty_function then No_op else del),
        buffer_control = ctl, owner = own, held_reader_lease = None, handle_state = None, buffer_block_id = blk,
        buffer_mapped_size = msize, writable = wr, ipc_pid = pid, ipc_name = name, buffer_ipc_uid = uid\<rparr>)"

definition reset_buffer :: "SharedBuffer \<Rightarrow> 'b world \<Rightarrow> SharedBuffer \<times> 'b world" where
  "reset_buffer sb w =
     (let w1 = drop_lease (held_reader_lease sb) w;
          w2 = (if data_ptr sb \<noteq> 0 \<and> deleter sb \<noteq> Empty_function then run_deleter (deleter sb) w1 else w1)
      in (sb\<lparr>held_reader_lease := None, handle_state := None, owner := None, data_ptr := 0, buffer_size := 0,
             buffer_control := None, buffer_block_id := 0, buffer_mapped_size := 0, writable := True, ipc_pid := 0,
             ipc_name := '''', buffer_ipc_uid := 0, deleter := Empty_function\<rparr>, w2))"

text \<open>The object left behind by a move: smart pointers and the function are empty.\<close>

definition moved_from :: "SharedBuffer \<Rightarrow> SharedBuffer" where
  "moved_from sb =
     sb\<lparr>data_ptr := 0, buffer_size := 0, deleter := Empty_function, buffer_control := None, owner := None,
        held_reader_lease := None, handle_state := None, buffer_block_id := 0, buffer_mapped_size := 0,
        writable := True, ipc_pid := 0, ipc_name := '''', buffer_ipc_uid := 0\<rparr>"

definition move_buffer :: "SharedBuffer \<Rightarrow> SharedBuffer \<times> SharedBuffer" where
  "move_buffer other =
     (\<lparr>data_ptr = data_ptr other, buffer_size = buffer_size other, deleter = deleter other,
       buffer_control = buffer_control other, owner = owner other, held_reader_lease = held_reader_lease other,
       handle_state = handle_state other, buffer_block_id = buffer_block_id other,
       buffer_mapped_size = buffer_mapped_size other, writable = writable other, ipc_pid = ipc_pid other,
       ipc_name = ipc_name other, buffer_ipc_uid = buffer_ipc_uid other\<rparr>, moved_from other)"

text \<open>\<^verbatim>\<open>this = std::move(other)\<close> for two objects; self-assignment does nothing.\<close>

definition move_assign_buffer ::
  "bool \<Rightarrow> SharedBuffer \<Rightarrow> SharedBuffer \<Rightarrow> 'b world \<Rightarrow> SharedBuffer \<times> SharedBuffer \<times> 'b world" where
  "move_assign_buffer same this other w =
     (if same then (this, other, w)
      else (let (_, w1) = reset_buffer this w; (new, other') = move_buffer other in (new, other', w1)))"

text \<open>\<^verbatim>\<open>make_shared<HandleState>()\<close> on first use.\<close>

definition ensure_state :: "SharedBuffer \<Rightarrow> 'b world \<Rightarrow> nat \<times> SharedBuffer \<times> 'b world" where
  "ensure_state sb w =
     (case handle_state sb of
        Some s \<Rightarrow> (s, sb, w)
      | None \<Rightarrow>
          (let s = next_state w
           in (s, sb\<lparr>handle_state := Some s\<rparr>,
               w\<lparr>states := (states w)(s := \<lparr>access = Unset, active_readers = 0\<rparr>), next_state := Suc s\<rparr>)))"

definition update_state :: "nat \<Rightarrow> (HandleState \<Rightarrow> HandleState) \<Rightarrow> 'b world \<Rightarrow> 'b world" where
  "update_state s f w = w\<lparr>states := (states w)(s := f (states w s))\<rparr>"

definition leave_reader :: "HandleState \<Rightarrow> HandleState" where
  "leave_reader h = (if active_readers h > 0 then h\<lparr>active_readers := active_readers h - 1\<rparr> else h)"

definition get_read_handle :: "SharedBuffer \<Rightarrow> 'b world \<Rightarrow> (cpp_error + ReadHandle) \<times> SharedBuffer \<times> 'b world" where
  "get_read_handle sb w =
     (let (s, sb1, w1) = ensure_state sb w in
      if access (states w1 s) = InUse
      then (Inl (Runtime_error ''cannot acquire a read handle while writing''), sb1, w1)
      else
        (let w2 = update_state s (\<lambda>h. h\<lparr>active_readers := active_readers h + 1\<rparr>) w1 in
         case make_lease (buffer_control sb1) w2 of
           (Inl e, w3) \<Rightarrow> (Inl e, sb1, update_state s leave_reader w3)
         | (Inr lease, w3) \<Rightarrow>
             (Inr (new_read_handle (data_ptr sb1) lease (owner sb1) (Some s)), sb1, w3)))"

definition get_write_handle :: "SharedBuffer \<Rightarrow> 'b world \<Rightarrow> (cpp_error + WriteHandle) \<times> SharedBuffer \<times> 'b world" where
  "get_write_handle sb w =
     (if \<not> writable sb
      then (Inl (Runtime_error ''cannot acquire a write handle for a read-only shared buffer''), sb, w)
      else if data_ptr sb = 0 \<or> buffer_size sb = 0
      then (Inl (Runtime_error ''cannot acquire a write handle for an empty shared buffer''), sb, w)
      else
        (let (s, sb1, w1) = ensure_state sb w; h = states w1 s in
         if access h = InUse
         then (Inl (Runtime_error ''shared buffer write handle already in use''), sb1, w1)
         else if access h = Finalized
         then (Inl (Runtime_error ''shared buffer write has already been finalized''), sb1, w1)
         else if active_readers h \<noteq> 0
         then (Inl (Runtime_error ''shared buffer read handle already in use''), sb1, w1)
         else
           (Inr (new_write_handle (data_ptr sb1) (Some s) (owner sb1)), sb1, update_state s (\<lambda>h. h\<lparr>access := InUse\<rparr>) w1)))"

definition finalize_write_handle :: "SharedBuffer \<Rightarrow> 'b world \<Rightarrow> 'b world" where
  "finalize_write_handle sb w =
     (case handle_state sb of
        None \<Rightarrow> w
      | Some s \<Rightarrow> update_state s (\<lambda>h. if access h = InUse then h\<lparr>access := Finalized\<rparr> else h) w)"

definition hold_reader_reference :: "SharedBuffer \<Rightarrow> 'b world \<Rightarrow> (cpp_error + unit) \<times> SharedBuffer \<times> 'b world" where
  "hold_reader_reference sb w =
     (if held_reader_lease sb \<noteq> None then (Inr (), sb, w)
      else case make_lease (buffer_control sb) w of
             (Inl e, w1) \<Rightarrow> (Inl e, sb, w1)
           | (Inr lease, w1) \<Rightarrow> (Inr (), sb\<lparr>held_reader_lease := lease\<rparr>, w1))"

section \<open>Handles\<close>

definition drop_promoted :: "SharedBuffer option \<Rightarrow> 'b world \<Rightarrow> 'b world" where
  "drop_promoted pb w = (case pb of None \<Rightarrow> w | Some sb \<Rightarrow> snd (reset_buffer sb w))"

definition release_read_handle :: "ReadHandle \<Rightarrow> 'b world \<Rightarrow> ReadHandle \<times> 'b world" where
  "release_read_handle rh w =
     (let w1 = (case read_state rh of None \<Rightarrow> w | Some s \<Rightarrow> update_state s leave_reader w);
          w2 = drop_promoted (read_promoted rh) (drop_lease (reader_lease rh) w1)
      in (rh\<lparr>read_state := None, reader_lease := None, read_owner := None, read_promoted := None, read_ptr := 0\<rparr>, w2))"

definition move_read_handle :: "ReadHandle \<Rightarrow> ReadHandle \<times> ReadHandle" where
  "move_read_handle other =
     (other, other\<lparr>read_state := None, reader_lease := None, read_owner := None, read_promoted := None, read_ptr := 0\<rparr>)"

definition move_assign_read_handle ::
  "bool \<Rightarrow> ReadHandle \<Rightarrow> ReadHandle \<Rightarrow> 'b world \<Rightarrow> ReadHandle \<times> ReadHandle \<times> 'b world" where
  "move_assign_read_handle same this other w =
     (if same then (this, other, w)
      else (let (_, w1) = release_read_handle this w; (new, other') = move_read_handle other in (new, other', w1)))"

text \<open>Unlike a read handle, a write handle keeps its \<^verbatim>\<open>state_\<close> after \<^verbatim>\<open>release\<close>.\<close>

definition release_write_handle :: "WriteHandle \<Rightarrow> 'b world \<Rightarrow> WriteHandle \<times> 'b world" where
  "release_write_handle wh w =
     (let w1 = (case write_state wh of None \<Rightarrow> w | Some s \<Rightarrow> update_state s (\<lambda>h. h\<lparr>access := Finalized\<rparr>) w);
          w2 = drop_promoted (write_promoted wh) w1
      in (wh\<lparr>write_promoted := None, write_owner := None, write_ptr := 0\<rparr>, w2))"

definition move_write_handle :: "WriteHandle \<Rightarrow> WriteHandle \<times> WriteHandle" where
  "move_write_handle other =
     (other, other\<lparr>write_state := None, write_owner := None, write_promoted := None, write_ptr := 0\<rparr>)"

definition move_assign_write_handle ::
  "bool \<Rightarrow> WriteHandle \<Rightarrow> WriteHandle \<Rightarrow> 'b world \<Rightarrow> WriteHandle \<times> WriteHandle \<times> 'b world" where
  "move_assign_write_handle same this other w =
     (if same then (this, other, w)
      else (let (_, w1) = release_write_handle this w; (new, other') = move_write_handle other in (new, other', w1)))"

end
