(* ===== verification/Handle_Session.thy ===== *)
theory Handle_Session
  imports Handles
begin

text \<open>
  Sessions on one buffer: any sequence of acquiring, releasing and finalising handles, holding
  the reader reference, moving the buffer, and other processes' readers coming and going.  The
  invariant ties the local \<^verbatim>\<open>HandleState\<close> and the header's reader count to the handles that are
  alive.  It gives exclusion (a writer excludes every local reader and every other writer) and
  balance (each live handle holds exactly one lease).
\<close>

section \<open>Frame lemmas\<close>

lemma update_state_frame [buffer_simps]:
  "kern (update_state s f w) = kern w" "pool (update_state s f w) = pool w" "next_state (update_state s f w) = next_state w"
  "states (update_state s f w) t = (if t = s then f (states w s) else states w t)"
  by (simp_all add: update_state_def)

lemma drop_lease_frame [buffer_simps]:
  "states (drop_lease l w) = states w" "pool (drop_lease l w) = pool w" "next_state (drop_lease l w) = next_state w"
  "hdr (kern (drop_lease l w)) = release_shared_buffer_reader l (hdr (kern w))"
  by (simp_all add: drop_lease_def)

lemma drop_lease_None [simp]: "drop_lease None w = w"
  by (simp add: drop_lease_def release_shared_buffer_reader_def)

lemma make_lease_None [simp]: "make_lease None w = (Inr None, w)"
  by (simp add: make_lease_def)

lemma make_lease_Some:
  "make_lease (Some c) w =
     (if fst (try_acquire_shared_buffer_reader (Some c) (hdr (kern w)))
      then (Inr (Some c), w\<lparr>kern := (kern w)\<lparr>hdr := snd (try_acquire_shared_buffer_reader (Some c) (hdr (kern w)))\<rparr>\<rparr>)
      else (Inl (Runtime_error ''shared buffer block is being reused''), w))"
  by (simp add: make_lease_def split: prod.splits)

lemma make_lease_cases:
  assumes "make_lease ctl w = (r, w')"
  shows "states w' = states w \<and> next_state w' = next_state w \<and> pool w' = pool w \<and>
    (case r of Inl e \<Rightarrow> w' = w \<and> ctl \<noteq> None | Inr l \<Rightarrow> l = ctl)"
  using assms by (cases ctl) (auto simp: make_lease_Some split: if_splits)

lemma ensure_state_cases:
  assumes "ensure_state sb w = (s, sb', w')"
  shows "sb' = sb\<lparr>handle_state := Some s\<rparr> \<and> kern w' = kern w \<and> pool w' = pool w \<and>
    (case handle_state sb of
       Some t \<Rightarrow> s = t \<and> w' = w
     | None \<Rightarrow> s = next_state w \<and> states w' s = \<lparr>access = Unset, active_readers = 0\<rparr> \<and>
         next_state w' = Suc s \<and> (\<forall>t. t \<noteq> s \<longrightarrow> states w' t = states w t))"
  using assms by (cases sb) (auto simp: ensure_state_def Let_def split: option.splits)

section \<open>Sessions\<close>

record 'b session =
  others :: nat                     \<comment> \<open>readers of the header that do not belong to the session\<close>
  buffer :: SharedBuffer
  read_handles :: "ReadHandle list"
  write_handles :: "WriteHandle list"
  world :: "'b world"

definition remove_nth :: "nat \<Rightarrow> 'a list \<Rightarrow> 'a list" where
  "remove_nth i xs = take i xs @ drop (Suc i) xs"

definition holds :: "SharedBuffer \<Rightarrow> nat" where
  "holds sb = (if held_reader_lease sb = None then 0 else 1)"

inductive session_step :: "'b session \<Rightarrow> 'b session \<Rightarrow> bool" where
  session_read: "get_read_handle (buffer s) (world s) = (Inr rh, sb', w') \<Longrightarrow>
    session_step s (s\<lparr>buffer := sb', read_handles := read_handles s @ [rh], world := w'\<rparr>)"
| session_read_refused: "get_read_handle (buffer s) (world s) = (Inl e, sb', w') \<Longrightarrow>
    session_step s (s\<lparr>buffer := sb', world := w'\<rparr>)"
| session_write: "get_write_handle (buffer s) (world s) = (Inr wh, sb', w') \<Longrightarrow>
    session_step s (s\<lparr>buffer := sb', write_handles := write_handles s @ [wh], world := w'\<rparr>)"
| session_write_refused: "get_write_handle (buffer s) (world s) = (Inl e, sb', w') \<Longrightarrow>
    session_step s (s\<lparr>buffer := sb', world := w'\<rparr>)"
| session_end_read: "i < length (read_handles s) \<Longrightarrow> release_read_handle (read_handles s ! i) (world s) = (rh', w') \<Longrightarrow>
    session_step s (s\<lparr>read_handles := remove_nth i (read_handles s), world := w'\<rparr>)"
| session_end_write: "i < length (write_handles s) \<Longrightarrow> release_write_handle (write_handles s ! i) (world s) = (wh', w') \<Longrightarrow>
    session_step s (s\<lparr>write_handles := remove_nth i (write_handles s), world := w'\<rparr>)"
| session_finalize: "session_step s (s\<lparr>world := finalize_write_handle (buffer s) (world s)\<rparr>)"
| session_hold: "hold_reader_reference (buffer s) (world s) = (r, sb', w') \<Longrightarrow>
    session_step s (s\<lparr>buffer := sb', world := w'\<rparr>)"
| session_move: "move_buffer (buffer s) = (sb', old) \<Longrightarrow> session_step s (s\<lparr>buffer := sb'\<rparr>)"
| session_other_reader: "buffer_control (buffer s) = Some c \<Longrightarrow>
    try_acquire_shared_buffer_reader (Some c) (hdr (kern (world s))) = (True, m) \<Longrightarrow>
    session_step s (s\<lparr>others := Suc (others s), world := (world s)\<lparr>kern := (kern (world s))\<lparr>hdr := m\<rparr>\<rparr>\<rparr>)"
| session_other_done: "others s = Suc n \<Longrightarrow>
    session_step s (s\<lparr>others := n, world := drop_lease (buffer_control (buffer s)) (world s)\<rparr>)"

inductive session_reachable :: "'b session \<Rightarrow> 'b session \<Rightarrow> bool" for s0 where
  session_start: "session_reachable s0 s0"
| session_next: "session_reachable s0 s \<Longrightarrow> session_step s t \<Longrightarrow> session_reachable s0 t"

text \<open>A buffer just constructed, with the readers of its header that already exist.\<close>

definition session_fresh :: "'b session \<Rightarrow> bool" where
  "session_fresh s \<longleftrightarrow> read_handles s = [] \<and> write_handles s = [] \<and> handle_state (buffer s) = None \<and>
     held_reader_lease (buffer s) = None \<and>
     (\<forall>c. buffer_control (buffer s) = Some c \<longrightarrow> reader_lock_of (reader_state (hdr (kern (world s)) c)) = Readers (others s))"

section \<open>Invariant\<close>

definition access_ok :: "HandleState \<Rightarrow> nat \<Rightarrow> nat \<Rightarrow> bool" where
  "access_ok h r n \<longleftrightarrow> active_readers h = r \<and>
     (case access h of Unset \<Rightarrow> n = 0 | InUse \<Rightarrow> n = 1 \<and> r = 0 | Finalized \<Rightarrow> n \<le> 1)"

definition session_inv :: "'b session \<Rightarrow> bool" where
  "session_inv s \<longleftrightarrow>
     (case handle_state (buffer s) of
        None \<Rightarrow> read_handles s = [] \<and> write_handles s = []
      | Some t \<Rightarrow> t < next_state (world s) \<and>
          access_ok (states (world s) t) (length (read_handles s)) (length (write_handles s)) \<and>
          (\<forall>rh \<in> set (read_handles s). read_state rh = Some t \<and> reader_lease rh = buffer_control (buffer s) \<and>
             read_promoted rh = None) \<and>
          (\<forall>wh \<in> set (write_handles s). write_state wh = Some t \<and> write_promoted wh = None)) \<and>
     held_reader_lease (buffer s) \<in> {None, buffer_control (buffer s)} \<and>
     (\<forall>c. buffer_control (buffer s) = Some c \<longrightarrow>
        reader_lock_of (reader_state (hdr (kern (world s)) c)) =
          Readers (others s + length (read_handles s) + holds (buffer s)))"

lemma session_inv_fresh: "session_fresh s \<Longrightarrow> session_inv s"
  by (simp add: session_fresh_def session_inv_def holds_def)

lemma remove_nth_length [simp]: "i < length xs \<Longrightarrow> length (remove_nth i xs) = length xs - 1"
  by (simp add: remove_nth_def)

lemma remove_nth_set: "x \<in> set (remove_nth i xs) \<Longrightarrow> x \<in> set xs"
  by (auto simp: remove_nth_def dest: in_set_takeD in_set_dropD)

text \<open>What \<^verbatim>\<open>make_lease\<close> and dropping a lease do to the count of the buffer's header.\<close>

lemma make_lease_count:
  assumes "make_lease ctl w = (Inr l, w')" and "ctl = Some c"
    and "reader_lock_of (reader_state (hdr (kern w) c)) = Readers n"
  shows "reader_lock_of (reader_state (hdr (kern w') c)) = Readers (Suc n)"
proof -
  from assms(1,2) have a: "fst (try_acquire_shared_buffer_reader (Some c) (hdr (kern w)))"
    and w': "hdr (kern w') = snd (try_acquire_shared_buffer_reader (Some c) (hdr (kern w)))"
    by (auto simp: make_lease_Some split: if_splits)
  from a obtain k where "k < max_readers" "reader_lock_of (reader_state (hdr (kern w) c)) = Readers k"
    using header.acquire_iff [of c "hdr (kern w)"] by auto
  with assms(3) have "n < max_readers" by simp
  from header.acquired [of "hdr (kern w)" c, OF assms(3) this] w' show ?thesis by simp
qed

lemma drop_lease_count:
  assumes "reader_lock_of (reader_state (hdr (kern w) c)) = Readers (Suc n)"
  shows "reader_lock_of (reader_state (hdr (kern (drop_lease (Some c) w)) c)) = Readers n"
  using header.release_reader [of "hdr (kern w)" c, OF assms] by (simp add: buffer_simps)

lemma session_inv_ensure:
  assumes "session_inv s" and "ensure_state (buffer s) (world s) = (t, sb', w1)"
  shows "session_inv (s\<lparr>buffer := sb', world := w1\<rparr>) \<and> sb' = (buffer s)\<lparr>handle_state := Some t\<rparr>"
  using assms ensure_state_cases [OF assms(2)]
  by (cases "handle_state (buffer s)") (auto simp: session_inv_def access_ok_def holds_def)

lemma get_read_handle_success:
  assumes "get_read_handle sb w = (Inr rh, sb', w')"
  shows "\<exists>t w1. ensure_state sb w = (t, sb', w1) \<and> access (states w1 t) \<noteq> InUse \<and>
    make_lease (buffer_control sb') (update_state t (\<lambda>h. h\<lparr>active_readers := active_readers h + 1\<rparr>) w1) =
      (Inr (reader_lease rh), w') \<and>
    read_ptr rh = data_ptr sb' \<and> read_state rh = Some t \<and> read_owner rh = owner sb' \<and> read_promoted rh = None"
proof -
  obtain t sb1 w1 where e: "ensure_state sb w = (t, sb1, w1)" by (metis prod.exhaust)
  let ?w2 = "update_state t (\<lambda>h. h\<lparr>active_readers := active_readers h + 1\<rparr>) w1"
  obtain r w3 where m: "make_lease (buffer_control sb1) ?w2 = (r, w3)" by (cases "make_lease (buffer_control sb1) ?w2")
  from assms e m show ?thesis by (cases r) (auto simp: get_read_handle_def Let_def split: if_splits)
qed

lemma get_read_handle_failure:
  assumes "get_read_handle sb w = (Inl e, sb', w')"
  shows "\<exists>t w1. ensure_state sb w = (t, sb', w1) \<and>
    (access (states w1 t) = InUse \<and> e = Runtime_error ''cannot acquire a read handle while writing'' \<and> w' = w1 \<or>
     access (states w1 t) \<noteq> InUse \<and> buffer_control sb' \<noteq> None \<and> w' = w1 \<and>
       e = Runtime_error ''shared buffer block is being reused'' \<and>
       \<not> fst (try_acquire_shared_buffer_reader (buffer_control sb') (hdr (kern w1))))"
proof -
  obtain t sb1 w1 where e: "ensure_state sb w = (t, sb1, w1)" by (metis prod.exhaust)
  let ?f = "\<lambda>h. h\<lparr>active_readers := active_readers h + 1\<rparr>"
  obtain r w3 where m: "make_lease (buffer_control sb1) (update_state t ?f w1) = (r, w3)"
    by (cases "make_lease (buffer_control sb1) (update_state t ?f w1)")
  have restored: "update_state t leave_reader (update_state t ?f w1) = w1"
    by (cases w1) (auto simp: update_state_def leave_reader_def fun_eq_iff)
  show ?thesis
  proof (cases "access (states w1 t) = InUse")
    case True
    with assms e show ?thesis by (simp add: get_read_handle_def)
  next
    case False
    with assms e m obtain e' where "r = Inl e'" and res: "e = e'" "sb' = sb1" "w' = update_state t leave_reader w3"
      by (cases r) (auto simp: get_read_handle_def Let_def)
    with m obtain c where "buffer_control sb1 = Some c" "w3 = update_state t ?f w1"
      "e' = Runtime_error ''shared buffer block is being reused''"
      "\<not> fst (try_acquire_shared_buffer_reader (Some c) (hdr (kern w1)))"
      by (cases "buffer_control sb1") (auto simp: make_lease_Some buffer_simps split: if_splits)
    with False e res restored show ?thesis by auto
  qed
qed

lemma get_write_handle_success:
  assumes "get_write_handle sb w = (Inr wh, sb', w')"
  shows "\<exists>t w1. ensure_state sb w = (t, sb', w1) \<and> access (states w1 t) = Unset \<and> active_readers (states w1 t) = 0 \<and>
    writable sb \<and> data_ptr sb \<noteq> 0 \<and> buffer_size sb \<noteq> 0 \<and> w' = update_state t (\<lambda>h. h\<lparr>access := InUse\<rparr>) w1 \<and>
    write_ptr wh = data_ptr sb' \<and> write_state wh = Some t \<and> write_owner wh = owner sb' \<and> write_promoted wh = None"
proof -
  obtain t sb1 w1 where e: "ensure_state sb w = (t, sb1, w1)" by (metis prod.exhaust)
  with assms show ?thesis
    by (cases "access (states w1 t)") (auto simp: get_write_handle_def Let_def split: if_splits)
qed

lemma get_write_handle_failure:
  assumes "get_write_handle sb w = (Inl e, sb', w')"
  shows "sb' = sb \<and> w' = w \<or> (\<exists>t. ensure_state sb w = (t, sb', w'))"
proof -
  obtain t sb1 w1 where e: "ensure_state sb w = (t, sb1, w1)" by (metis prod.exhaust)
  with assms show ?thesis by (auto simp: get_write_handle_def Let_def split: if_splits)
qed

section \<open>Every step keeps the invariant\<close>

lemma inv_read:
  assumes inv: "session_inv s" and get: "get_read_handle (buffer s) (world s) = (Inr rh, sb', w')"
  shows "session_inv (s\<lparr>buffer := sb', read_handles := read_handles s @ [rh], world := w'\<rparr>)"
proof -
  from get_read_handle_success [OF get] obtain t w1 where t: "ensure_state (buffer s) (world s) = (t, sb', w1)"
    "access (states w1 t) \<noteq> InUse"
    "make_lease (buffer_control sb') (update_state t (\<lambda>h. h\<lparr>active_readers := active_readers h + 1\<rparr>) w1) = (Inr (reader_lease rh), w')"
    "read_state rh = Some t" "read_promoted rh = None" by blast
  have inv1: "session_inv (s\<lparr>buffer := sb', world := w1\<rparr>)" and sb': "sb' = (buffer s)\<lparr>handle_state := Some t\<rparr>"
    using session_inv_ensure [OF inv t(1)] by blast+
  note lease = make_lease_cases [OF t(3), simplified]
  have "reader_lock_of (reader_state (hdr (kern w') c)) = Readers (Suc (others s + length (read_handles s) + holds sb'))"
    if "buffer_control sb' = Some c" for c
    using make_lease_count [OF t(3) that] inv1 that by (simp add: session_inv_def buffer_simps)
  moreover have "access_ok (states w1 t) (length (read_handles s)) (length (write_handles s))"
      and lt: "t < next_state w1" using inv1 sb' by (simp_all add: session_inv_def)
  then have "access_ok (states w' t) (Suc (length (read_handles s))) (length (write_handles s))"
    using t(2) lease by (simp add: access_ok_def buffer_simps split: handle_access.splits)
  moreover have "t < next_state w'" using lt lease by (simp add: buffer_simps)
  ultimately show ?thesis using inv1 lease t(4,5) sb' by (simp add: session_inv_def)
qed

lemma inv_write:
  assumes inv: "session_inv s" and get: "get_write_handle (buffer s) (world s) = (Inr wh, sb', w')"
  shows "session_inv (s\<lparr>buffer := sb', write_handles := write_handles s @ [wh], world := w'\<rparr>)"
proof -
  from get_write_handle_success [OF get] obtain t w1 where t: "ensure_state (buffer s) (world s) = (t, sb', w1)"
    "access (states w1 t) = Unset" "active_readers (states w1 t) = 0"
    "w' = update_state t (\<lambda>h. h\<lparr>access := InUse\<rparr>) w1" "write_state wh = Some t" "write_promoted wh = None" by blast
  have inv1: "session_inv (s\<lparr>buffer := sb', world := w1\<rparr>)" and sb': "sb' = (buffer s)\<lparr>handle_state := Some t\<rparr>"
    using session_inv_ensure [OF inv t(1)] by blast+
  from inv1 t sb' show ?thesis by (auto simp: session_inv_def access_ok_def buffer_simps)
qed

lemma inv_end_read:
  assumes inv: "session_inv s" and i: "i < length (read_handles s)"
    and rel: "release_read_handle (read_handles s ! i) (world s) = (rh', w')"
  shows "session_inv (s\<lparr>read_handles := remove_nth i (read_handles s), world := w'\<rparr>)"
proof -
  let ?rh = "read_handles s ! i"
  from i have "?rh \<in> set (read_handles s)" by simp
  with inv i obtain t where t: "handle_state (buffer s) = Some t" "read_state ?rh = Some t"
    "reader_lease ?rh = buffer_control (buffer s)" "read_promoted ?rh = None"
    by (cases "handle_state (buffer s)") (auto simp: session_inv_def)
  with rel have w': "w' = drop_lease (buffer_control (buffer s)) (update_state t leave_reader (world s))"
    by (auto simp: release_read_handle_def drop_promoted_def Let_def)
  obtain n where n: "length (read_handles s) = Suc n" using i by (cases "read_handles s") auto
  have "reader_lock_of (reader_state (hdr (kern w') c)) = Readers (others s + n + holds (buffer s))"
    if "buffer_control (buffer s) = Some c" for c
    unfolding w' that by (rule drop_lease_count) (use inv that n in \<open>simp add: session_inv_def buffer_simps\<close>)
  moreover have "access_ok (states w' t) n (length (write_handles s))"
    using inv t(1) n by (auto simp: w' session_inv_def access_ok_def buffer_simps leave_reader_def split: handle_access.splits)
  moreover have "next_state w' = next_state (world s)" by (simp add: w' buffer_simps)
  ultimately show ?thesis using inv t i n by (auto simp: session_inv_def dest: remove_nth_set)
qed

lemma inv_end_write:
  assumes inv: "session_inv s" and i: "i < length (write_handles s)"
    and rel: "release_write_handle (write_handles s ! i) (world s) = (wh', w')"
  shows "session_inv (s\<lparr>write_handles := remove_nth i (write_handles s), world := w'\<rparr>)"
proof -
  let ?wh = "write_handles s ! i"
  from i have "?wh \<in> set (write_handles s)" by simp
  with inv i obtain t where t: "handle_state (buffer s) = Some t" "write_state ?wh = Some t" "write_promoted ?wh = None"
    by (cases "handle_state (buffer s)") (auto simp: session_inv_def)
  with rel have w': "w' = update_state t (\<lambda>h. h\<lparr>access := Finalized\<rparr>) (world s)"
    by (auto simp: release_write_handle_def drop_promoted_def Let_def)
  have "access_ok (states w' t) (length (read_handles s)) (length (write_handles s) - 1)"
    using inv t(1) i by (auto simp: w' session_inv_def access_ok_def buffer_simps split: handle_access.splits)
  then show ?thesis using inv t i by (auto simp: w' session_inv_def buffer_simps dest: remove_nth_set)
qed

lemma inv_finalize: "session_inv s \<Longrightarrow> session_inv (s\<lparr>world := finalize_write_handle (buffer s) (world s)\<rparr>)"
  by (auto simp: session_inv_def finalize_write_handle_def access_ok_def buffer_simps
      split: option.splits handle_access.splits)

lemma inv_hold:
  assumes inv: "session_inv s" and hold: "hold_reader_reference (buffer s) (world s) = (r, sb', w')"
  shows "session_inv (s\<lparr>buffer := sb', world := w'\<rparr>)"
proof (cases "held_reader_lease (buffer s) = None")
  case False
  with hold inv show ?thesis by (auto simp: hold_reader_reference_def)
next
  case True
  obtain r' w1 where m: "make_lease (buffer_control (buffer s)) (world s) = (r', w1)"
    by (cases "make_lease (buffer_control (buffer s)) (world s)")
  note lease = make_lease_cases [OF m]
  show ?thesis
  proof (cases r')
    case (Inl e)
    with hold True m lease have "sb' = buffer s" and "w' = world s"
      by (auto simp: hold_reader_reference_def)
    with inv show ?thesis by simp
  next
    case (Inr l)
    with hold True m lease have sb': "sb' = (buffer s)\<lparr>held_reader_lease := buffer_control (buffer s)\<rparr>" and "w' = w1"
      by (simp_all add: hold_reader_reference_def)
    have "reader_lock_of (reader_state (hdr (kern w1) c)) = Readers (others s + length (read_handles s) + holds sb')"
      if "buffer_control (buffer s) = Some c" for c
      using make_lease_count [OF m [unfolded Inr] that] inv that True
      by (simp add: session_inv_def holds_def sb')
    then show ?thesis using inv lease Inr \<open>w' = w1\<close>
      by (auto simp: session_inv_def sb' holds_def split: option.splits)
  qed
qed

lemma inv_other_done:
  assumes inv: "session_inv s" and n: "others s = Suc n"
  shows "session_inv (s\<lparr>others := n, world := drop_lease (buffer_control (buffer s)) (world s)\<rparr>)"
proof -
  have "reader_lock_of (reader_state (hdr (kern (drop_lease (Some c) (world s))) c)) =
      Readers (n + length (read_handles s) + holds (buffer s))" if "buffer_control (buffer s) = Some c" for c
    by (rule drop_lease_count) (use inv that n in \<open>simp add: session_inv_def\<close>)
  with inv show ?thesis by (auto simp: session_inv_def buffer_simps split: option.splits)
qed

lemma inv_other_reader:
  assumes inv: "session_inv s" and c: "buffer_control (buffer s) = Some c"
    and acq: "try_acquire_shared_buffer_reader (Some c) (hdr (kern (world s))) = (True, m)"
  shows "session_inv (s\<lparr>others := Suc (others s), world := (world s)\<lparr>kern := (kern (world s))\<lparr>hdr := m\<rparr>\<rparr>\<rparr>)"
proof -
  let ?w = "(world s)\<lparr>kern := (kern (world s))\<lparr>hdr := m\<rparr>\<rparr>"
  have "make_lease (Some c) (world s) = (Inr (Some c), ?w)" using acq by (simp add: make_lease_def)
  from make_lease_count [OF this refl] inv c show ?thesis
    by (auto simp: session_inv_def split: option.splits)
qed

lemma session_step_inv: "session_step s t \<Longrightarrow> session_inv s \<Longrightarrow> session_inv t"
proof (induction rule: session_step.induct)
  case (session_read_refused s e sb' w')
  then show ?case using get_read_handle_failure session_inv_ensure by blast
next
  case (session_write_refused s e sb' w')
  from get_write_handle_failure [OF session_write_refused(1)] show ?case
  proof
    assume "\<exists>t. ensure_state (buffer s) (world s) = (t, sb', w')"
    then show ?thesis using session_inv_ensure session_write_refused(2) by blast
  qed (simp add: session_write_refused(2))
next
  case (session_move s sb' old)
  have "fst (move_buffer (buffer s)) = buffer s" by (cases "buffer s") (simp add: move_buffer_def)
  with session_move(1) have "sb' = buffer s" by simp
  with session_move(2) show ?case by simp
qed (simp_all add: inv_read inv_write inv_end_read inv_end_write inv_finalize inv_hold inv_other_done inv_other_reader)

lemma session_reachable_inv: "session_reachable s0 s \<Longrightarrow> session_fresh s0 \<Longrightarrow> session_inv s"
  by (induction rule: session_reachable.induct) (auto simp: session_inv_fresh session_step_inv)

section \<open>Finalised buffers stay finalised\<close>

definition finalized :: "'b session \<Rightarrow> bool" where
  "finalized s \<longleftrightarrow> (\<exists>t. handle_state (buffer s) = Some t \<and> access (states (world s) t) = Finalized)"

lemma ensure_state_Some [simp]: "handle_state sb = Some t \<Longrightarrow> ensure_state sb w = (t, sb, w)"
  by (simp add: ensure_state_def)

lemma move_buffer_same: "fst (move_buffer sb) = sb"
  by (cases sb) (simp add: move_buffer_def)

lemma access_leave_reader [simp]: "access (leave_reader h) = access h"
  by (simp add: leave_reader_def)

lemma session_step_finalized: "session_step s t \<Longrightarrow> session_inv s \<Longrightarrow> finalized s \<Longrightarrow> finalized t"
proof (induction rule: session_step.induct)
  case (session_read s rh sb' w')
  from get_read_handle_success [OF session_read(1)] session_read(3) show ?case
    by (fastforce simp: finalized_def buffer_simps dest: make_lease_cases)
next
  case (session_read_refused s e sb' w')
  from get_read_handle_failure [OF session_read_refused(1)] session_read_refused(3) show ?case
    by (fastforce simp: finalized_def)
next
  case (session_write s wh sb' w')
  from get_write_handle_success [OF session_write(1)] session_write(3) show ?case
    by (fastforce simp: finalized_def)
next
  case (session_write_refused s e sb' w')
  from get_write_handle_failure [OF session_write_refused(1)] session_write_refused(3) show ?case
    by (fastforce simp: finalized_def)
next
  case (session_end_read i s rh' w')
  then have "read_handles s ! i \<in> set (read_handles s)" by simp
  with session_end_read show ?case
    by (auto simp: finalized_def session_inv_def release_read_handle_def drop_promoted_def buffer_simps
        split: option.splits)
next
  case (session_end_write i s wh' w')
  then have "write_handles s ! i \<in> set (write_handles s)" by simp
  with session_end_write show ?case
    by (auto simp: finalized_def session_inv_def release_write_handle_def drop_promoted_def buffer_simps
        split: option.splits)
next
  case (session_finalize s)
  then show ?case by (auto simp: finalized_def finalize_write_handle_def buffer_simps)
next
  case (session_hold s r sb' w')
  then show ?case
    by (auto simp: finalized_def hold_reader_reference_def dest!: make_lease_cases split: if_splits sum.splits prod.splits)
next
  case (session_move s sb' old)
  then have "sb' = buffer s" using move_buffer_same [of "buffer s"] by simp
  with session_move(3) show ?case by simp
qed (auto simp: finalized_def buffer_simps)

lemma session_reachable_finalized:
  "session_reachable s t \<Longrightarrow> session_inv s \<Longrightarrow> finalized s \<Longrightarrow> session_inv t \<and> finalized t"
  by (induction rule: session_reachable.induct) (auto dest: session_step_inv session_step_finalized)

section \<open>Properties\<close>

text \<open>
  C13: exclusion and balance of the access handles, in every session on a buffer.  There is never
  more than one live write handle; while one has not been finalised there is no live read
  handle; and the shared header counts exactly one reader for every live read handle, one for
  the held reference, and the readers of other processes.
\<close>

theorem handles_exclude_and_balance:
  assumes "session_fresh s0" and "session_reachable s0 s"
  shows "length (write_handles s) \<le> 1 \<and>
    (\<forall>t. handle_state (buffer s) = Some t \<longrightarrow> access (states (world s) t) = InUse \<longrightarrow>
       read_handles s = [] \<and> (\<exists>wh. write_handles s = [wh])) \<and>
    (\<forall>t. handle_state (buffer s) = Some t \<longrightarrow> active_readers (states (world s) t) = length (read_handles s)) \<and>
    (\<forall>c. buffer_control (buffer s) = Some c \<longrightarrow>
       reader_lock_of (reader_state (hdr (kern (world s)) c)) =
         Readers (others s + length (read_handles s) + (if held_reader_lease (buffer s) = None then 0 else 1)))"
proof -
  have inv: "session_inv s" using session_reachable_inv [OF assms(2,1)] .
  show ?thesis
  proof (cases "handle_state (buffer s)")
    case None
    with inv show ?thesis by (simp add: session_inv_def holds_def)
  next
    case (Some t)
    with inv have "access_ok (states (world s) t) (length (read_handles s)) (length (write_handles s))"
      by (simp add: session_inv_def)
    moreover have "length xs = 1 \<longleftrightarrow> (\<exists>x. xs = [x])" for xs :: "'c list" by (cases xs) auto
    ultimately show ?thesis using inv Some
      by (auto simp: session_inv_def access_ok_def holds_def split: handle_access.splits)
  qed
qed

definition sample_world :: "linux_broker world" where
  "sample_world = \<lparr>kern = sample_kernel1, pool = sample_pool1, states = (\<lambda>_. \<lparr>access = Unset, active_readers = 0\<rparr>),
     next_state = 0\<rparr>"

definition sample_buffer :: SharedBuffer where
  "sample_buffer = \<lparr>data_ptr = 0x7F0000000040, buffer_size = 4, deleter = Free_block (Some 0), buffer_control = Some 0,
     owner = None, held_reader_lease = None, handle_state = None, buffer_block_id = 0, buffer_mapped_size = 68,
     writable = True, ipc_pid = 0, ipc_name = '''', buffer_ipc_uid = 0\<rparr>"

definition sample_session :: "linux_broker session" where
  "sample_session = \<lparr>others = 0, buffer = sample_buffer, read_handles = [], write_handles = [], world = sample_world\<rparr>"

lemma sample_session_fresh: "session_fresh sample_session"
  by (simp add: session_fresh_def sample_session_def sample_buffer_def sample_world_def sample_kernel1_def
      default_control_header_def reader_lock_of_def)

lemma sample_read:
  "\<exists>rh sb' w'. get_read_handle sample_buffer sample_world = (Inr rh, sb', w')"
  by (simp add: get_read_handle_def ensure_state_def sample_buffer_def sample_world_def update_state_def
      make_lease_Some try_acquire_shared_buffer_reader_def sample_kernel1_def default_control_header_def
      acquire_refused_iff Let_def)

theorem handles_exclude_and_balance_witness:
  "\<exists>s. session_reachable sample_session s \<and> length (read_handles s) = 1 \<and>
     reader_lock_of (reader_state (hdr (kern (world s)) 0)) = Readers 1"
proof -
  obtain rh sb' w' where g: "get_read_handle sample_buffer sample_world = (Inr rh, sb', w')" using sample_read by blast
  let ?s = "sample_session\<lparr>buffer := sb', read_handles := read_handles sample_session @ [rh], world := w'\<rparr>"
  have r: "session_reachable sample_session ?s"
    by (rule session_next [OF session_start session_read]) (simp add: sample_session_def g)
  have sb': "buffer_control sb' = Some 0" "held_reader_lease sb' = None"
    using get_read_handle_success [OF g] ensure_state_cases by (fastforce simp: sample_buffer_def)+
  from handles_exclude_and_balance [OF sample_session_fresh r] r sb' show ?thesis
    by (auto simp: sample_session_def intro!: exI [of _ ?s])
qed

text \<open>
  C30: writing is final.  Once the write handle of a buffer has been finalised, explicitly or by
  destroying it, no later request for a write handle succeeds, whatever handles are acquired and
  released in between and however often the buffer is moved.
\<close>

theorem finalized_buffer_never_writable:
  assumes "session_fresh s0" and "session_reachable s0 s" and "finalized s" and "session_reachable s t"
  shows "\<exists>e sb w. get_write_handle (buffer t) (world t) = (Inl e, sb, w)"
proof -
  have "finalized t"
    using session_reachable_finalized [OF assms(4) session_reachable_inv [OF assms(2,1)] assms(3)] by simp
  then obtain st where "handle_state (buffer t) = Some st" "access (states (world t) st) = Finalized"
    by (auto simp: finalized_def)
  then show ?thesis by (simp add: get_write_handle_def)
qed

theorem finalized_buffer_never_writable_witness:
  "\<exists>wh sb1 w1 e sb w. get_write_handle sample_buffer sample_world = (Inr wh, sb1, w1) \<and>
     get_write_handle sb1 (snd (release_write_handle wh w1)) = (Inl e, sb, w)"
proof -
  obtain wh sb1 w1 where g: "get_write_handle sample_buffer sample_world = (Inr wh, sb1, w1)"
    by (simp add: get_write_handle_def ensure_state_def sample_buffer_def sample_world_def Let_def)
  let ?w2 = "snd (release_write_handle wh w1)"
  let ?s1 = "sample_session\<lparr>buffer := sb1, write_handles := write_handles sample_session @ [wh], world := w1\<rparr>"
  let ?s2 = "?s1\<lparr>write_handles := remove_nth 0 (write_handles ?s1), world := ?w2\<rparr>"
  have r1: "session_reachable sample_session ?s1"
    by (rule session_next [OF session_start session_write]) (simp add: sample_session_def g)
  have "session_step ?s1 ?s2"
    by (rule session_end_write [of 0 _ "fst (release_write_handle wh w1)"]) (simp_all add: sample_session_def)
  with r1 have r2: "session_reachable sample_session ?s2" by (rule session_next)
  from get_write_handle_success [OF g] obtain t where "write_state wh = Some t" "handle_state sb1 = Some t"
    "write_promoted wh = None" using ensure_state_cases by (fastforce simp: sample_buffer_def)
  then have "finalized ?s2"
    by (simp add: finalized_def release_write_handle_def drop_promoted_def buffer_simps)
  from finalized_buffer_never_writable [OF sample_session_fresh r2 this session_start] g show ?thesis by auto
qed

text \<open>
  A buffer is given back exactly once.  Destroying the target and the source of a move does
  what destroying the original would have done, in either order; destroying an object a second
  time does nothing; the same holds for read handles.
\<close>

theorem move_then_destroy_once:
  "snd (reset_buffer (snd (move_buffer sb)) (snd (reset_buffer (fst (move_buffer sb)) w))) = snd (reset_buffer sb w) \<and>
   snd (reset_buffer (fst (move_buffer sb)) (snd (reset_buffer (snd (move_buffer sb)) w))) = snd (reset_buffer sb w) \<and>
   snd (reset_buffer (fst (reset_buffer sb w)) (snd (reset_buffer sb w))) = snd (reset_buffer sb w) \<and>
   snd (release_read_handle (snd (move_read_handle rh)) (snd (release_read_handle (fst (move_read_handle rh)) w))) =
     snd (release_read_handle rh w) \<and>
   snd (release_read_handle (fst (release_read_handle rh w)) (snd (release_read_handle rh w))) =
     snd (release_read_handle rh w)"
  by (simp add: move_buffer_same)
    (simp add: move_buffer_def moved_from_def reset_buffer_def move_read_handle_def release_read_handle_def
      drop_promoted_def Let_def)

text \<open>
  A destroyed publisher buffer leaves nothing behind: when no read handle is alive any more,
  the header's count is back to the other processes' readers, the block is back in the pool's
  free list, and nothing else of the kernel has changed.
\<close>

theorem destroyed_buffer_gives_back:
  assumes "session_fresh s0" and "session_reachable s0 s" and "read_handles s = []"
    and "buffer_control (buffer s) = Some c" and "deleter (buffer s) = Free_block blk" and "data_ptr (buffer s) \<noteq> 0"
  shows "(let w' = snd (reset_buffer (buffer s) (world s)) in
    reader_lock_of (reader_state (hdr (kern w') c)) = Readers (others s) \<and>
    pool w' = pool_free blk (pool (world s)) \<and> (\<forall>d. d \<noteq> c \<longrightarrow> hdr (kern w') d = hdr (kern (world s)) d) \<and>
    same_layout (kern (world s)) (kern w'))"
proof -
  have inv: "session_inv s" using session_reachable_inv [OF assms(2,1)] .
  have w': "snd (reset_buffer (buffer s) (world s)) =
      (drop_lease (held_reader_lease (buffer s)) (world s))\<lparr>pool := pool_free blk (pool (world s))\<rparr>"
    using assms(5,6) by (simp add: reset_buffer_def run_deleter_def buffer_simps Let_def)
  have sl: "same_layout (kern (world s)) (kern (drop_lease l (world s)))" for l
    by (auto simp: drop_lease_def same_layout_def release_shared_buffer_reader_def split: option.splits)
  show ?thesis
  proof (cases "held_reader_lease (buffer s)")
    case None
    with inv assms(3,4) w' show ?thesis by (simp add: session_inv_def holds_def)
  next
    case (Some l)
    with inv assms(3,4) have "l = c" and "reader_lock_of (reader_state (hdr (kern (world s)) c)) = Readers (Suc (others s))"
      by (auto simp: session_inv_def holds_def)
    with drop_lease_count [OF this(2)] Some w' sl [of "Some c"] show ?thesis
      by (simp add: buffer_simps release_shared_buffer_reader_def)
  qed
qed

theorem destroyed_buffer_gives_back_witness:
  "let w' = snd (reset_buffer sample_buffer sample_world) in
     reader_lock_of (reader_state (hdr (kern w') 0)) = Readers 0 \<and> free_blocks (pool w') 4 = Some [0]"
proof -
  have "free_blocks (pool_free (Some 0) sample_pool1) 4 = Some [0]"
    by (simp add: pool_free_def sample_pool1_def update_block_def bucket_def Let_def)
  with destroyed_buffer_gives_back [OF sample_session_fresh session_start, of 0 "Some 0"] show ?thesis
    by (simp add: Let_def sample_session_def sample_buffer_def sample_world_def)
qed

text \<open>
  Finalisation only acts on a write in progress.  On a buffer nobody has written
  \<^verbatim>\<open>finalize_write_handle\<close>, which descriptor creation calls, leaves the state \<open>Unset\<close>, so a write
  handle can still be acquired after such a buffer has been published.
\<close>

theorem unwritten_buffer_stays_writable:
  assumes "writable sb" and "data_ptr sb \<noteq> 0" and "buffer_size sb \<noteq> 0"
    and "\<forall>t. handle_state sb = Some t \<longrightarrow> states w t = \<lparr>access = Unset, active_readers = 0\<rparr>"
  shows "finalize_write_handle sb w = w \<and>
    (\<exists>wh sb' w'. get_write_handle sb (finalize_write_handle sb w) = (Inr wh, sb', w') \<and> write_ptr wh = data_ptr sb)"
proof -
  have f: "finalize_write_handle sb w = w"
    using assms(4) by (cases w) (auto simp: finalize_write_handle_def update_state_def fun_upd_idem split: option.splits)
  obtain t sb1 w1 where e: "ensure_state sb w = (t, sb1, w1)" by (metis prod.exhaust)
  from ensure_state_cases [OF e] assms(4) have "states w1 t = \<lparr>access = Unset, active_readers = 0\<rparr>" "data_ptr sb1 = data_ptr sb"
    by (auto split: option.splits)
  with f e assms(1-3) show ?thesis by (simp add: get_write_handle_def)
qed

theorem unwritten_buffer_stays_writable_witness:
  "\<exists>wh sb' w'. get_write_handle sample_buffer (finalize_write_handle sample_buffer sample_world) = (Inr wh, sb', w')"
  using unwritten_buffer_stays_writable [of sample_buffer sample_world] by (auto simp: sample_buffer_def)

end
