(* ===== verification/Buffer_Impl.thy ===== *)
theory Buffer_Impl
  imports Handle_Session
begin

text \<open>
  The typed buffer \<^verbatim>\<open>SharedBufferImpl<T>\<close> (\<^verbatim>\<open>shared_buffer_impl.hpp\<close>, \<^verbatim>\<open>shared_buffer_impl.cpp\<close>) and
  the free functions of \<^verbatim>\<open>shared_buffer_api.hpp\<close>.

  \<open>esz\<close> is \<^verbatim>\<open>sizeof(T)\<close>; elements are trivially copyable, so values are byte lists.  A pointer
  \<^verbatim>\<open>uint8_t *\<close> to a payload is the address 64 bytes after the base of a mapping; \<open>load_bytes\<close> and
  \<open>store_bytes\<close> are \<^verbatim>\<open>memcpy\<close> from and to it.  \<open>store_bytes\<close> does not clip: writing more than the
  payload holds would change the length of the object's bytes, which the pool invariant pins.
  The global pool is the \<open>pool\<close> of the world.  \<open>create\<close> is the platform's mapping function.
\<close>

section \<open>Memory\<close>

definition object_at :: "kernel \<Rightarrow> u64 \<Rightarrow> oid option" where
  "object_at k ptr = vm k (ptr - kSharedBufferPayloadOffset)"

definition load_bytes :: "kernel \<Rightarrow> u64 \<Rightarrow> u64 \<Rightarrow> u8 list" where
  "load_bytes k ptr n = (case object_at k ptr of None \<Rightarrow> [] | Some c \<Rightarrow> take (unat n) (pay k c))"

definition store_bytes :: "u64 \<Rightarrow> u8 list \<Rightarrow> kernel \<Rightarrow> kernel" where
  "store_bytes ptr bytes k =
     (case object_at k ptr of
        None \<Rightarrow> k
      | Some c \<Rightarrow> k\<lparr>pay := (pay k)(c := bytes @ drop (length bytes) (pay k c))\<rparr>)"

definition write_memory :: "u64 \<Rightarrow> u8 list \<Rightarrow> 'b world \<Rightarrow> 'b world" where
  "write_memory ptr bytes w = w\<lparr>kern := store_bytes ptr bytes (kern w)\<rparr>"

text \<open>
  \<^verbatim>\<open>get_or_create_global_pool\<close>: the function-local static is made by the first call.  \<open>fresh\<close> is the
  \<open>new_pool\<close> that call would make.
\<close>

definition get_or_create_global_pool ::
  "'b SharedBufferMemoryPool \<Rightarrow> 'b SharedBufferMemoryPool option \<Rightarrow>
     'b SharedBufferMemoryPool \<times> 'b SharedBufferMemoryPool option" where
  "get_or_create_global_pool fresh static_pool =
     (case static_pool of
        Some p \<Rightarrow> (p, static_pool)
      | None \<Rightarrow> (fresh, Some fresh))"

section \<open>The implementation class\<close>

record SharedBufferImpl =
  impl_size :: u64
  impl_buffer :: SharedBuffer

definition byte_count :: "u64 \<Rightarrow> u64 \<Rightarrow> cpp_error + u64" where
  "byte_count esz cnt =
     (if cnt > (- 1) div esz then Inl (Shared_buffer_error ''shared buffer size overflows size_t'')
      else Inr (cnt * esz))"

definition allocate_raw :: "create_mapping \<Rightarrow> u64 \<Rightarrow> u64 \<Rightarrow> 'b world \<Rightarrow> (cpp_error + SharedBuffer) \<times> 'b world" where
  "allocate_raw create esz cnt w =
     (case byte_count esz cnt of
        Inl e \<Rightarrow> (Inl e, w)
      | Inr bytes \<Rightarrow>
          (case allocate create bytes (pool w) (kern w) of
             (Inl e, p, k) \<Rightarrow> (Inl e, w\<lparr>pool := p, kern := k\<rparr>)
           | (Inr i, p, k) \<Rightarrow>
               (let block = all_blocks p ! i in
                (shared_buffer (mapping block + kSharedBufferPayloadOffset) bytes (Free_block (Some i)) (control block)
                   None (block_id block) (mapped_size block) True 0 '''' 0,
                 w\<lparr>pool := p, kern := k\<rparr>))))"

definition new_impl :: "create_mapping \<Rightarrow> u64 \<Rightarrow> u64 \<Rightarrow> 'b world \<Rightarrow> (cpp_error + SharedBufferImpl) \<times> 'b world" where
  "new_impl create esz sz w =
     (if sz > 0 then
        (case allocate_raw create esz sz w of
           (Inl e, w1) \<Rightarrow> (Inl e, w1)
         | (Inr sb, w1) \<Rightarrow>
             (let (sb', old, w2) = move_assign_buffer False empty_buffer sb w1
              in (Inr \<lparr>impl_size = sz, impl_buffer = sb'\<rparr>, snd (reset_buffer old w2))))
      else (Inr \<lparr>impl_size = sz, impl_buffer = empty_buffer\<rparr>, w))"

definition destroy_impl :: "SharedBufferImpl \<Rightarrow> 'b world \<Rightarrow> 'b world" where
  "destroy_impl im w = snd (reset_buffer (impl_buffer im) w)"

text \<open>\<^verbatim>\<open>shared_buffer_ = SharedBuffer()\<close>: move assignment from a temporary, which is then destroyed.\<close>

definition assign_buffer :: "SharedBuffer \<Rightarrow> SharedBuffer \<Rightarrow> 'b world \<Rightarrow> SharedBuffer \<times> 'b world" where
  "assign_buffer this temporary w =
     (let (this', old, w1) = move_assign_buffer False this temporary w in (this', snd (reset_buffer old w1)))"

definition clear_impl :: "SharedBufferImpl \<Rightarrow> 'b world \<Rightarrow> SharedBufferImpl \<times> 'b world" where
  "clear_impl im w =
     (let (sb, w1) = assign_buffer (impl_buffer im) empty_buffer w in (\<lparr>impl_size = 0, impl_buffer = sb\<rparr>, w1))"

text \<open>
  Copy \<open>n\<close> bytes from the buffer \<open>src\<close> to the buffer \<open>dst\<close> through a read and a write handle, both
  released at the end of the scope (the write handle first).  On an exception the handles
  acquired so far are released.
\<close>

definition copy_payload ::
  "SharedBuffer \<Rightarrow> SharedBuffer \<Rightarrow> u64 \<Rightarrow> 'b world \<Rightarrow>
     (cpp_error + unit) \<times> SharedBuffer \<times> SharedBuffer \<times> 'b world" where
  "copy_payload src dst n w =
     (case get_read_handle src w of
        (Inl e, src1, w1) \<Rightarrow> (Inl e, src1, dst, w1)
      | (Inr rd, src1, w1) \<Rightarrow>
          (case get_write_handle dst w1 of
             (Inl e, dst1, w2) \<Rightarrow> (Inl e, src1, dst1, snd (release_read_handle rd w2))
           | (Inr wr, dst1, w2) \<Rightarrow>
               (let w3 = write_memory (write_ptr wr) (load_bytes (kern w2) (read_ptr rd) n) w2;
                    w4 = snd (release_write_handle wr w3)
                in (Inr (), src1, dst1, snd (release_read_handle rd w4)))))"

definition resize_impl ::
  "create_mapping \<Rightarrow> u64 \<Rightarrow> u64 \<Rightarrow> SharedBufferImpl \<Rightarrow> 'b world \<Rightarrow> (cpp_error + unit) \<times> SharedBufferImpl \<times> 'b world" where
  "resize_impl create esz sz im w =
     (if sz = impl_size im then (Inr (), im, w)
      else if sz = 0 then (let (im', w1) = clear_impl im w in (Inr (), im', w1))
      else
        (case allocate_raw create esz sz w of
           (Inl e, w1) \<Rightarrow> (Inl e, im, w1)
         | (Inr fresh, w1) \<Rightarrow>
             (let copy_size = min sz (impl_size im) * esz;
                  (r, src, dst, w2) =
                    (if copy_size > 0 \<and> data_ptr (impl_buffer im) \<noteq> 0
                     then copy_payload (impl_buffer im) fresh copy_size w1
                     else (Inr (), impl_buffer im, fresh, w1))
              in case r of
                   Inl e \<Rightarrow> (Inl e, im\<lparr>impl_buffer := src\<rparr>, snd (reset_buffer dst w2))
                 | Inr _ \<Rightarrow>
                     (let (sb, w3) = assign_buffer src dst w2
                      in (Inr (), \<lparr>impl_size = sz, impl_buffer = sb\<rparr>, w3)))))"

text \<open>The result of \<^verbatim>\<open>to_cpu\<close> is a vector of \<open>impl_size\<close> elements, here their bytes.\<close>

definition to_cpu :: "u64 \<Rightarrow> SharedBufferImpl \<Rightarrow> 'b world \<Rightarrow> (cpp_error + u8 list) \<times> SharedBufferImpl \<times> 'b world" where
  "to_cpu esz im w =
     (if impl_size im > 0 then
        (case get_read_handle (impl_buffer im) w of
           (Inl e, sb, w1) \<Rightarrow> (Inl e, im\<lparr>impl_buffer := sb\<rparr>, w1)
         | (Inr rd, sb, w1) \<Rightarrow>
             (Inr (load_bytes (kern w1) (read_ptr rd) (impl_size im * esz)), im\<lparr>impl_buffer := sb\<rparr>,
              snd (release_read_handle rd w1)))
      else (Inr [], im, w))"

definition clone_impl ::
  "create_mapping \<Rightarrow> u64 \<Rightarrow> SharedBufferImpl \<Rightarrow> 'b world \<Rightarrow>
     (cpp_error + SharedBufferImpl) \<times> SharedBufferImpl \<times> 'b world" where
  "clone_impl create esz im w =
     (case new_impl create esz (impl_size im) w of
        (Inl e, w1) \<Rightarrow> (Inl e, im, w1)
      | (Inr copy, w1) \<Rightarrow>
          (if impl_size im > 0 then
             (let (r, src, dst, w2) = copy_payload (impl_buffer im) (impl_buffer copy) (impl_size im * esz) w1
              in case r of
                   Inl e \<Rightarrow> (Inl e, im\<lparr>impl_buffer := src\<rparr>, snd (reset_buffer dst w2))
                 | Inr _ \<Rightarrow> (Inr (copy\<lparr>impl_buffer := dst\<rparr>), im\<lparr>impl_buffer := src\<rparr>, w2))
           else (Inr copy, im, w1)))"

section \<open>The API functions\<close>

text \<open>
  A \<^verbatim>\<open>rosidl::Buffer<T>\<close>: the implementation it points to, which may be missing, this library's,
  or another one, given by its number of elements and the bytes \<^verbatim>\<open>to_vector\<close> returns.
\<close>

datatype rosidl_buffer = Null_impl | Shared_impl SharedBufferImpl | Other_impl u64 "u8 list"

definition rosidl_size :: "rosidl_buffer \<Rightarrow> u64" where
  "rosidl_size b = (case b of Null_impl \<Rightarrow> 0 | Shared_impl im \<Rightarrow> impl_size im | Other_impl n _ \<Rightarrow> n)"

definition allocate_buffer ::
  "create_mapping \<Rightarrow> u64 \<Rightarrow> 'b world \<Rightarrow> (cpp_error + rosidl_buffer) \<times> 'b world" where
  "allocate_buffer create cnt w =
     (case new_impl create 1 cnt w of
        (Inl e, w1) \<Rightarrow> (Inl e, w1)
      | (Inr im, w1) \<Rightarrow> (Inr (Shared_impl im), w1))"

definition from_output_buffer ::
  "rosidl_buffer \<Rightarrow> 'b world \<Rightarrow> (cpp_error + WriteHandle) \<times> rosidl_buffer \<times> 'b world" where
  "from_output_buffer b w =
     (if b = Null_impl
      then (Inl (Shared_buffer_error ''from_output_buffer called with null buffer implementation''), b, w)
      else if rosidl_size b = 0
      then (Inl (Shared_buffer_error ''from_output_buffer called on empty buffer''), b, w)
      else case b of
        Shared_impl im \<Rightarrow>
          (let (r, sb, w1) = get_write_handle (impl_buffer im) w in (r, Shared_impl (im\<lparr>impl_buffer := sb\<rparr>), w1))
      | _ \<Rightarrow> (Inl (Shared_buffer_error ''from_output_buffer requires a shared-memory-backed buffer''), b, w))"

text \<open>
  Promotion of a buffer of another backend: a fresh byte buffer, the source copied into it, and a
  read handle that keeps the new buffer alive.
\<close>

definition promote ::
  "create_mapping \<Rightarrow> u64 \<Rightarrow> u8 list \<Rightarrow> 'b world \<Rightarrow> (cpp_error + ReadHandle) \<times> 'b world" where
  "promote create bytes source w =
     (case new_impl create 1 bytes w of
        (Inl e, w1) \<Rightarrow> (Inl e, w1)
      | (Inr im, w1) \<Rightarrow>
          (case get_write_handle (impl_buffer im) w1 of
             (Inl e, sb, w2) \<Rightarrow> (Inl e, snd (reset_buffer sb w2))
           | (Inr wr, sb, w2) \<Rightarrow>
               (let w3 = write_memory (write_ptr wr) (take (unat bytes) source) w2;
                    w4 = snd (release_write_handle wr w3)
                in case get_read_handle sb w4 of
                     (Inl e, sb', w5) \<Rightarrow> (Inl e, snd (reset_buffer sb' w5))
                   | (Inr rd, sb', w5) \<Rightarrow> (Inr (set_promoted_buffer sb' rd), w5))))"

definition from_input_buffer ::
  "create_mapping \<Rightarrow> u64 \<Rightarrow> rosidl_buffer \<Rightarrow> 'b world \<Rightarrow> (cpp_error + ReadHandle) \<times> rosidl_buffer \<times> 'b world" where
  "from_input_buffer create esz b w =
     (if b = Null_impl
      then (Inl (Shared_buffer_error ''from_input_buffer called with null buffer implementation''), b, w)
      else if rosidl_size b = 0
      then (Inl (Shared_buffer_error ''from_input_buffer called on empty buffer''), b, w)
      else case b of
        Shared_impl im \<Rightarrow>
          (let (r, sb, w1) = get_read_handle (impl_buffer im) w in (r, Shared_impl (im\<lparr>impl_buffer := sb\<rparr>), w1))
      | Other_impl n source \<Rightarrow>
          (if n > (- 1) div esz
           then (Inl (Shared_buffer_error ''input buffer size overflows size_t''), b, w)
           else (let (r, w1) = promote create (n * esz) source w in (r, b, w1)))
      | Null_impl \<Rightarrow> (Inl (Shared_buffer_error ''from_input_buffer called with null buffer implementation''), b, w))"

end
