(* ===== verification/Buffer_Correct.thy ===== *)
theory Buffer_Correct
  imports Buffer_Impl
begin

text \<open>
  Correctness of \<open>Buffer_Impl\<close>: what resizing, cloning, copying to the CPU and promoting do to the
  bytes, the pool and the headers.  \<open>backed\<close> says that a buffer is the one and only owner of a
  block of the pool; the operations start from a backed buffer with no handle alive and end with
  one, and every exception leaves the world without a leaked block or lease.
\<close>

section \<open>Reading and writing payloads\<close>

lemma object_at_hdr [simp]: "object_at (k\<lparr>hdr := m\<rparr>) a = object_at k a"
  by (simp add: object_at_def)

lemma load_bytes_hdr [simp]: "load_bytes (k\<lparr>hdr := m\<rparr>) a n = load_bytes k a n"
  by (simp add: load_bytes_def split: option.splits)

lemma store_bytes_hdr [simp]: "store_bytes a bs (k\<lparr>hdr := m\<rparr>) = (store_bytes a bs k)\<lparr>hdr := m\<rparr>"
  by (simp add: store_bytes_def split: option.splits)

lemma store_bytes_frame [simp]:
  "hdr (store_bytes a bs k) = hdr k" "vm (store_bytes a bs k) = vm k" "fds (store_bytes a bs k) = fds k"
  "osize (store_bytes a bs k) = osize k" "next_oid (store_bytes a bs k) = next_oid k"
  by (simp_all add: store_bytes_def split: option.splits)

lemma acquire_release_word:
  "fst (try_acquire_shared_buffer_reader ctl m) \<Longrightarrow>
   release_shared_buffer_reader ctl (snd (try_acquire_shared_buffer_reader ctl m)) = m"
  by (auto simp: try_acquire_shared_buffer_reader_def release_shared_buffer_reader_def Let_def
      split: option.splits if_splits)

section \<open>Scopes of handles\<close>

definition handle_idle :: "SharedBuffer \<Rightarrow> 'b world \<Rightarrow> bool" where
  "handle_idle sb w \<longleftrightarrow>
     (case handle_state sb of
        None \<Rightarrow> True
      | Some t \<Rightarrow> t < next_state w \<and> active_readers (states w t) = 0 \<and> access (states w t) \<noteq> InUse)"

definition can_lease :: "SharedBuffer \<Rightarrow> 'b world \<Rightarrow> bool" where
  "can_lease sb w \<longleftrightarrow>
     (case buffer_control sb of None \<Rightarrow> True | Some c \<Rightarrow> fst (try_acquire_shared_buffer_reader (Some c) (hdr (kern w))))"

text \<open>The state of the header while the lease is held.\<close>

definition leased :: "SharedBuffer \<Rightarrow> kernel \<Rightarrow> kernel" where
  "leased sb k =
     (case buffer_control sb of None \<Rightarrow> k | Some c \<Rightarrow> k\<lparr>hdr := snd (try_acquire_shared_buffer_reader (Some c) (hdr k))\<rparr>)"

lemma load_bytes_leased [simp]: "load_bytes (leased sb k) a n = load_bytes k a n"
  by (simp add: leased_def split: option.splits)

lemma store_bytes_leased: "store_bytes a bs (leased sb k) = leased sb (store_bytes a bs k)"
  by (simp add: leased_def split: option.splits)

lemma unlease:
  assumes "can_lease sb w" and "kern w' = leased sb k" and "hdr k = hdr (kern w)"
  shows "drop_lease (buffer_control sb) w' = w'\<lparr>kern := k\<rparr>"
  using assms acquire_release_word [of "buffer_control sb" "hdr k"]
  by (cases w') (auto simp: can_lease_def leased_def drop_lease_def release_shared_buffer_reader_def split: option.splits)

lemma get_read_handle_idle:
  assumes "handle_idle sb w" and "can_lease sb w"
  shows "\<exists>t rh w1. get_read_handle sb w = (Inr rh, sb\<lparr>handle_state := Some t\<rparr>, w1) \<and>
    read_ptr rh = data_ptr sb \<and> read_state rh = Some t \<and> reader_lease rh = buffer_control sb \<and> read_promoted rh = None \<and>
    kern w1 = leased sb (kern w) \<and> pool w1 = pool w \<and> t < next_state w1 \<and> next_state w \<le> next_state w1 \<and>
    active_readers (states w1 t) = 1 \<and> access (states w1 t) \<noteq> InUse \<and>
    (\<forall>u. u < next_state w \<longrightarrow> access (states w1 u) = access (states w u)) \<and>
    (\<forall>u. u \<noteq> t \<longrightarrow> u < next_state w \<longrightarrow> states w1 u = states w u)"
proof -
  obtain t sb1 w1 where e: "ensure_state sb w = (t, sb1, w1)" by (metis prod.exhaust)
  note es = ensure_state_cases [OF e]
  have st: "active_readers (states w1 t) = 0" "access (states w1 t) \<noteq> InUse" "t < next_state w1"
      "next_state w \<le> next_state w1" "\<forall>u. u < next_state w \<longrightarrow> states w1 u = states w u"
    using es assms(1) by (auto simp: handle_idle_def split: option.splits)
  let ?w2 = "update_state t (\<lambda>h. h\<lparr>active_readers := active_readers h + 1\<rparr>) w1"
  have "make_lease (buffer_control sb1) ?w2 = (Inr (buffer_control sb), ?w2\<lparr>kern := leased sb (kern w)\<rparr>)"
    using es assms(2) by (cases "buffer_control sb")
      (auto simp: make_lease_Some can_lease_def leased_def buffer_simps)
  with e es st show ?thesis
    by (intro exI [of _ t]) (simp add: get_read_handle_def buffer_simps)
qed

lemma get_write_handle_fresh:
  assumes "handle_state sb = None" and "writable sb" and "data_ptr sb \<noteq> 0" and "buffer_size sb \<noteq> 0"
  shows "\<exists>wh. get_write_handle sb w =
      (Inr wh, sb\<lparr>handle_state := Some (next_state w)\<rparr>,
       w\<lparr>states := (states w)(next_state w := \<lparr>access = InUse, active_readers = 0\<rparr>), next_state := Suc (next_state w)\<rparr>) \<and>
    write_ptr wh = data_ptr sb \<and> write_state wh = Some (next_state w) \<and> write_promoted wh = None"
  using assms by (simp add: get_write_handle_def ensure_state_def update_state_def Let_def)

lemma release_read_handle_result:
  assumes "read_state rh = Some t" and "read_promoted rh = None"
  shows "snd (release_read_handle rh w) = drop_lease (reader_lease rh) (update_state t leave_reader w)"
  using assms by (simp add: release_read_handle_def drop_promoted_def Let_def)

lemma release_write_handle_result:
  assumes "write_state wh = Some t" and "write_promoted wh = None"
  shows "snd (release_write_handle wh w) = update_state t (\<lambda>h. h\<lparr>access := Finalized\<rparr>) w"
  using assms by (simp add: release_write_handle_def drop_promoted_def Let_def)

lemma copy_payload_ok:
  assumes src: "handle_idle src w" "can_lease src w"
    and dst: "handle_state dst = None" "writable dst" "data_ptr dst \<noteq> 0" "buffer_size dst \<noteq> 0"
  shows "\<exists>t u w'. copy_payload src dst n w = (Inr (), src\<lparr>handle_state := Some t\<rparr>, dst\<lparr>handle_state := Some u\<rparr>, w') \<and>
    handle_idle (src\<lparr>handle_state := Some t\<rparr>) w' \<and> handle_idle (dst\<lparr>handle_state := Some u\<rparr>) w' \<and>
    access (states w' u) = Finalized \<and> pool w' = pool w \<and> next_state w \<le> next_state w' \<and>
    kern w' = store_bytes (data_ptr dst) (load_bytes (kern w) (data_ptr src) n) (kern w)"
proof -
  from get_read_handle_idle [OF src] obtain t rh w1 where r: "get_read_handle src w = (Inr rh, src\<lparr>handle_state := Some t\<rparr>, w1)"
    "read_ptr rh = data_ptr src" "read_state rh = Some t" "reader_lease rh = buffer_control src" "read_promoted rh = None"
    "kern w1 = leased src (kern w)" "pool w1 = pool w" "t < next_state w1" "next_state w \<le> next_state w1"
    "active_readers (states w1 t) = 1" "access (states w1 t) \<noteq> InUse" by blast
  let ?u = "next_state w1"
  from get_write_handle_fresh [OF dst] obtain wh where wr: "get_write_handle dst w1 =
      (Inr wh, dst\<lparr>handle_state := Some ?u\<rparr>,
       w1\<lparr>states := (states w1)(?u := \<lparr>access = InUse, active_readers = 0\<rparr>), next_state := Suc ?u\<rparr>)"
    "write_ptr wh = data_ptr dst" "write_state wh = Some ?u" "write_promoted wh = None" by blast
  let ?bs = "load_bytes (kern w) (data_ptr src) n"
  let ?w2 = "w1\<lparr>states := (states w1)(?u := \<lparr>access = InUse, active_readers = 0\<rparr>), next_state := Suc ?u\<rparr>"
  let ?w3 = "update_state ?u (\<lambda>h. h\<lparr>access := Finalized\<rparr>) (write_memory (data_ptr dst) ?bs ?w2)"
  let ?w4 = "update_state t leave_reader ?w3"
  have res: "copy_payload src dst n w = (Inr (), src\<lparr>handle_state := Some t\<rparr>, dst\<lparr>handle_state := Some ?u\<rparr>,
      drop_lease (buffer_control src) ?w4)"
    using r wr by (simp add: copy_payload_def release_read_handle_result release_write_handle_result Let_def)
  have k4: "kern ?w4 = leased src (store_bytes (data_ptr dst) ?bs (kern w))"
    using r(6) by (simp add: buffer_simps write_memory_def store_bytes_leased)
  have "drop_lease (buffer_control src) ?w4 = ?w4\<lparr>kern := store_bytes (data_ptr dst) ?bs (kern w)\<rparr>"
    by (rule unlease [OF src(2) k4]) simp
  moreover have "active_readers (states ?w4 t) = 0" "access (states ?w4 t) \<noteq> InUse"
      "states ?w4 ?u = \<lparr>access = Finalized, active_readers = 0\<rparr>"
    using r by (simp_all add: buffer_simps write_memory_def leave_reader_def)
  ultimately show ?thesis using res r
    by (intro exI [of _ t] exI [of _ ?u]) (simp add: handle_idle_def buffer_simps write_memory_def)
qed

section \<open>Buffers that own a block\<close>

definition owns :: "SharedBuffer \<Rightarrow> nat \<Rightarrow> 'b world \<Rightarrow> bool" where
  "owns sb i w \<longleftrightarrow> pool_inv (pool w) (kern w) \<and> i < length (all_blocks (pool w)) \<and>
     in_use (all_blocks (pool w) ! i) \<and> data_ptr sb = mapping (all_blocks (pool w) ! i) + kSharedBufferPayloadOffset \<and>
     buffer_size sb = block_payload_size (all_blocks (pool w) ! i) \<and> deleter sb = Free_block (Some i) \<and>
     buffer_control sb = control (all_blocks (pool w) ! i) \<and> writable sb \<and> held_reader_lease sb = None"

definition payload :: "SharedBuffer \<Rightarrow> 'b world \<Rightarrow> u8 list" where
  "payload sb w = load_bytes (kern w) (data_ptr sb) (buffer_size sb)"

lemma owns_block:
  assumes "owns sb i w"
  shows "\<exists>c. buffer_control sb = Some c \<and> control (all_blocks (pool w) ! i) = Some c \<and> c < next_oid (kern w) \<and>
    object_at (kern w) (data_ptr sb) = Some c \<and> length (pay (kern w) c) = unat (buffer_size sb) \<and>
    payload sb w = pay (kern w) c \<and> data_ptr sb \<noteq> 0 \<and> buffer_size sb \<noteq> 0"
proof -
  let ?b = "all_blocks (pool w) ! i"
  have ok: "block_ok (kern w) ?b" using assms by (simp add: owns_def pool_inv_block)
  then obtain c where c: "control ?b = Some c" "c < next_oid (kern w)" "vm (kern w) (mapping ?b) = Some c"
    using block_ok_control by blast
  with ok have len: "length (pay (kern w) c) = unat (block_payload_size ?b)" "block_payload_size ?b \<noteq> 0"
    and bound: "unat (mapping ?b) + 64 < 2 ^ 64"
    by (auto simp: block_ok_def)
  have "unat (mapping ?b + 64) = unat (mapping ?b) + 64"
    using bound by (simp add: unat_word_ariths)
  then have "mapping ?b + 64 \<noteq> 0" by (metis add_eq_0_iff_both_eq_0 unat_0 zero_neq_numeral)
  with assms c len show ?thesis
    by (auto simp: owns_def object_at_def payload_def load_bytes_def kSharedBufferPayloadOffset_def)
qed

lemma owns_disjoint:
  assumes "owns sb i w" and "owns sb' j w" and "i \<noteq> j"
  shows "object_at (kern w) (data_ptr sb) \<noteq> object_at (kern w) (data_ptr sb')"
proof -
  have "blocks_disjoint (all_blocks (pool w))" using assms(1) by (simp add: owns_def pool_inv_def pool_inv_except_def)
  then have "control (all_blocks (pool w) ! i) \<noteq> control (all_blocks (pool w) ! j)"
    using assms by (auto simp: owns_def blocks_disjoint_def)
  with owns_block [OF assms(1)] owns_block [OF assms(2)] show ?thesis by auto
qed

lemma owns_state [simp]: "owns (sb\<lparr>handle_state := t\<rparr>) i w = owns sb i w"
  by (simp add: owns_def)

lemma payload_state [simp]: "payload (sb\<lparr>handle_state := t\<rparr>) w = payload sb w"
  by (simp add: payload_def)

lemma owns_same: "pool w' = pool w \<Longrightarrow> kern w' = kern w \<Longrightarrow> owns sb i w' = owns sb i w"
  by (simp add: owns_def)

lemma payload_same: "kern w' = kern w \<Longrightarrow> payload sb w' = payload sb w"
  by (simp add: payload_def)

text \<open>Storing into the payload of an owned block.\<close>

lemma owns_store:
  assumes own: "owns dst j w" and len: "length bs \<le> unat (buffer_size dst)"
    and k: "kern w' = store_bytes (data_ptr dst) bs (kern w)" and p: "pool w' = pool w"
  shows "owns sb i w' = owns sb i w \<and> payload dst w' = bs @ drop (length bs) (payload dst w) \<and>
    (owns sb i w \<longrightarrow> i \<noteq> j \<longrightarrow> payload sb w' = payload sb w)"
proof -
  obtain c where c: "object_at (kern w) (data_ptr dst) = Some c" "payload dst w = pay (kern w) c"
      "length (pay (kern w) c) = unat (buffer_size dst)"
    using owns_block [OF own] by blast
  let ?bytes = "bs @ drop (length bs) (pay (kern w) c)"
  have k': "kern w' = (kern w)\<lparr>pay := (pay (kern w))(c := ?bytes)\<rparr>" by (simp add: k store_bytes_def c)
  have lb: "length ?bytes = length (pay (kern w) c)" using len c by simp
  have "block_ok (kern w') b = block_ok (kern w) b" "block_lock (kern w') b = block_lock (kern w) b" for b
    unfolding k' using lb by (auto simp: block_ok_def block_lock_def split: option.splits)
  then have "pool_inv (pool w) (kern w') = pool_inv (pool w) (kern w)"
    by (simp add: pool_inv_def pool_inv_except_def)
  moreover have "payload dst w' = ?bytes"
    using c lb by (simp add: payload_def load_bytes_def k' object_at_def)
  moreover have "payload sb w' = payload sb w" if "owns sb i w" "i \<noteq> j"
  proof -
    have "object_at (kern w) (data_ptr sb) \<noteq> Some c" using owns_disjoint [OF that(1) own that(2)] c by simp
    then show ?thesis by (auto simp: payload_def load_bytes_def k' object_at_def split: option.splits)
  qed
  ultimately show ?thesis using c(2) p by (auto simp: owns_def)
qed

text \<open>Destroying an owned buffer puts its block back and leaves every other buffer alone.\<close>

lemma reset_owned:
  assumes "owns sb i w"
  shows "snd (reset_buffer sb w) = w\<lparr>pool := pool_free (Some i) (pool w)\<rparr>"
  using assms owns_block [OF assms]
  by (auto simp: reset_buffer_def owns_def run_deleter_def Let_def)

lemma owns_free_inv: "owns sb i w \<Longrightarrow> pool_inv (pool_free (Some i) (pool w)) (kern w)"
  by (intro pool_free_inv) (simp_all add: owns_def)

lemma owns_after_free:
  assumes "owns sb i w" and "owns other j w" and "i \<noteq> j"
  shows "owns other j (w\<lparr>pool := pool_free (Some i) (pool w)\<rparr>)"
proof -
  have "pool_inv (pool_free (Some i) (pool w)) (kern w)" by (rule owns_free_inv [OF assms(1)])
  moreover have "in_use (all_blocks (pool w) ! i)" using assms(1) by (simp add: owns_def)
  ultimately show ?thesis using assms by (simp add: owns_def pool_free_used)
qed

lemma freed_not_in_use:
  assumes "owns sb i w"
  shows "\<not> in_use (all_blocks (pool_free (Some i) (pool w)) ! i)"
  using assms by (simp add: owns_def pool_free_used)

lemma reset_empty [simp]: "snd (reset_buffer empty_buffer w) = w" "snd (reset_buffer (moved_from sb) w) = w"
  by (simp_all add: reset_buffer_def empty_buffer_def moved_from_def)

lemma assign_buffer_result: "assign_buffer this t w = (t, snd (reset_buffer this w))"
  using move_buffer_same [of t]
  by (cases "reset_buffer this w") (simp add: assign_buffer_def move_assign_buffer_def move_buffer_def)

section \<open>Allocation\<close>

lemma byte_count_iff:
  assumes "esz \<noteq> 0"
  shows "byte_count esz cnt = (if unat cnt * unat esz < 2 ^ 64 then Inr (cnt * esz)
      else Inl (Shared_buffer_error ''shared buffer size overflows size_t''))"
proof -
  have e: "0 < unat esz" using assms by (simp add: unat_gt_0)
  have "cnt > (- 1) div esz \<longleftrightarrow> (2 ^ 64 - 1) div unat esz < unat cnt"
    by (simp add: word_less_nat_alt unat_div unsigned_minus_1_eq_mask mask_eq_exp_minus_1)
  also have "\<dots> \<longleftrightarrow> 2 ^ 64 - 1 < unat cnt * unat esz"
    using e by (simp add: div_less_iff_less_mult)
  finally show ?thesis by (auto simp: byte_count_def)
qed

context platform begin

lemma allocate_raw_success:
  assumes inv: "pool_inv (pool w) (kern w)" and good: "good (kern w) (kSharedBufferPayloadOffset + cnt * esz)"
    and al: "allocate_raw create esz cnt w = (Inr sb, w')"
  shows "byte_count esz cnt = Inr (cnt * esz) \<and> (\<exists>i. owns sb i w' \<and> handle_state sb = None \<and>
    buffer_size sb = cnt * esz \<and> states w' = states w \<and> next_state w' = next_state w \<and>
    (\<exists>c. buffer_control sb = Some c \<and> reader_state (hdr (kern w') c) = 0) \<and>
    (i < length (all_blocks (pool w)) \<longrightarrow> \<not> in_use (all_blocks (pool w) ! i)) \<and>
    (\<forall>other j. owns other j w \<longrightarrow> j \<noteq> i \<and> owns other j w' \<and> payload other w' = payload other w \<and>
       (\<forall>c. buffer_control other = Some c \<longrightarrow> hdr (kern w') c = hdr (kern w) c)))"
proof -
  from al obtain bytes where bc: "byte_count esz cnt = Inr bytes"
    by (auto simp: allocate_raw_def split: sum.splits)
  then have bytes: "bytes = cnt * esz" by (auto simp: byte_count_def split: if_splits)
  obtain r p k where a: "allocate create bytes (pool w) (kern w) = (r, p, k)" by (metis prod.exhaust)
  with al bc obtain i where r: "r = Inr i" by (cases r) (auto simp: allocate_raw_def)
  let ?b = "all_blocks p ! i"
  from a al bc r have sb: "shared_buffer (mapping ?b + kSharedBufferPayloadOffset) bytes (Free_block (Some i)) (control ?b)
      None (block_id ?b) (mapped_size ?b) True 0 '''' 0 = Inr sb"
    and w': "w' = w\<lparr>pool := p, kern := k\<rparr>"
    by (simp_all add: allocate_raw_def Let_def)
  note alloc = allocate_success [OF inv good [folded bytes] a [unfolded r]]
  then obtain c where c: "control ?b = Some c" "reader_state (hdr k c) = 0" by blast
  from sb have f: "data_ptr sb = mapping ?b + kSharedBufferPayloadOffset" "buffer_size sb = bytes"
    "deleter sb = Free_block (Some i)" "buffer_control sb = control ?b" "held_reader_lease sb = None"
    "handle_state sb = None" "writable sb"
    by (auto simp: shared_buffer_def split: if_splits)
  have own: "owns sb i w'" using alloc f w' by (simp add: owns_def)
  have keep: "j \<noteq> i \<and> owns other j w' \<and> payload other w' = payload other w \<and>
      (\<forall>c. buffer_control other = Some c \<longrightarrow> hdr (kern w') c = hdr (kern w) c)" if o: "owns other j w" for other j
  proof -
    have ne: "j \<noteq> i" using o alloc by (auto simp: owns_def)
    moreover have "j < length (all_blocks p)" using o alloc by (auto simp: owns_def)
    ultimately have o': "owns other j w'" using o alloc w' by (simp add: owns_def)
    obtain d where d: "buffer_control other = Some d" "d < next_oid (kern w)" "payload other w = pay (kern w) d"
      using owns_block [OF o] by blast
    have "payload other w' = pay (kern w') d" using owns_block [OF o'] d(1) by auto
    moreover have "control ?b \<noteq> Some d"
      using o' own d(1) ne blocks_disjoint_def owns_disjoint [OF o' own ne] owns_block [OF o'] owns_block [OF own] c f(4) by auto
    ultimately show ?thesis using ne o' alloc d w' by simp
  qed
  have free: "i < length (all_blocks (pool w)) \<longrightarrow> \<not> in_use (all_blocks (pool w) ! i)" using alloc by auto
  have "\<exists>c. buffer_control sb = Some c \<and> reader_state (hdr (kern w') c) = 0" using c f w' by simp
  moreover have "states w' = states w" "next_state w' = next_state w" using w' by simp_all
  ultimately show ?thesis using own keep free f(2,6) bc unfolding bytes by blast
qed

lemma allocate_raw_failure:
  assumes inv: "pool_inv (pool w) (kern w)" and good: "good (kern w) (kSharedBufferPayloadOffset + cnt * esz)"
    and al: "allocate_raw create esz cnt w = (Inl e, w')"
  shows "pool_inv (pool w') (kern w') \<and> states w' = states w \<and> next_state w' = next_state w \<and>
    fds (kern w') = fds (kern w) \<and> vm (kern w') = vm (kern w) \<and>
    (\<forall>other j. owns other j w \<longrightarrow> owns other j w' \<and> payload other w' = payload other w \<and>
       (\<forall>c. buffer_control other = Some c \<longrightarrow> hdr (kern w') c = hdr (kern w) c))"
proof (cases "byte_count esz cnt")
  case (Inl e')
  with al inv show ?thesis by (simp add: allocate_raw_def)
next
  case (Inr bytes)
  then have bytes: "bytes = cnt * esz" by (auto simp: byte_count_def split: if_splits)
  obtain r p k where a: "allocate create bytes (pool w) (kern w) = (r, p, k)" by (metis prod.exhaust)
  show ?thesis
  proof (cases r)
    case (Inr i)
    with al a \<open>byte_count esz cnt = Inr bytes\<close> have "shared_buffer (mapping (all_blocks p ! i) + kSharedBufferPayloadOffset)
        bytes (Free_block (Some i)) (control (all_blocks p ! i)) None (block_id (all_blocks p ! i))
        (mapped_size (all_blocks p ! i)) True 0 '''' 0 = Inl e" "w' = w\<lparr>pool := p, kern := k\<rparr>"
      by (simp_all add: allocate_raw_def Let_def)
    moreover note alloc = allocate_success [OF inv good [folded bytes] a [unfolded Inr]]
    moreover have "mapping (all_blocks p ! i) + kSharedBufferPayloadOffset \<noteq> 0"
    proof -
      define sb where "sb = empty_buffer\<lparr>data_ptr := mapping (all_blocks p ! i) + kSharedBufferPayloadOffset,
        buffer_size := block_payload_size (all_blocks p ! i), deleter := Free_block (Some i),
        buffer_control := control (all_blocks p ! i)\<rparr>"
      have "owns sb i (w\<lparr>pool := p, kern := k\<rparr>)" using alloc by (simp add: owns_def sb_def empty_buffer_def)
      from owns_block [OF this] show ?thesis by (auto simp: sb_def)
    qed
    ultimately show ?thesis by (simp add: shared_buffer_def)
  next
    case (Inl e')
    with al a \<open>byte_count esz cnt = Inr bytes\<close> have w': "w' = w\<lparr>pool := p, kern := k\<rparr>"
      by (simp add: allocate_raw_def)
    note alloc = allocate_failure [OF inv good [folded bytes] a [unfolded Inl]]
    have "owns other j w' \<and> payload other w' = payload other w \<and>
       (\<forall>c. buffer_control other = Some c \<longrightarrow> hdr (kern w') c = hdr (kern w) c)" if o: "owns other j w" for other j
    proof -
      have o': "owns other j w'" using o alloc w' by (simp add: owns_def)
      with owns_block [OF o] owns_block [OF o'] alloc w' show ?thesis by (auto simp: objects_kept_def)
    qed
    then show ?thesis using alloc w' by simp
  qed
qed

end

section \<open>Resizing, cloning, copying out\<close>

lemma can_lease_word:
  assumes "\<forall>c. buffer_control sb = Some c \<longrightarrow> hdr (kern w') c = hdr (kern w) c"
  shows "can_lease sb w' = can_lease sb w"
  using assms by (auto simp: can_lease_def try_acquire_shared_buffer_reader_def Let_def split: option.splits)

lemma can_lease_idle: "buffer_control sb = Some c \<Longrightarrow> reader_state (hdr (kern w) c) = 0 \<Longrightarrow> can_lease sb w"
  by (simp add: can_lease_def try_acquire_shared_buffer_reader_def acquire_refused_iff Let_def)

lemma handle_idle_frame:
  "handle_idle sb w \<Longrightarrow> states w' = states w \<Longrightarrow> next_state w' = next_state w \<Longrightarrow> handle_idle sb w'"
  by (simp add: handle_idle_def split: option.splits)

lemma handle_idle_world [simp]:
  "handle_idle sb (w\<lparr>pool := p\<rparr>) = handle_idle sb w" "handle_idle sb (w\<lparr>kern := k\<rparr>) = handle_idle sb w"
  by (simp_all add: handle_idle_def split: option.splits)

lemma payload_world [simp]: "payload sb (w\<lparr>pool := p\<rparr>) = payload sb w"
  by (simp add: payload_def)

lemma handle_idle_fresh [simp]: "handle_state sb = None \<Longrightarrow> handle_idle sb w"
  by (simp add: handle_idle_def)

lemma byte_count_Inr: "esz \<noteq> 0 \<Longrightarrow> byte_count esz cnt = Inr b \<Longrightarrow> unat b = unat cnt * unat esz \<and> b = cnt * esz"
  by (auto simp: byte_count_iff unat_word_ariths split: if_splits)

lemma byte_count_mult: "esz \<noteq> 0 \<Longrightarrow> byte_count esz cnt = Inr b \<Longrightarrow> unat (cnt * esz) = unat cnt * unat esz"
  using byte_count_Inr by metis

definition others_kept :: "nat set \<Rightarrow> 'b world \<Rightarrow> 'b world \<Rightarrow> bool" where
  "others_kept I w w' \<longleftrightarrow>
     (\<forall>other j. j \<notin> I \<longrightarrow> owns other j w \<longrightarrow> owns other j w' \<and> payload other w' = payload other w)"

lemma others_kept_compose:
  assumes a: "others_kept I w w1" and b: "others_kept J w1 w2" and c: "\<And>other j. owns other j w \<Longrightarrow> j \<in> J \<Longrightarrow> j \<in> I"
  shows "others_kept I w w2"
  unfolding others_kept_def
proof (intro allI impI)
  fix other j assume j: "j \<notin> I" "owns other j w"
  with a have 1: "owns other j w1" "payload other w1 = payload other w" by (auto simp: others_kept_def)
  moreover have "j \<notin> J" using c j by blast
  ultimately show "owns other j w2 \<and> payload other w2 = payload other w"
    using b by (auto simp: others_kept_def)
qed

lemma copy_between_owned:
  assumes src: "owns src i w" "handle_idle src w" "can_lease src w"
    and dst: "owns dst j w" "handle_state dst = None" and ne: "i \<noteq> j"
    and n: "n \<le> buffer_size src" "n \<le> buffer_size dst"
  shows "\<exists>t u w'. copy_payload src dst n w = (Inr (), src\<lparr>handle_state := Some t\<rparr>, dst\<lparr>handle_state := Some u\<rparr>, w') \<and>
    owns src i w' \<and> owns dst j w' \<and> handle_idle (src\<lparr>handle_state := Some t\<rparr>) w' \<and>
    handle_idle (dst\<lparr>handle_state := Some u\<rparr>) w' \<and> access (states w' u) = Finalized \<and> pool w' = pool w \<and>
    hdr (kern w') = hdr (kern w) \<and> payload src w' = payload src w \<and>
    payload dst w' = take (unat n) (payload src w) @ drop (unat n) (payload dst w) \<and> others_kept {j} w w'"
proof -
  obtain c where c: "length (payload src w) = unat (buffer_size src)" "object_at (kern w) (data_ptr src) = Some c"
      "payload src w = pay (kern w) c" using owns_block [OF src(1)] by auto
  have nd: "data_ptr dst \<noteq> 0" "buffer_size dst \<noteq> 0" "writable dst"
    using owns_block [OF dst(1)] dst(1) by (auto simp: owns_def)
  let ?bs = "load_bytes (kern w) (data_ptr src) n"
  have bs: "?bs = take (unat n) (payload src w)" "length ?bs = unat n"
    using c n(1) by (simp_all add: load_bytes_def word_le_nat_alt)
  from copy_payload_ok [OF src(2,3) dst(2) nd(3,1,2), of n] obtain t u w' where
    cp: "copy_payload src dst n w = (Inr (), src\<lparr>handle_state := Some t\<rparr>, dst\<lparr>handle_state := Some u\<rparr>, w')"
      "handle_idle (src\<lparr>handle_state := Some t\<rparr>) w'" "handle_idle (dst\<lparr>handle_state := Some u\<rparr>) w'"
      "access (states w' u) = Finalized" "pool w' = pool w"
      "kern w' = store_bytes (data_ptr dst) ?bs (kern w)" by blast
  have len: "length ?bs \<le> unat (buffer_size dst)" using bs n(2) by (simp add: word_le_nat_alt)
  note st = owns_store [OF dst(1) len cp(6,5)]
  have "owns src i w'" "owns dst j w'" "payload src w' = payload src w" using st src(1) dst(1) ne by blast+
  moreover have "payload dst w' = take (unat n) (payload src w) @ drop (unat n) (payload dst w)"
    using st bs by metis
  moreover have "others_kept {j} w w'" using st by (auto simp: others_kept_def)
  moreover have "hdr (kern w') = hdr (kern w)" by (simp add: cp(6))
  ultimately show ?thesis using cp(1-5) by blast
qed

context platform begin

lemma resize_success:
  assumes own: "owns (impl_buffer im) i w" and idle: "handle_idle (impl_buffer im) w"
    and lease: "can_lease (impl_buffer im) w" and esz: "esz \<noteq> 0"
    and bc: "byte_count esz (impl_size im) = Inr (buffer_size (impl_buffer im))"
    and sz: "sz \<noteq> 0" "sz \<noteq> impl_size im" and good: "good (kern w) (kSharedBufferPayloadOffset + sz * esz)"
    and res: "resize_impl create esz sz im w = (Inr (), im', w')"
  shows "impl_size im' = sz \<and> byte_count esz sz = Inr (buffer_size (impl_buffer im')) \<and>
    (\<exists>j. j \<noteq> i \<and> owns (impl_buffer im') j w' \<and> handle_idle (impl_buffer im') w' \<and>
       (\<exists>t. handle_state (impl_buffer im') = Some t \<and> access (states w' t) = Finalized)) \<and>
    (let m = unat (min sz (impl_size im)) * unat esz in
       take m (payload (impl_buffer im') w') = take m (payload (impl_buffer im) w)) \<and>
    \<not> in_use (all_blocks (pool w') ! i) \<and> others_kept {i} w w'"
proof -
  let ?sb = "impl_buffer im" and ?n = "min sz (impl_size im) * esz"
  obtain r w1 where al: "allocate_raw create esz sz w = (r, w1)" by (cases "allocate_raw create esz sz w")
  with res sz obtain fresh where r: "r = Inr fresh" by (cases r) (auto simp: resize_impl_def)
  have inv: "pool_inv (pool w) (kern w)" using own by (simp add: owns_def)
  note alloc = allocate_raw_success [OF inv good al [unfolded r]]
  then obtain j where j: "owns fresh j w1" "handle_state fresh = None" "buffer_size fresh = sz * esz"
      "states w1 = states w" "next_state w1 = next_state w"
    and keep: "\<And>other k. owns other k w \<Longrightarrow> k \<noteq> j \<and> owns other k w1 \<and> payload other w1 = payload other w \<and>
       (\<forall>c. buffer_control other = Some c \<longrightarrow> hdr (kern w1) c = hdr (kern w) c)"
    and bcs: "byte_count esz sz = Inr (sz * esz)" by blast
  have ij: "i \<noteq> j" "owns ?sb i w1" "payload ?sb w1 = payload ?sb w" using keep [OF own] by auto
  have idle1: "handle_idle ?sb w1" using idle j(4,5) by (rule handle_idle_frame)
  have lease1: "can_lease ?sb w1" using lease keep [OF own] can_lease_word by blast
  have szs: "unat (buffer_size ?sb) = unat (impl_size im) * unat esz" "unat (sz * esz) = unat sz * unat esz"
    using byte_count_Inr [OF esz bc] byte_count_mult [OF esz bcs] by blast+
  have m: "unat ?n = unat (min sz (impl_size im)) * unat esz"
    using szs byte_count_mult [OF esz bc] by (cases "sz \<le> impl_size im") (simp_all add: min_def)
  have "impl_size im \<noteq> 0" using szs(1) owns_block [OF own] by (auto simp: unat_eq_0)
  then have "unat (min sz (impl_size im)) \<noteq> 0" using sz(1) by (simp add: min_def unat_eq_0)
  then have pos: "?n > 0" using m esz by (simp add: word_less_nat_alt unat_gt_0)
  have le: "?n \<le> buffer_size ?sb" "?n \<le> buffer_size fresh"
    unfolding word_le_nat_alt m j(3) szs by (auto simp: min_def word_le_nat_alt)
  from copy_between_owned [OF ij(2) idle1 lease1 j(1,2) ij(1) le] obtain t u w2 where
    cp: "copy_payload ?sb fresh ?n w1 = (Inr (), ?sb\<lparr>handle_state := Some t\<rparr>, fresh\<lparr>handle_state := Some u\<rparr>, w2)"
      "owns ?sb i w2" "owns fresh j w2" "handle_idle (fresh\<lparr>handle_state := Some u\<rparr>) w2" "access (states w2 u) = Finalized"
      "pool w2 = pool w1"
      "payload fresh w2 = take (unat ?n) (payload ?sb w1) @ drop (unat ?n) (payload fresh w1)" "others_kept {j} w1 w2"
    by blast
  have nz: "data_ptr ?sb \<noteq> 0" using owns_block [OF own] by blast
  let ?sb' = "?sb\<lparr>handle_state := Some t\<rparr>" and ?fresh' = "fresh\<lparr>handle_state := Some u\<rparr>"
  have own2: "owns ?sb' i w2" using cp(2) by simp
  have w': "w' = w2\<lparr>pool := pool_free (Some i) (pool w2)\<rparr>" and im': "im' = \<lparr>impl_size = sz, impl_buffer = ?fresh'\<rparr>"
    using res sz al r pos nz cp(1) reset_owned [OF own2]
    by (simp_all add: resize_impl_def assign_buffer_result)
  have "owns (impl_buffer im') j w'" unfolding w' im'
    using owns_after_free [OF own2 _ ij(1), of ?fresh'] cp(3) by simp
  moreover have "others_kept {i} w w'"
    unfolding others_kept_def w'
  proof (intro allI impI)
    fix other k assume k: "k \<notin> {i}" "owns other k w"
    with keep [OF k(2)] cp(8) have "owns other k w2" "payload other w2 = payload other w"
      by (auto simp: others_kept_def)
    with owns_after_free [OF own2 this(1)] k(1)
    show "owns other k (w2\<lparr>pool := pool_free (Some i) (pool w2)\<rparr>) \<and>
        payload other (w2\<lparr>pool := pool_free (Some i) (pool w2)\<rparr>) = payload other w" by auto
  qed
  moreover have "length (take (unat ?n) (payload ?sb w1)) = unat ?n"
    using owns_block [OF ij(2)] le(1) by (auto simp: word_le_nat_alt)
  then have "take (unat ?n) (payload (impl_buffer im') w') = take (unat ?n) (payload ?sb w)"
    using cp(7) ij(3) w' im' by simp
  moreover have "\<not> in_use (all_blocks (pool w') ! i)" using freed_not_in_use [OF own2] w' by simp
  ultimately show ?thesis using im' bcs j(3) cp(4,5) ij(1) w' m by (auto simp: Let_def)
qed

lemma resize_failure:
  assumes own: "owns (impl_buffer im) i w" and idle: "handle_idle (impl_buffer im) w"
    and lease: "can_lease (impl_buffer im) w" and esz: "esz \<noteq> 0"
    and bc: "byte_count esz (impl_size im) = Inr (buffer_size (impl_buffer im))"
    and good: "good (kern w) (kSharedBufferPayloadOffset + sz * esz)"
    and res: "resize_impl create esz sz im w = (Inl e, im', w')"
  shows "im' = im \<and> owns (impl_buffer im) i w' \<and> payload (impl_buffer im) w' = payload (impl_buffer im) w \<and>
    handle_idle (impl_buffer im) w' \<and> fds (kern w') = fds (kern w) \<and> vm (kern w') = vm (kern w) \<and> others_kept {} w w'"
proof -
  let ?sb = "impl_buffer im" and ?n = "min sz (impl_size im) * esz"
  have sz: "sz \<noteq> impl_size im" "sz \<noteq> 0" using res by (auto simp: resize_impl_def split: if_splits prod.splits)
  obtain r w1 where al: "allocate_raw create esz sz w = (r, w1)" by (cases "allocate_raw create esz sz w")
  have inv: "pool_inv (pool w) (kern w)" using own by (simp add: owns_def)
  show ?thesis
  proof (cases r)
    case (Inl e')
    with res sz al have "im' = im" "w' = w1" by (simp_all add: resize_impl_def)
    with allocate_raw_failure [OF inv good al [unfolded Inl]] own idle show ?thesis
      by (auto simp: others_kept_def intro: handle_idle_frame)
  next
    case (Inr fresh)
    note alloc = allocate_raw_success [OF inv good al [unfolded Inr]]
    then obtain j where j: "owns fresh j w1" "handle_state fresh = None" "buffer_size fresh = sz * esz"
        "states w1 = states w" "next_state w1 = next_state w"
      and keep: "i \<noteq> j \<and> owns ?sb i w1 \<and> (\<forall>c. buffer_control ?sb = Some c \<longrightarrow> hdr (kern w1) c = hdr (kern w) c)"
      and bcs: "byte_count esz sz = Inr (sz * esz)" using own by metis
    have idle1: "handle_idle ?sb w1" using idle j(4,5) by (rule handle_idle_frame)
    have lease1: "can_lease ?sb w1" using lease keep can_lease_word by blast
    have "unat (buffer_size ?sb) = unat (impl_size im) * unat esz" "unat (sz * esz) = unat sz * unat esz"
      using byte_count_Inr [OF esz bc] byte_count_mult [OF esz bcs] by blast+
    moreover from this have "unat ?n = unat (min sz (impl_size im)) * unat esz"
      using byte_count_mult [OF esz bc] by (cases "sz \<le> impl_size im") (simp_all add: min_def)
    ultimately have "?n \<le> buffer_size ?sb" "?n \<le> buffer_size fresh"
      unfolding word_le_nat_alt j(3) by (auto simp: min_def word_le_nat_alt)
    with copy_between_owned [of ?sb i w1 fresh j ?n] keep idle1 lease1 j(1,2)
    obtain a b w2 where "copy_payload ?sb fresh ?n w1 = (Inr (), a, b, w2)" by blast
    with res sz al Inr show ?thesis
      by (auto simp: resize_impl_def Let_def assign_buffer_result split: if_splits)
  qed
qed

end

lemma new_impl_positive:
  "sz > 0 \<Longrightarrow> new_impl create esz sz w =
     (case allocate_raw create esz sz w of (Inl e, w1) \<Rightarrow> (Inl e, w1)
      | (Inr sb, w1) \<Rightarrow> (Inr \<lparr>impl_size = sz, impl_buffer = sb\<rparr>, w1))"
  using move_buffer_same
  by (auto simp: new_impl_def move_assign_buffer_def move_buffer_def split: prod.splits sum.splits)
    (metis reset_empty snd_conv)+

context platform begin

lemma clone_success:
  assumes own: "owns (impl_buffer im) i w" and idle: "handle_idle (impl_buffer im) w"
    and lease: "can_lease (impl_buffer im) w" and esz: "esz \<noteq> 0"
    and bc: "byte_count esz (impl_size im) = Inr (buffer_size (impl_buffer im))"
    and good: "good (kern w) (kSharedBufferPayloadOffset + impl_size im * esz)"
    and res: "clone_impl create esz im w = (Inr copy, im', w')"
  shows "impl_size copy = impl_size im \<and> impl_size im' = impl_size im \<and>
    (\<exists>j. j \<noteq> i \<and> owns (impl_buffer copy) j w' \<and> handle_idle (impl_buffer copy) w' \<and>
       (\<exists>t. handle_state (impl_buffer copy) = Some t \<and> access (states w' t) = Finalized)) \<and>
    payload (impl_buffer copy) w' = payload (impl_buffer im) w \<and>
    owns (impl_buffer im') i w' \<and> handle_idle (impl_buffer im') w' \<and>
    payload (impl_buffer im') w' = payload (impl_buffer im) w \<and> others_kept {} w w'"
proof -
  let ?sb = "impl_buffer im" and ?n = "impl_size im * esz"
  have nz: "impl_size im \<noteq> 0"
    using byte_count_Inr [OF esz bc] owns_block [OF own] by (auto simp: unat_eq_0)
  then have pos: "impl_size im > 0" by (simp add: word_gt_0)
  obtain r w1 where al: "allocate_raw create esz (impl_size im) w = (r, w1)"
    by (cases "allocate_raw create esz (impl_size im) w")
  with res pos obtain fresh where r: "r = Inr fresh"
    by (cases r) (auto simp: clone_impl_def new_impl_positive)
  have inv: "pool_inv (pool w) (kern w)" using own by (simp add: owns_def)
  note alloc = allocate_raw_success [OF inv good al [unfolded r]]
  then obtain j where j: "owns fresh j w1" "handle_state fresh = None" "buffer_size fresh = ?n"
      "states w1 = states w" "next_state w1 = next_state w"
    and keep: "\<And>other k. owns other k w \<Longrightarrow> k \<noteq> j \<and> owns other k w1 \<and> payload other w1 = payload other w \<and>
       (\<forall>c. buffer_control other = Some c \<longrightarrow> hdr (kern w1) c = hdr (kern w) c)" by blast
  have ij: "i \<noteq> j" "owns ?sb i w1" "payload ?sb w1 = payload ?sb w" using keep [OF own] by auto
  have idle1: "handle_idle ?sb w1" using idle j(4,5) by (rule handle_idle_frame)
  have lease1: "can_lease ?sb w1" using lease keep [OF own] can_lease_word by blast
  have n: "buffer_size ?sb = ?n" using byte_count_Inr [OF esz bc] by simp
  from copy_between_owned [OF ij(2) idle1 lease1 j(1,2) ij(1), of ?n] n j(3) obtain t u w2 where
    cp: "copy_payload ?sb fresh ?n w1 = (Inr (), ?sb\<lparr>handle_state := Some t\<rparr>, fresh\<lparr>handle_state := Some u\<rparr>, w2)"
      "owns ?sb i w2" "owns fresh j w2" "handle_idle (?sb\<lparr>handle_state := Some t\<rparr>) w2"
      "handle_idle (fresh\<lparr>handle_state := Some u\<rparr>) w2" "access (states w2 u) = Finalized" "payload ?sb w2 = payload ?sb w1"
      "payload fresh w2 = take (unat ?n) (payload ?sb w1) @ drop (unat ?n) (payload fresh w1)" "others_kept {j} w1 w2"
    by (metis order_refl)
  have lens: "length (payload ?sb w1) = unat ?n" "length (payload fresh w1) = unat ?n"
    using owns_block [OF ij(2)] owns_block [OF j(1)] n j(3) by auto
  have res': "copy = \<lparr>impl_size = impl_size im, impl_buffer = fresh\<lparr>handle_state := Some u\<rparr>\<rparr>"
      "im' = im\<lparr>impl_buffer := ?sb\<lparr>handle_state := Some t\<rparr>\<rparr>" "w' = w2"
    using res al r pos cp(1) by (simp_all add: clone_impl_def new_impl_positive)
  have "others_kept {} w w1" using keep by (auto simp: others_kept_def)
  from others_kept_compose [OF this cp(9)] keep have "others_kept {} w w2" by blast
  then show ?thesis using cp ij lens res' by auto
qed

lemma promote_success:
  assumes inv: "pool_inv (pool w) (kern w)" and good: "good (kern w) (kSharedBufferPayloadOffset + bytes)"
    and nz: "bytes \<noteq> 0" and len: "length source = unat bytes" and res: "promote create bytes source w = (Inr rd, w')"
  shows "load_bytes (kern w') (read_ptr rd) bytes = source \<and> others_kept {} w w' \<and>
    (let w'' = snd (release_read_handle rd w') in
       \<exists>j. pool w'' = pool_free (Some j) (pool w') \<and> \<not> in_use (all_blocks (pool w'') ! j) \<and>
           pool_inv (pool w'') (kern w'') \<and> others_kept {} w w'')"
proof -
  obtain r w1 where al: "allocate_raw create 1 bytes w = (r, w1)" by (cases "allocate_raw create 1 bytes w")
  have pos: "bytes > 0" using nz by (simp add: word_gt_0)
  from al res pos obtain sb where r: "r = Inr sb" by (cases r) (auto simp: promote_def new_impl_positive)
  from allocate_raw_success [OF inv _ al [unfolded r]] good obtain j where
    j: "owns sb j w1" "handle_state sb = None" "buffer_size sb = bytes"
      "\<exists>c. buffer_control sb = Some c \<and> reader_state (hdr (kern w1) c) = 0"
    and keep: "\<And>other k. owns other k w \<Longrightarrow> k \<noteq> j \<and> owns other k w1 \<and> payload other w1 = payload other w" by auto
  have nd: "data_ptr sb \<noteq> 0" "buffer_size sb \<noteq> 0" "writable sb"
    using owns_block [OF j(1)] j(1) by (auto simp: owns_def)
  let ?u = "next_state w1"
  let ?w2 = "w1\<lparr>states := (states w1)(?u := \<lparr>access = InUse, active_readers = 0\<rparr>), next_state := Suc ?u\<rparr>"
  let ?sb = "sb\<lparr>handle_state := Some ?u\<rparr>"
  from get_write_handle_fresh [OF j(2) nd(3,1,2), of w1] obtain wh where
    wr: "get_write_handle sb w1 = (Inr wh, ?sb, ?w2)" "write_ptr wh = data_ptr sb" "write_state wh = Some ?u"
      "write_promoted wh = None" by blast
  let ?w3 = "write_memory (data_ptr sb) source ?w2"
  let ?w4 = "update_state ?u (\<lambda>h. h\<lparr>access := Finalized\<rparr>) ?w3"
  have k4: "kern ?w4 = store_bytes (data_ptr sb) source (kern w1)" "pool ?w4 = pool w1"
    by (simp_all add: buffer_simps write_memory_def)
  have len': "length source \<le> unat (buffer_size sb)" using len j(3) by simp
  note st = owns_store [OF j(1) len' k4]
  have idle4: "handle_idle ?sb ?w4" by (simp add: handle_idle_def buffer_simps write_memory_def)
  have lease4: "can_lease ?sb ?w4" using j(4) k4 by (auto intro: can_lease_idle)
  have own4: "owns ?sb j ?w4" using st j(1) by simp
  from get_read_handle_idle [OF idle4 lease4] obtain t rh w5 where
    rd: "get_read_handle ?sb ?w4 = (Inr rh, ?sb\<lparr>handle_state := Some t\<rparr>, w5)" "read_ptr rh = data_ptr ?sb"
      "read_state rh = Some t" "reader_lease rh = buffer_control ?sb" "read_promoted rh = None"
      "kern w5 = leased ?sb (kern ?w4)" "pool w5 = pool ?w4" by blast
  have res': "rd = rh\<lparr>read_promoted := Some (?sb\<lparr>handle_state := Some t\<rparr>)\<rparr>" "w' = w5"
    using res al r pos wr rd(1) len
    by (simp_all add: promote_def new_impl_positive release_write_handle_result Let_def)
  have pl: "payload sb ?w4 = source"
    using st owns_block [OF j(1)] len j(3) by auto
  have read: "load_bytes (kern w') (read_ptr rd) bytes = source"
    using pl rd(2,6) j(3) by (simp add: res' payload_def)
  have keep4: "others_kept {} w ?w4" using st keep by (fastforce simp: others_kept_def)
  have bw: "block_ok (leased ?sb k) b = block_ok k b" for k b
    by (auto simp: leased_def block_ok_def try_acquire_shared_buffer_reader_def Let_def split: option.splits)
  have other5: "owns other k w5 \<and> payload other w5 = payload other ?w4" if "owns other k ?w4" for other k
  proof -
    have "pool_inv (pool ?w4) (leased ?sb (kern ?w4))"
    proof -
      obtain c where c: "buffer_control ?sb = Some c" using owns_block [OF own4] by blast
      have "leased ?sb (kern ?w4) = (kern ?w4)\<lparr>hdr := snd (try_acquire_shared_buffer_reader (Some c) (hdr (kern ?w4)))\<rparr>"
        by (simp add: leased_def c)
      moreover have "pool_inv (pool ?w4) (kern ?w4)" using own4 by (simp add: owns_def)
      ultimately show ?thesis
        by (simp only:) (rule pool_inv_headers, auto simp: same_layout_def intro: acquire_keeps_open)
    qed
    with that rd(6,7) show ?thesis by (simp add: owns_def payload_def)
  qed
  have "others_kept {} ?w4 w5" using other5 by (auto simp: others_kept_def)
  from others_kept_compose [OF keep4 this] have keep5: "others_kept {} w w5" by blast
  let ?w6 = "update_state t leave_reader w5"
  have "drop_lease (buffer_control ?sb) ?w6 = ?w6\<lparr>kern := kern ?w4\<rparr>"
    by (rule unlease [OF lease4]) (simp_all add: buffer_simps rd(6))
  then have rel: "snd (release_read_handle rd w') = snd (reset_buffer (sb\<lparr>handle_state := Some t\<rparr>) (?w6\<lparr>kern := kern ?w4\<rparr>))"
    using rd(3,4) by (simp add: res' release_read_handle_def drop_promoted_def Let_def)
  let ?w7 = "?w6\<lparr>kern := kern ?w4\<rparr>"
  have same7: "pool ?w7 = pool ?w4" "kern ?w7 = kern ?w4" by (simp_all add: buffer_simps rd(7))
  then have own7: "owns (sb\<lparr>handle_state := Some t\<rparr>) j ?w7" using own4 owns_same [of ?w7 ?w4] by simp
  have fin: "snd (release_read_handle rd w') = ?w7\<lparr>pool := pool_free (Some j) (pool ?w7)\<rparr>"
    unfolding rel by (rule reset_owned [OF own7])
  have "others_kept {} w (?w7\<lparr>pool := pool_free (Some j) (pool ?w7)\<rparr>)"
    unfolding others_kept_def
  proof (intro allI impI)
    fix other k assume "k \<notin> {}" "owns other k w"
    with keep4 keep have ow: "owns other k ?w4" "payload other ?w4 = payload other w" "k \<noteq> j"
      by (auto simp: others_kept_def)
    then have "owns other k ?w7" using owns_same [OF same7] by simp
    with owns_after_free [OF own7 this] ow show "owns other k (?w7\<lparr>pool := pool_free (Some j) (pool ?w7)\<rparr>) \<and>
        payload other (?w7\<lparr>pool := pool_free (Some j) (pool ?w7)\<rparr>) = payload other w"
      using payload_same [of ?w7 ?w4] same7 by simp
  qed
  moreover have "pool_inv (pool_free (Some j) (pool ?w7)) (kern ?w7)"
    by (rule owns_free_inv [OF own7])
  ultimately show ?thesis using read keep5 fin freed_not_in_use [OF own7] same7 rd(7) res'(2)
    by (auto simp: Let_def intro!: exI [of _ j])
qed

end

section \<open>A concrete buffer\<close>

definition sample_impl :: SharedBufferImpl where
  "sample_impl = \<lparr>impl_size = 4, impl_buffer = sample_buffer\<rparr>"

definition sample_env2 :: linux_create_env where
  "sample_env2 = \<lparr>memfd_result = 8, ftruncate_ok = True, mmap_result = Some 0x7F0000010000, errno_text = ''''\<rparr>"

lemma sample_owns: "owns sample_buffer 0 sample_world"
proof -
  have "pool_inv sample_pool1 sample_kernel1" using pool_reachable_inv [OF sample_pool1_reachable] by simp
  then show ?thesis
    by (simp add: owns_def sample_world_def sample_buffer_def sample_pool1_def kSharedBufferPayloadOffset_def)
qed

lemma sample_idle: "handle_idle sample_buffer sample_world"
  by (simp add: sample_buffer_def)

lemma sample_lease: "can_lease sample_buffer sample_world"
  by (rule can_lease_idle [of _ 0])
    (simp_all add: sample_buffer_def sample_world_def sample_kernel1_def default_control_header_def)

lemma sample_bytes: "byte_count 1 (impl_size sample_impl) = Inr (buffer_size (impl_buffer sample_impl))"
  by (simp add: byte_count_iff sample_impl_def sample_buffer_def)

lemma sample_good2: "linux_good sample_env2 (kern sample_world) sz" if "unat sz < 2 ^ 12"
  using that by (simp add: linux_good_def sample_env2_def sample_world_def sample_kernel1_def empty_kernel_def
      range_free_def ranges_disjoint_def)

section \<open>Properties\<close>

text \<open>
  \<^verbatim>\<open>to_cpu\<close> copies out exactly the payload, all \<open>size * sizeof(T)\<close> bytes of it and no byte beyond,
  and leaves memory, headers (the lease it took included), pool and local state as they were.
\<close>

theorem to_cpu_copies_the_payload:
  assumes "owns (impl_buffer im) i w" and "handle_idle (impl_buffer im) w" and "can_lease (impl_buffer im) w"
    and "esz \<noteq> 0" and "byte_count esz (impl_size im) = Inr (buffer_size (impl_buffer im))"
  shows "\<exists>im' w'. to_cpu esz im w = (Inr (payload (impl_buffer im) w), im', w') \<and>
    length (payload (impl_buffer im) w) = unat (impl_size im) * unat esz \<and>
    kern w' = kern w \<and> pool w' = pool w \<and> impl_size im' = impl_size im \<and>
    owns (impl_buffer im') i w' \<and> handle_idle (impl_buffer im') w'"
proof -
  let ?sb = "impl_buffer im"
  from get_read_handle_idle [OF assms(2,3)] obtain t rh w1 where
    g: "get_read_handle ?sb w = (Inr rh, ?sb\<lparr>handle_state := Some t\<rparr>, w1)" "read_ptr rh = data_ptr ?sb"
      "read_state rh = Some t" "reader_lease rh = buffer_control ?sb" "read_promoted rh = None"
      "kern w1 = leased ?sb (kern w)" "pool w1 = pool w" "t < next_state w1" "active_readers (states w1 t) = 1"
      "access (states w1 t) \<noteq> InUse" by blast
  have n: "buffer_size ?sb = impl_size im * esz" "unat (buffer_size ?sb) = unat (impl_size im) * unat esz"
    using byte_count_Inr [OF assms(4,5)] by blast+
  then have "impl_size im > 0" using owns_block [OF assms(1)] by (auto simp: word_gt_0)
  let ?w2 = "update_state t leave_reader w1"
  have "drop_lease (buffer_control ?sb) ?w2 = ?w2\<lparr>kern := kern w\<rparr>"
    by (rule unlease [OF assms(3)]) (simp_all add: buffer_simps g(6))
  then have "to_cpu esz im w = (Inr (payload ?sb w), im\<lparr>impl_buffer := ?sb\<lparr>handle_state := Some t\<rparr>\<rparr>, ?w2\<lparr>kern := kern w\<rparr>)"
    using g(1-6) n(1) \<open>impl_size im > 0\<close>
    by (simp add: to_cpu_def release_read_handle_result payload_def)
  moreover have "owns ?sb i (?w2\<lparr>kern := kern w\<rparr>)"
    using assms(1) owns_same [of "?w2\<lparr>kern := kern w\<rparr>" w] by (simp add: buffer_simps g(7))
  moreover have "length (payload ?sb w) = unat (impl_size im) * unat esz"
    using owns_block [OF assms(1)] n(2) by auto
  moreover have "handle_idle (?sb\<lparr>handle_state := Some t\<rparr>) (?w2\<lparr>kern := kern w\<rparr>)"
    using g(8-10) by (simp add: handle_idle_def buffer_simps leave_reader_def)
  ultimately show ?thesis by (auto simp: buffer_simps g(7))
qed

theorem to_cpu_copies_the_payload_witness:
  "\<exists>im' w'. to_cpu 1 sample_impl sample_world = (Inr [0, 0, 0, 0], im', w') \<and> kern w' = kern sample_world"
proof -
  have "payload sample_buffer sample_world = [0, 0, 0, 0]"
    by (simp add: payload_def load_bytes_def object_at_def sample_buffer_def sample_world_def sample_kernel1_def
        kSharedBufferPayloadOffset_def)
  with to_cpu_copies_the_payload [of sample_impl 0 sample_world 1] sample_owns sample_idle sample_lease sample_bytes
  show ?thesis by (auto simp: sample_impl_def)
qed

text \<open>
  C23: \<^verbatim>\<open>resize\<close> to another non-zero size keeps the common prefix of the contents in a new block,
  gives the old block back to the pool, and touches no other buffer.  If it throws (overflow of
  the byte count, or the pool cannot allocate) it has no effect: the buffer keeps its block,
  size and contents, and no descriptor or mapping is left over.
\<close>

theorem resize_keeps_prefix_or_has_no_effect:
  assumes "owns (impl_buffer im) i w" and "handle_idle (impl_buffer im) w" and "can_lease (impl_buffer im) w"
    and "esz \<noteq> 0" and "byte_count esz (impl_size im) = Inr (buffer_size (impl_buffer im))"
    and "sz \<noteq> 0" and "sz \<noteq> impl_size im" and "linux_good env (kern w) (kSharedBufferPayloadOffset + sz * esz)"
    and "resize_impl (linux_create_platform_mapping env) esz sz im w = (r, im', w')"
  shows "(case r of
      Inr _ \<Rightarrow> impl_size im' = sz \<and>
        (\<exists>j. j \<noteq> i \<and> owns (impl_buffer im') j w') \<and> \<not> in_use (all_blocks (pool w') ! i) \<and>
        length (payload (impl_buffer im') w') = unat sz * unat esz \<and>
        (let m = unat (min sz (impl_size im)) * unat esz in
           take m (payload (impl_buffer im') w') = take m (payload (impl_buffer im) w)) \<and>
        others_kept {i} w w'
    | Inl _ \<Rightarrow> im' = im \<and> owns (impl_buffer im) i w' \<and> payload (impl_buffer im) w' = payload (impl_buffer im) w \<and>
        fds (kern w') = fds (kern w) \<and> vm (kern w') = vm (kern w) \<and> others_kept {} w w')"
proof (cases r)
  case (Inl e)
  with linux.resize_failure [OF assms(1-5,8)] assms(9) show ?thesis by simp
next
  case (Inr u)
  with assms(9) have res: "resize_impl (linux_create_platform_mapping env) esz sz im w = (Inr (), im', w')" by simp
  note ok = linux.resize_success [OF assms(1-8) res]
  then obtain j where j: "owns (impl_buffer im') j w'" by blast
  have "length (payload (impl_buffer im') w') = unat sz * unat esz"
    using owns_block [OF j] ok byte_count_Inr [OF assms(4)] by auto
  with ok Inr show ?thesis by (auto simp: Let_def)
qed

theorem resize_keeps_prefix_or_has_no_effect_witness:
  "case resize_impl (linux_create_platform_mapping sample_env2) 1 8 sample_impl sample_world of
     (Inr _, im', w') \<Rightarrow> impl_size im' = 8 \<and> length (payload (impl_buffer im') w') = 8
   | (Inl _, im', w') \<Rightarrow> im' = sample_impl"
proof -
  obtain r im' w' where r: "resize_impl (linux_create_platform_mapping sample_env2) 1 8 sample_impl sample_world = (r, im', w')"
    by (metis prod.exhaust)
  have "owns (impl_buffer sample_impl) 0 sample_world" "handle_idle (impl_buffer sample_impl) sample_world"
      "can_lease (impl_buffer sample_impl) sample_world" "(8 :: u64) \<noteq> impl_size sample_impl"
      "linux_good sample_env2 (kern sample_world) (kSharedBufferPayloadOffset + 8 * 1)"
    using sample_owns sample_idle sample_lease
    by (simp_all add: sample_impl_def sample_good2 kSharedBufferPayloadOffset_def)
  from resize_keeps_prefix_or_has_no_effect [OF this(1-3) _ sample_bytes _ this(4,5) r] r show ?thesis
    by (cases r) auto
qed

text \<open>
  C31: a clone is a second buffer with its own block and the same bytes; the original keeps its
  block and bytes, and no other buffer is touched.  The clone has already been written once, so
  it is finalised: no write handle for it can be acquired.
\<close>

theorem clone_is_an_independent_copy:
  assumes "owns (impl_buffer im) i w" and "handle_idle (impl_buffer im) w" and "can_lease (impl_buffer im) w"
    and "esz \<noteq> 0" and "byte_count esz (impl_size im) = Inr (buffer_size (impl_buffer im))"
    and "linux_good env (kern w) (kSharedBufferPayloadOffset + impl_size im * esz)"
    and "clone_impl (linux_create_platform_mapping env) esz im w = (Inr copy, im', w')"
  shows "impl_size copy = impl_size im \<and> payload (impl_buffer copy) w' = payload (impl_buffer im) w \<and>
    (\<exists>j. j \<noteq> i \<and> owns (impl_buffer copy) j w') \<and>
    owns (impl_buffer im') i w' \<and> payload (impl_buffer im') w' = payload (impl_buffer im) w \<and>
    others_kept {} w w' \<and> (\<exists>e sb w''. get_write_handle (impl_buffer copy) w' = (Inl e, sb, w''))"
proof -
  note ok = linux.clone_success [OF assms]
  then obtain t where "handle_state (impl_buffer copy) = Some t" "access (states w' t) = Finalized" by blast
  then have "\<exists>e sb w''. get_write_handle (impl_buffer copy) w' = (Inl e, sb, w'')"
    by (simp add: get_write_handle_def)
  with ok show ?thesis by blast
qed

lemma sample_alloc2:
  "\<exists>sb w'. allocate_raw (linux_create_platform_mapping sample_env2) 1 4 sample_world = (Inr sb, w')"
  by (simp add: allocate_raw_def byte_count_iff allocate_def bucket_def sample_world_def sample_pool1_def
      create_block_def draw_uid_def linux_create_platform_mapping_def sample_env2_def off_t_max_def Let_def
      kSharedBufferPayloadOffset_def shared_buffer_def reserve_block_def update_block_def sys_new_object_def
      set_object_size_def sys_map_def)

lemma sample_clone:
  "\<exists>copy im' w'. clone_impl (linux_create_platform_mapping sample_env2) 1 sample_impl sample_world = (Inr copy, im', w')"
proof -
  let ?create = "linux_create_platform_mapping sample_env2"
  have h: "owns (impl_buffer sample_impl) 0 sample_world" "handle_idle (impl_buffer sample_impl) sample_world"
      "can_lease (impl_buffer sample_impl) sample_world"
      "linux_good sample_env2 (kern sample_world) (kSharedBufferPayloadOffset + impl_size sample_impl * 1)"
    using sample_owns sample_idle sample_lease
    by (simp_all add: sample_impl_def sample_good2 kSharedBufferPayloadOffset_def)
  obtain r im' w' where r: "clone_impl ?create 1 sample_impl sample_world = (r, im', w')" by (metis prod.exhaust)
  obtain sb w1 where al: "allocate_raw ?create 1 (impl_size sample_impl) sample_world = (Inr sb, w1)"
    using sample_alloc2 by (auto simp: sample_impl_def)
  have inv: "pool_inv (pool sample_world) (kern sample_world)" using sample_owns by (simp add: owns_def)
  from linux.allocate_raw_success [OF inv h(4) al] h(1) obtain j where
    j: "owns sb j w1" "handle_state sb = None" "buffer_size sb = impl_size sample_impl" "states w1 = states sample_world"
      "next_state w1 = next_state sample_world" and
    o: "0 \<noteq> j" "owns (impl_buffer sample_impl) 0 w1"
      "\<forall>c. buffer_control (impl_buffer sample_impl) = Some c \<longrightarrow> hdr (kern w1) c = hdr (kern sample_world) c" by auto
  have idle1: "handle_idle (impl_buffer sample_impl) w1" using h(2) j(4,5) by (rule handle_idle_frame)
  have lease1: "can_lease (impl_buffer sample_impl) w1" using h(3) o(3) can_lease_word by blast
  have n: "impl_size sample_impl \<le> buffer_size (impl_buffer sample_impl)" "impl_size sample_impl \<le> buffer_size sb"
    using j(3) by (simp_all add: sample_impl_def sample_buffer_def)
  from copy_between_owned [OF o(2) idle1 lease1 j(1,2) o(1) n] obtain a b w2 where
    "copy_payload (impl_buffer sample_impl) sb (impl_size sample_impl) w1 = (Inr (), a, b, w2)" by blast
  with al r have "\<exists>copy. r = Inr copy"
    by (auto simp: clone_impl_def new_impl_positive sample_impl_def)
  with r show ?thesis by blast
qed

theorem clone_is_an_independent_copy_witness:
  "\<exists>copy im' w'. clone_impl (linux_create_platform_mapping sample_env2) 1 sample_impl sample_world = (Inr copy, im', w') \<and>
     payload (impl_buffer copy) w' = payload sample_buffer sample_world"
proof -
  from sample_clone obtain copy im' w' where
    r: "clone_impl (linux_create_platform_mapping sample_env2) 1 sample_impl sample_world = (Inr copy, im', w')" by blast
  have "linux_good sample_env2 (kern sample_world) (kSharedBufferPayloadOffset + impl_size sample_impl * 1)"
    by (simp add: sample_impl_def sample_good2 kSharedBufferPayloadOffset_def)
  with clone_is_an_independent_copy [of sample_impl 0 sample_world 1 sample_env2 copy im' w'] sample_owns sample_idle
    sample_lease sample_bytes r
  show ?thesis by (auto simp: sample_impl_def)
qed

text \<open>
  C32: reading a buffer of another backend through \<^verbatim>\<open>from_input_buffer\<close>: if it returns, the handle
  points at a copy of exactly the source bytes, no existing buffer is touched, and releasing the
  handle frees the block of the copy and again touches no other buffer.
\<close>

theorem promoted_handle_reads_the_source:
  assumes "pool_inv (pool w) (kern w)" and "linux_good env (kern w) (kSharedBufferPayloadOffset + n * esz)"
    and "esz \<noteq> 0" and "n \<noteq> 0" and "length source = unat n * unat esz"
    and "from_input_buffer (linux_create_platform_mapping env) esz (Other_impl n source) w = (Inr rd, b, w')"
  shows "load_bytes (kern w') (read_ptr rd) (n * esz) = source \<and> b = Other_impl n source \<and> others_kept {} w w' \<and>
    (let w'' = snd (release_read_handle rd w') in
       pool_inv (pool w'') (kern w'') \<and> others_kept {} w w'' \<and>
       (\<exists>j. pool w'' = pool_free (Some j) (pool w') \<and> \<not> in_use (all_blocks (pool w'') ! j)))"
proof -
  have bc: "byte_count esz n = Inr (n * esz)" and b: "b = Other_impl n source"
    and pr: "promote (linux_create_platform_mapping env) (n * esz) source w = (Inr rd, w')"
    using assms(4,6) by (auto simp: from_input_buffer_def rosidl_size_def byte_count_def Let_def split: if_splits prod.splits)
  have len: "length source = unat (n * esz)" using byte_count_mult [OF assms(3) bc] assms(5) by simp
  have "unat n * unat esz \<noteq> 0" using assms(3,4) by (simp add: unat_eq_0)
  then have "n * esz \<noteq> 0" using byte_count_mult [OF assms(3) bc] by (metis unat_0)
  from linux.promote_success [OF assms(1,2) this len pr] b show ?thesis by (auto simp: Let_def)
qed

lemma sample_promoted:
  "\<exists>rd w'. from_input_buffer (linux_create_platform_mapping sample_env2) 1 (Other_impl 4 [1, 2, 3, 4]) sample_world =
     (Inr rd, Other_impl 4 [1, 2, 3, 4], w')"
  by (simp add: from_input_buffer_def rosidl_size_def promote_def new_impl_positive allocate_raw_def byte_count_iff
      allocate_def bucket_def sample_world_def sample_pool1_def create_block_def draw_uid_def
      linux_create_platform_mapping_def sample_env2_def off_t_max_def Let_def kSharedBufferPayloadOffset_def
      shared_buffer_def reserve_block_def update_block_def sys_new_object_def set_object_size_def sys_map_def
      get_write_handle_def ensure_state_def get_read_handle_def update_state_def write_memory_def store_bytes_def
      object_at_def release_write_handle_def drop_promoted_def make_lease_Some update_control_def
      try_acquire_shared_buffer_reader_def release_shared_buffer_reuse_claim_def default_control_header_def
      acquire_refused_iff)

theorem promoted_handle_reads_the_source_witness:
  "\<exists>rd b w'. from_input_buffer (linux_create_platform_mapping sample_env2) 1 (Other_impl 4 [1, 2, 3, 4]) sample_world =
     (Inr rd, b, w') \<and> load_bytes (kern w') (read_ptr rd) 4 = [1, 2, 3, 4]"
proof -
  obtain rd w' where r: "from_input_buffer (linux_create_platform_mapping sample_env2) 1 (Other_impl 4 [1, 2, 3, 4])
      sample_world = (Inr rd, Other_impl 4 [1, 2, 3, 4], w')" using sample_promoted by blast
  have inv: "pool_inv (pool sample_world) (kern sample_world)" using sample_owns by (simp add: owns_def)
  have good: "linux_good sample_env2 (kern sample_world) (kSharedBufferPayloadOffset + 4 * 1)"
    by (simp add: sample_good2 kSharedBufferPayloadOffset_def)
  from promoted_handle_reads_the_source [OF inv good _ _ _ r] r show ?thesis by auto
qed

text \<open>The payload of an owned buffer lies behind the header of its block and does not wrap.\<close>

lemma owns_range:
  assumes "owns sb i w"
  shows "unat (data_ptr sb) = unat (mapping (all_blocks (pool w) ! i)) + 64 \<and>
    unat (mapped_size (all_blocks (pool w) ! i)) = 64 + unat (buffer_size sb) \<and>
    unat (data_ptr sb) + unat (buffer_size sb) < 2 ^ 64"
proof -
  have "block_ok (kern w) (all_blocks (pool w) ! i)" using assms by (simp add: owns_def pool_inv_block)
  with assms have b: "unat (mapped_size (all_blocks (pool w) ! i)) = 64 + unat (buffer_size sb)"
    "unat (mapping (all_blocks (pool w) ! i)) + unat (mapped_size (all_blocks (pool w) ! i)) < 2 ^ 64"
    by (simp_all add: block_ok_def owns_def)
  then have "unat (mapping (all_blocks (pool w) ! i) + 64) = unat (mapping (all_blocks (pool w) ! i)) + 64"
    by (simp add: unat_word_ariths)
  with b assms show ?thesis by (simp add: owns_def kSharedBufferPayloadOffset_def)
qed

text \<open>
  C10: sizes never wrap.  Constructing a buffer of \<open>n\<close> elements throws whenever \<open>n * sizeof(T)\<close>, or that
  plus the header, does not fit \<^verbatim>\<open>size_t\<close>; if it succeeds, the buffer has exactly
  \<open>n * sizeof(T)\<close> bytes, its payload range does not wrap around the address space, lies behind the
  header inside a memory object of exactly that size, and meets the payload range of no other
  buffer.
\<close>

theorem buffer_sizes_never_wrap:
  assumes inv: "pool_inv (pool w) (kern w)" and esz: "esz \<noteq> 0" and n: "n > 0"
    and good: "linux_good env (kern w) (kSharedBufferPayloadOffset + n * esz)"
    and new: "new_impl (linux_create_platform_mapping env) esz n w = (r, w')"
  shows "(2 ^ 64 \<le> 64 + unat n * unat esz \<longrightarrow> (\<exists>e. r = Inl e)) \<and>
    (\<forall>im. r = Inr im \<longrightarrow> (let sb = impl_buffer im in
       unat (buffer_size sb) = unat n * unat esz \<and> 64 \<le> unat (data_ptr sb) \<and> unat (data_ptr sb) + unat (buffer_size sb) < 2 ^ 64 \<and>
       (\<exists>c. object_at (kern w') (data_ptr sb) = Some c \<and> unat (osize (kern w') c) = 64 + unat n * unat esz) \<and>
       (\<forall>other j. owns other j w \<longrightarrow> unat (data_ptr sb) + unat (buffer_size sb) \<le> unat (data_ptr other) \<or>
          unat (data_ptr other) + unat (buffer_size other) \<le> unat (data_ptr sb))))"
proof (cases r)
  case (Inl e)
  then show ?thesis by simp
next
  case (Inr im)
  let ?sb = "impl_buffer im"
  have raw: "allocate_raw (linux_create_platform_mapping env) esz n w = (Inr ?sb, w')"
    using new n Inr by (auto simp: new_impl_positive split: prod.splits sum.splits)
  from linux.allocate_raw_success [OF inv good raw] obtain i where bc: "byte_count esz n = Inr (n * esz)" and
    own: "owns ?sb i w'" "buffer_size ?sb = n * esz" and
    keep: "\<And>other j. owns other j w \<Longrightarrow> j \<noteq> i \<and> owns other j w'" by blast
  have len: "unat (buffer_size ?sb) = unat n * unat esz" using own(2) byte_count_mult [OF esz bc] by simp
  note ri = owns_range [OF own(1)]
  obtain c where c: "control (all_blocks (pool w') ! i) = Some c" "object_at (kern w') (data_ptr ?sb) = Some c"
    using owns_block [OF own(1)] by blast
  have "block_ok (kern w') (all_blocks (pool w') ! i)" using own(1) by (simp add: owns_def pool_inv_block)
  with c(1) ri len have "unat (osize (kern w') c) = 64 + unat n * unat esz" by (simp add: block_ok_def)
  moreover have "unat (data_ptr ?sb) + unat (buffer_size ?sb) \<le> unat (data_ptr other) \<or>
      unat (data_ptr other) + unat (buffer_size other) \<le> unat (data_ptr ?sb)" if "owns other j w" for other j
  proof -
    have o: "j \<noteq> i" "owns other j w'" using keep [OF that] by simp_all
    have "blocks_disjoint (all_blocks (pool w'))" "i < length (all_blocks (pool w'))" "j < length (all_blocks (pool w'))"
      using o own(1) by (simp_all add: owns_def pool_inv_def pool_inv_except_def)
    with o(1) have "ranges_disjoint (mapping (all_blocks (pool w') ! i)) (mapped_size (all_blocks (pool w') ! i))
        (mapping (all_blocks (pool w') ! j)) (mapped_size (all_blocks (pool w') ! j))"
      unfolding blocks_disjoint_def by metis
    with ri owns_range [OF o(2)] show ?thesis by (auto simp: ranges_disjoint_def)
  qed
  moreover have "\<not> 2 ^ 64 \<le> 64 + unat n * unat esz"
  proof -
    have "64 + unat (buffer_size ?sb) < 2 ^ 64" using ri unsigned_less [of "mapped_size (all_blocks (pool w') ! i)"] by simp
    then show ?thesis by (simp add: len)
  qed
  ultimately show ?thesis using Inr len ri c(2) by (auto simp: Let_def)
qed

theorem buffer_sizes_never_wrap_witness:
  "(\<exists>im w'. new_impl (linux_create_platform_mapping sample_env2) 4 2 sample_world = (Inr im, w') \<and>
     unat (buffer_size (impl_buffer im)) = 8) \<and>
   (\<exists>e w'. new_impl (linux_create_platform_mapping sample_env2) 8 0x2000000000000000 sample_world = (Inl e, w'))"
proof -
  have inv: "pool_inv (pool sample_world) (kern sample_world)" using sample_owns by (simp add: owns_def)
  have good: "linux_good sample_env2 (kern sample_world) (kSharedBufferPayloadOffset + 2 * 4)"
    "linux_good sample_env2 (kern sample_world) (kSharedBufferPayloadOffset + 0x2000000000000000 * 8)"
    by (simp_all add: sample_good2 kSharedBufferPayloadOffset_def)
  obtain r w' where r: "new_impl (linux_create_platform_mapping sample_env2) 4 2 sample_world = (r, w')" by (metis prod.exhaust)
  have "\<exists>im. r = Inr im" using r
    by (auto simp: new_impl_positive allocate_raw_def byte_count_iff allocate_def bucket_def sample_world_def sample_pool1_def
        create_block_def draw_uid_def linux_create_platform_mapping_def sample_env2_def off_t_max_def Let_def
        kSharedBufferPayloadOffset_def shared_buffer_def reserve_block_def update_block_def sys_new_object_def
        set_object_size_def sys_map_def)
  then obtain im where im: "r = Inr im" by blast
  obtain r2 w2 where r2: "new_impl (linux_create_platform_mapping sample_env2) 8 0x2000000000000000 sample_world = (r2, w2)"
    by (metis prod.exhaust)
  from buffer_sizes_never_wrap [OF inv _ _ good(1) r] im have "unat (buffer_size (impl_buffer im)) = 8" by (simp add: Let_def)
  moreover from buffer_sizes_never_wrap [OF inv _ _ good(2) r2] have "\<exists>e. r2 = Inl e" by simp
  ultimately show ?thesis using r r2 im by blast
qed

end
