(* ===== verification/Ipc_Cache.thy ===== *)
theory Ipc_Cache
  imports Buffer_Correct
begin

text \<open>
  The subscriber's side of the transport, \<^verbatim>\<open>shared_buffer_ipc_manager.cpp\<close>: a mapped block of
  another process, the validation of its header against a descriptor, and the process-wide
  cache of imported blocks.

  A cached block is a value: the cache holds it for the life of the process (nothing erases an
  entry), so handing out another \<^verbatim>\<open>shared_ptr\<close> to it is handing out the value.  The map compares
  keys by equality; its hash function only spreads them.  \<open>importer\<close> and \<open>destroy\<close>
  are the platform's functions.
\<close>

section \<open>Imported blocks\<close>

record SharedBufferImportedBlock =
  ib_native_handle :: int
  ib_mapping :: u64
  ib_mapped_size :: u64
  ib_control :: "oid option"
  ib_ipc_name :: string

text \<open>The constructor: the control pointer is the mapping, reinterpreted.\<close>

definition imported_block :: "kernel \<Rightarrow> int \<Rightarrow> u64 \<Rightarrow> u64 \<Rightarrow> string \<Rightarrow> SharedBufferImportedBlock" where
  "imported_block k handle base sz name =
     \<lparr>ib_native_handle = handle, ib_mapping = base, ib_mapped_size = sz, ib_control = vm k base, ib_ipc_name = name\<rparr>"

definition destroy_imported ::
  "(int \<Rightarrow> u64 \<Rightarrow> u64 \<Rightarrow> kernel \<Rightarrow> kernel) \<Rightarrow> SharedBufferImportedBlock \<Rightarrow> kernel \<Rightarrow> kernel" where
  "destroy_imported destroy b k = destroy (ib_native_handle b) (ib_mapping b) (ib_mapped_size b) k"

definition imported_payload :: "SharedBufferImportedBlock \<Rightarrow> u64" where
  "imported_payload b = ib_mapping b + kSharedBufferPayloadOffset"

definition acquire_reader :: "SharedBufferImportedBlock \<Rightarrow> kernel \<Rightarrow> (cpp_error + unit) \<times> kernel" where
  "acquire_reader b k =
     (case ib_control b of
        None \<Rightarrow> (Inl (Runtime_error ''cannot acquire a reader for unmapped shared memory''), k)
      | Some c \<Rightarrow>
          (let (ok, m) = try_acquire_shared_buffer_reader (Some c) (hdr k)
           in if \<not> ok then (Inl (Runtime_error ''shared memory block is being reused''), k)
              else (Inr (), k\<lparr>hdr := m\<rparr>)))"

definition release_reader :: "SharedBufferImportedBlock \<Rightarrow> kernel \<Rightarrow> kernel" where
  "release_reader b k =
     (case ib_control b of
        None \<Rightarrow> k
      | Some c \<Rightarrow> k\<lparr>hdr := release_shared_buffer_reader (Some c) (hdr k)\<rparr>)"

section \<open>The cache\<close>

record CacheKey =
  key_pid :: int
  key_block_id :: u32
  key_ipc_name :: string

type_synonym import_cache = "CacheKey \<Rightarrow> SharedBufferImportedBlock option"

definition validate_mapping ::
  "SharedBufferImportedBlock \<Rightarrow> u64 \<Rightarrow> u64 \<Rightarrow> u64 \<Rightarrow> kernel \<Rightarrow> cpp_error + unit" where
  "validate_mapping b msize psize expected_uid k =
     (case ib_control b of
        None \<Rightarrow> Inl (Runtime_error ''invalid shared memory mapping size'')
      | Some c \<Rightarrow>
          (if msize \<noteq> ib_mapped_size b \<or> msize < kSharedBufferPayloadOffset \<or>
              psize > msize - kSharedBufferPayloadOffset
           then Inl (Runtime_error ''invalid shared memory mapping size'')
           else if magic (hdr k c) \<noteq> kSharedBufferControlMagic \<or> abi_version (hdr k c) \<noteq> kSharedBufferControlAbiVersion
           then Inl (Runtime_error ''shared memory control header ABI mismatch'')
           else if payload_size (hdr k c) \<noteq> psize
           then Inl (Runtime_error ''shared memory control header payload size mismatch'')
           else if expected_uid = 0
           then Inl (Runtime_error ''shared memory descriptor contains a zero publication UID'')
           else if ipc_uid (hdr k c) \<noteq> expected_uid
           then Inl (Runtime_error ''stale shared memory descriptor publication UID'')
           else Inr ()))"

text \<open>
  \<^verbatim>\<open>CacheKeyHash\<close>, over \<^verbatim>\<open>std::hash\<close> of the three components, on 64 bits.
\<close>

definition CacheKeyHash :: "(int \<Rightarrow> u64) \<Rightarrow> (u32 \<Rightarrow> u64) \<Rightarrow> (string \<Rightarrow> u64) \<Rightarrow> CacheKey \<Rightarrow> u64" where
  "CacheKeyHash hash_i32 hash_u32 hash_string key =
     (let r0 = hash_i32 (key_pid key);
          r1 = r0 XOR (hash_u32 (key_block_id key) + 0x9e3779b9 + push_bit 6 r0 + drop_bit 2 r0)
      in r1 XOR (hash_string (key_ipc_name key) + 0x9e3779b9 + push_bit 6 r1 + drop_bit 2 r1))"

text \<open>Two keys of one process and block collide only where \<^verbatim>\<open>std::hash\<close> of the paths does.\<close>

lemma xor_left_cancel: "a XOR b = a XOR c \<longleftrightarrow> b = c" for a b c :: "'a::len word"
  by (metis xor.assoc xor_self_eq xor.left_neutral)

lemma CacheKeyHash_path:
  "key_pid k = key_pid k' \<Longrightarrow> key_block_id k = key_block_id k' \<Longrightarrow>
     CacheKeyHash hi hu hs k = CacheKeyHash hi hu hs k' \<longleftrightarrow> hs (key_ipc_name k) = hs (key_ipc_name k')"
  by (simp add: CacheKeyHash_def Let_def xor_left_cancel)

text \<open>
  \<^verbatim>\<open>import_block\<close>.  The bound on \<^verbatim>\<open>mapped_size\<close> against \<^verbatim>\<open>size_t\<close> holds trivially on 64 bits.  A new
  block that fails the validation is destroyed before the exception leaves.
\<close>

definition import_block ::
  "import_mapping \<Rightarrow> (int \<Rightarrow> u64 \<Rightarrow> u64 \<Rightarrow> kernel \<Rightarrow> kernel) \<Rightarrow> string \<Rightarrow> int \<Rightarrow> u32 \<Rightarrow> u64 \<Rightarrow> u64 \<Rightarrow> u64 \<Rightarrow>
     import_cache \<Rightarrow> kernel \<Rightarrow> (cpp_error + SharedBufferImportedBlock) \<times> import_cache \<times> kernel" where
  "import_block importer destroy name pid blk msize psize expected_uid cache k =
     (if name = '''' \<or> msize < kSharedBufferPayloadOffset \<or> msize > - 1
      then (Inl (Runtime_error ''invalid shared memory descriptor metadata''), cache, k)
      else
        (let key = \<lparr>key_pid = pid, key_block_id = blk, key_ipc_name = name\<rparr> in
         case cache key of
           Some b \<Rightarrow>
             (case validate_mapping b msize psize expected_uid k of
                Inl e \<Rightarrow> (Inl e, cache, k)
              | Inr _ \<Rightarrow> (Inr b, cache, k))
         | None \<Rightarrow>
             (case importer name msize k of
                (Inl e, k1) \<Rightarrow> (Inl e, cache, k1)
              | (Inr pm, k1) \<Rightarrow>
                  (let b = imported_block k1 (pm_native_handle pm) (pm_mapping pm) (pm_mapped_size pm) name in
                   case validate_mapping b msize psize expected_uid k1 of
                     Inl e \<Rightarrow> (Inl e, cache, destroy_imported destroy b k1)
                   | Inr _ \<Rightarrow> (Inr b, cache(key \<mapsto> b), k1)))))"

section \<open>Invariant of the cache\<close>

text \<open>Every cached block is mapped, its object is at least as large as recorded.\<close>

definition imported_ok :: "kernel \<Rightarrow> SharedBufferImportedBlock \<Rightarrow> bool" where
  "imported_ok k b \<longleftrightarrow>
     (\<exists>c < next_oid k. ib_control b = Some c \<and> vm k (ib_mapping b) = Some c \<and> ib_mapped_size b \<le> osize k c) \<and>
     0 \<le> ib_native_handle b \<and> fds k (ib_native_handle b) \<noteq> None \<and> ib_mapping b \<noteq> 0 \<and>
     unat (ib_mapping b) + unat (ib_mapped_size b) < 2 ^ 64"

definition cache_ok :: "import_cache \<Rightarrow> kernel \<Rightarrow> bool" where
  "cache_ok cache k \<longleftrightarrow> (\<forall>key b. cache key = Some b \<longrightarrow> imported_ok k b \<and> key_ipc_name key = ib_ipc_name b)"

text \<open>What a successful validation says about the header at that moment.\<close>

definition header_matches :: "kernel \<Rightarrow> oid \<Rightarrow> u64 \<Rightarrow> u64 \<Rightarrow> bool" where
  "header_matches k c psize uid \<longleftrightarrow>
     magic (hdr k c) = kSharedBufferControlMagic \<and> abi_version (hdr k c) = kSharedBufferControlAbiVersion \<and>
     payload_size (hdr k c) = psize \<and> uid \<noteq> 0 \<and> ipc_uid (hdr k c) = uid"

lemma validate_mapping_iff:
  "validate_mapping b msize psize uid k = Inr () \<longleftrightarrow>
     (\<exists>c. ib_control b = Some c \<and> msize = ib_mapped_size b \<and> kSharedBufferPayloadOffset \<le> msize \<and>
        psize \<le> msize - kSharedBufferPayloadOffset \<and> header_matches k c psize uid)"
  by (auto simp: validate_mapping_def header_matches_def not_less split: option.splits)

lemma cache_ok_objects:
  "cache_ok cache k \<Longrightarrow> objects_kept k k' \<Longrightarrow> vm k' = vm k \<Longrightarrow> fds k' = fds k \<Longrightarrow> cache_ok cache k'"
  by (fastforce simp: cache_ok_def imported_ok_def objects_kept_def)

lemma imported_ok_kept:
  assumes "imported_ok k b" and "vm k' = (vm k)(a \<mapsto> d)" and "vm k a = None" and "osize k' = osize k" and "next_oid k' = next_oid k"
    and "fds k' = (fds k)(h \<mapsto> e)"
  shows "imported_ok k' b"
  using assms by (auto simp: imported_ok_def)

context platform_import begin

lemma import_block_success:
  assumes "import_block importer destroy name pid blk msize psize uid cache k = (Inr b, cache', k')"
    and "cache_ok cache k" and "good_import k msize"
  shows "cache_ok cache' k' \<and> imported_ok k' b \<and> ib_mapped_size b = msize \<and>
    (\<exists>c. ib_control b = Some c \<and> header_matches k' c psize uid \<and>
       kSharedBufferPayloadOffset \<le> msize \<and> psize \<le> msize - kSharedBufferPayloadOffset) \<and>
    cache' \<lparr>key_pid = pid, key_block_id = blk, key_ipc_name = name\<rparr> = Some b \<and> hdr k' = hdr k \<and> pay k' = pay k \<and> objects_kept k k' \<and>
    (cache \<lparr>key_pid = pid, key_block_id = blk, key_ipc_name = name\<rparr> \<noteq> None \<longrightarrow> cache' = cache \<and> k' = k)"
proof -
  let ?key = "\<lparr>key_pid = pid, key_block_id = blk, key_ipc_name = name\<rparr>"
  have g: "\<not> (name = '''' \<or> msize < kSharedBufferPayloadOffset \<or> msize > - 1)"
    using assms(1) by (auto simp: import_block_def)
  show ?thesis
  proof (cases "cache ?key")
    case (Some b0)
    with assms(1) g have "validate_mapping b0 msize psize uid k = Inr ()" "b = b0" "cache' = cache" "k' = k"
      by (auto simp: import_block_def split: sum.splits)
    with Some assms(2) show ?thesis by (auto simp: validate_mapping_iff cache_ok_def)
  next
    case None
    obtain r k1 where im: "importer name msize k = (r, k1)" by (cases "importer name msize k")
    with assms(1) g None obtain pm where r: "r = Inr pm" by (cases r) (auto simp: import_block_def)
    let ?b = "imported_block k1 (pm_native_handle pm) (pm_mapping pm) (pm_mapped_size pm) name"
    from assms(1) g None im r have v: "validate_mapping ?b msize psize uid k1 = Inr ()"
      and res: "b = ?b" "cache' = cache(?key \<mapsto> ?b)" "k' = k1"
      by (auto simp: import_block_def Let_def split: sum.splits)
    note suc = import_success [OF im [unfolded r] assms(3)] and obj = import_objects [OF im]
    from suc obtain c where c: "c < next_oid k" "vm k1 = (vm k)(pm_mapping pm \<mapsto> c)" "msize \<le> osize k c"
      "fds k1 = (fds k)(pm_native_handle pm \<mapsto> Memory c)" by blast
    have b_ok: "imported_ok k1 ?b"
      using suc c obj by (auto simp: imported_ok_def imported_block_def range_free_def)
    have "vm k (pm_mapping pm) = None" using suc by (simp add: range_free_def)
    then have "imported_ok k1 b'" if "imported_ok k b'" for b'
      using imported_ok_kept [OF that c(2)] obj c(4) by simp
    with assms(2) b_ok have "cache_ok cache' k1" by (auto simp: res(2) cache_ok_def imported_block_def)
    moreover have "objects_kept k k1" using obj by (simp add: objects_kept_def)
    ultimately show ?thesis using v b_ok res obj suc None by (auto simp: validate_mapping_iff imported_block_def)
  qed
qed

lemma import_block_failure:
  assumes "import_block importer destroy name pid blk msize psize uid cache k = (Inl e, cache', k')"
    and "cache_ok cache k" and "good_import k msize"
  shows "cache' = cache \<and> vm k' = vm k \<and> fds k' = fds k \<and> objects_kept k k'"
proof (cases "name = '''' \<or> msize < kSharedBufferPayloadOffset \<or> msize > - 1 \<or>
    cache \<lparr>key_pid = pid, key_block_id = blk, key_ipc_name = name\<rparr> \<noteq> None")
  case True
  with assms(1) show ?thesis by (auto simp: import_block_def split: sum.splits if_splits)
next
  case False
  obtain r k1 where im: "importer name msize k = (r, k1)" by (cases "importer name msize k")
  note obj = import_objects [OF im]
  show ?thesis
  proof (cases r)
    case (Inl e')
    with assms(1) False im import_failure [OF im [unfolded Inl] assms(3)] obj show ?thesis
      by (simp add: import_block_def objects_kept_def)
  next
    case (Inr pm)
    let ?b = "imported_block k1 (pm_native_handle pm) (pm_mapping pm) (pm_mapped_size pm) name"
    from assms(1) False im Inr have res: "cache' = cache" "k' = destroy_imported destroy ?b k1"
      by (auto simp: import_block_def Let_def split: sum.splits)
    note suc = import_success [OF im [unfolded Inr] assms(3)]
    have "0 < msize" using False by (auto simp: word_less_nat_alt kSharedBufferPayloadOffset_def)
    then have d: "vm k' = (vm k1)(pm_mapping pm := None)" "fds k' = (fds k1)(pm_native_handle pm := None)"
      using suc destroy_effect [of "pm_native_handle pm" "pm_mapping pm" msize k1]
      by (auto simp: res destroy_imported_def imported_block_def range_free_def)
    moreover have "objects_kept k k'"
      using obj destroy_kept [of k1] by (simp add: res destroy_imported_def objects_kept_def)
    ultimately show ?thesis using suc res(1) obj by (auto simp: range_free_def fun_upd_idem)
  qed
qed

end

section \<open>Properties\<close>

text \<open>
  C27: importing a block on Linux.  If it returns, the block is a live mapping, at least as large as
  the descriptor says, of an object whose header had at that moment the right magic, ABI,
  payload size and the descriptor's non-zero UID; the payload lies inside the mapping; the block
  is in the cache, and for a key that was already cached nothing was opened or mapped.
\<close>

theorem import_returns_a_validated_mapping:
  assumes "import_block (linux_import_platform_mapping ienv) linux_destroy_platform_mapping name pid blk msize psize uid
      cache k = (Inr b, cache', k')"
    and "cache_ok cache k" and "linux_good_import ienv k msize"
  shows "cache_ok cache' k' \<and> imported_ok k' b \<and> ib_mapped_size b = msize \<and>
    (\<exists>c. ib_control b = Some c \<and> vm k' (ib_mapping b) = Some c \<and> header_matches k' c psize uid) \<and>
    unat kSharedBufferPayloadOffset + unat psize \<le> unat msize \<and>
    cache' \<lparr>key_pid = pid, key_block_id = blk, key_ipc_name = name\<rparr> = Some b \<and> hdr k' = hdr k \<and> pay k' = pay k \<and>
    (cache \<lparr>key_pid = pid, key_block_id = blk, key_ipc_name = name\<rparr> \<noteq> None \<longrightarrow> cache' = cache \<and> k' = k)"
proof -
  note ok = linux_import.import_block_success [OF assms]
  then have "kSharedBufferPayloadOffset \<le> msize" "psize \<le> msize - kSharedBufferPayloadOffset" by blast+
  then have "unat kSharedBufferPayloadOffset + unat psize \<le> unat msize"
    by (simp add: word_le_nat_alt unat_sub)
  moreover have "\<exists>c. ib_control b = Some c \<and> vm k' (ib_mapping b) = Some c \<and> header_matches k' c psize uid"
    using ok by (auto simp: imported_ok_def)
  ultimately show ?thesis using ok by blast
qed

text \<open>
  C34: an import that throws (malformed descriptor, failing system call, size, ABI or UID mismatch)
  leaves the cache as it was, and neither a descriptor nor a mapping behind.
\<close>

theorem failed_import_leaks_nothing:
  assumes "import_block (linux_import_platform_mapping ienv) linux_destroy_platform_mapping name pid blk msize psize uid
      cache k = (Inl e, cache', k')"
    and "cache_ok cache k" and "linux_good_import ienv k msize"
  shows "cache' = cache \<and> vm k' = vm k \<and> fds k' = fds k \<and> objects_kept k k'"
  by (rule linux_import.import_block_failure [OF assms])

text \<open>
  A cached block hides its successor.  When an entry's memory has been given up by its
  publisher (its UID will never match again) and a new block is published under the same path,
  pid and block id, the import of the new descriptor still validates the old mapping and fails,
  every time, although connecting to the path would deliver the right block.
\<close>

theorem stale_cache_entry_blocks_import:
  assumes "cache \<lparr>key_pid = pid, key_block_id = blk, key_ipc_name = name\<rparr> = Some old"
    and "ib_control old = Some c" and "ipc_uid (hdr k c) \<noteq> uid"
  shows "\<exists>e. import_block importer destroy name pid blk msize psize uid cache k = (Inl e, cache, k)"
proof (cases "name = '''' \<or> msize < kSharedBufferPayloadOffset \<or> msize > - 1")
  case True
  then show ?thesis by (simp only: import_block_def if_True) simp
next
  case False
  have "validate_mapping old msize psize uid k \<noteq> Inr ()"
    using assms(2,3) by (auto simp: validate_mapping_iff header_matches_def)
  then obtain e where "validate_mapping old msize psize uid k = Inl e"
    by (cases "validate_mapping old msize psize uid k") auto
  with False assms(1) show ?thesis by (simp add: import_block_def)
qed

section \<open>A concrete subscriber\<close>

definition sample_ienv :: linux_import_env where
  "sample_ienv = \<lparr>socket_result = 20, connect_ok = True, recvmsg_result = 1, cmsg_rights = Some (21, 0), fstat_ok = True,
     import_mmap_result = Some 0x7E0000000000, import_errno_text = ''''\<rparr>"

definition published_header :: control_header where
  "published_header = default_control_header\<lparr>payload_size := 4, ipc_uid := 42, publish_timestamp_us := 5000000\<rparr>"

definition published_kernel :: kernel where
  "published_kernel = sample_kernel1\<lparr>hdr := (hdr sample_kernel1)(0 := published_header)\<rparr>"

definition imported_sample :: SharedBufferImportedBlock where
  "imported_sample = \<lparr>ib_native_handle = 21, ib_mapping = 0x7E0000000000, ib_mapped_size = 68, ib_control = Some 0,
     ib_ipc_name = ''/tmp/s''\<rparr>"

lemma sample_import_good: "linux_good_import sample_ienv published_kernel 68"
  by (simp add: linux_good_import_def sample_ienv_def published_kernel_def sample_kernel1_def empty_kernel_def
      range_free_def ranges_disjoint_def)

lemma sample_import:
  "\<exists>cache' k'. import_block (linux_import_platform_mapping sample_ienv) linux_destroy_platform_mapping
     ''/tmp/s'' 77 0 68 4 42 (\<lambda>_. None) published_kernel = (Inr imported_sample, cache', k') \<and>
     hdr k' = hdr published_kernel \<and> vm k' 0x7E0000000000 = Some 0"
  by (simp add: import_block_def kSharedBufferPayloadOffset_def linux_import_platform_mapping_def
      receive_fd_from_socket_def sample_ienv_def published_kernel_def published_header_def sample_kernel1_def
      empty_kernel_def sun_path_size_def sys_open_object_def Let_def st_size_matches_def map_received_def sys_map_def
      imported_block_def validate_mapping_def default_control_header_def imported_sample_def sys_close_def)

lemma sample_import_stale:
  "\<exists>e cache' k'. import_block (linux_import_platform_mapping sample_ienv) linux_destroy_platform_mapping
     ''/tmp/s'' 77 0 68 4 43 (\<lambda>_. None) published_kernel = (Inl e, cache', k')"
  by (simp add: import_block_def kSharedBufferPayloadOffset_def linux_import_platform_mapping_def
      receive_fd_from_socket_def sample_ienv_def published_kernel_def published_header_def sample_kernel1_def
      empty_kernel_def sun_path_size_def sys_open_object_def Let_def st_size_matches_def map_received_def sys_map_def
      imported_block_def validate_mapping_def default_control_header_def sys_close_def)

theorem import_returns_a_validated_mapping_witness:
  "\<exists>cache' k'. import_block (linux_import_platform_mapping sample_ienv) linux_destroy_platform_mapping
     ''/tmp/s'' 77 0 68 4 42 (\<lambda>_. None) published_kernel = (Inr imported_sample, cache', k') \<and>
     header_matches k' 0 4 42 \<and> cache_ok cache' k'"
proof -
  obtain cache' k' where i: "import_block (linux_import_platform_mapping sample_ienv) linux_destroy_platform_mapping
     ''/tmp/s'' 77 0 68 4 42 (\<lambda>_. None) published_kernel = (Inr imported_sample, cache', k')"
    using sample_import by blast
  from import_returns_a_validated_mapping [OF i _ sample_import_good] i show ?thesis
    by (auto simp: cache_ok_def imported_sample_def)
qed

theorem failed_import_leaks_nothing_witness:
  "\<exists>e cache' k'. import_block (linux_import_platform_mapping sample_ienv) linux_destroy_platform_mapping
     ''/tmp/s'' 77 0 68 4 43 (\<lambda>_. None) published_kernel = (Inl e, cache', k') \<and>
     vm k' = vm published_kernel \<and> fds k' = fds published_kernel"
proof -
  obtain e cache' k' where i: "import_block (linux_import_platform_mapping sample_ienv) linux_destroy_platform_mapping
     ''/tmp/s'' 77 0 68 4 43 (\<lambda>_. None) published_kernel = (Inl e, cache', k')"
    using sample_import_stale by blast
  from failed_import_leaks_nothing [OF i _ sample_import_good] i show ?thesis by (auto simp: cache_ok_def)
qed

theorem stale_cache_entry_blocks_import_witness:
  "\<exists>e. import_block (linux_import_platform_mapping sample_ienv) linux_destroy_platform_mapping ''/tmp/s'' 77 0 68 4 99
     [\<lparr>key_pid = 77, key_block_id = 0, key_ipc_name = ''/tmp/s''\<rparr> \<mapsto> imported_sample] published_kernel =
     (Inl e, [\<lparr>key_pid = 77, key_block_id = 0, key_ipc_name = ''/tmp/s''\<rparr> \<mapsto> imported_sample], published_kernel)"
  by (rule stale_cache_entry_blocks_import [where old = imported_sample and c = 0])
    (simp_all add: imported_sample_def published_kernel_def published_header_def)

end
