(* ===== verification/Endpoint.thy ===== *)
theory Endpoint
  imports Prelude
begin

text \<open>
  \<^verbatim>\<open>host_endpoint_manager.cpp\<close>: the metadata string by which two endpoints recognise that they run
  on the same host for the same user.  Outcomes of the system calls are fields of the
  environment records.
\<close>

section \<open>Linux\<close>

record linux_host_env =
  gethostname_result :: "string option"   \<comment> \<open>the host's name, or failure\<close>
  geteuid :: u32

text \<open>
  \<^verbatim>\<open>gethostname\<close> writes at most 255 bytes into a zeroed buffer of 256, the name ends at the first
  NUL.
\<close>

definition hostname_buffer :: "string \<Rightarrow> string" where
  "hostname_buffer name = takeWhile (\<lambda>c. c \<noteq> CHR 0x00) (take 255 name)"

definition linux_metadata :: "linux_host_env \<Rightarrow> string" where
  "linux_metadata env =
     (case gethostname_result env of
        None \<Rightarrow> ''unknown:'' @ to_string (unat (geteuid env))
      | Some name \<Rightarrow> hostname_buffer name @ '':'' @ to_string (unat (geteuid env)))"

section \<open>Windows\<close>

record windows_host_env =
  GetComputerNameA :: "string option"
  OpenProcessToken :: bool
  token_required :: nat                  \<comment> \<open>size reported by the first \<^verbatim>\<open>GetTokenInformation\<close>\<close>
  GetTokenInformation :: bool
  ConvertSidToStringSidA :: "string option"
  ProcessIdToSessionId :: "u32 option"
  GetCurrentProcessId :: u32

definition windows_sid :: "windows_host_env \<Rightarrow> string option" where
  "windows_sid env =
     (if OpenProcessToken env \<and> token_required env > 0 \<and> GetTokenInformation env
      then ConvertSidToStringSidA env else None)"

definition windows_metadata :: "windows_host_env \<Rightarrow> string" where
  "windows_metadata env =
     (case (GetComputerNameA env, windows_sid env, ProcessIdToSessionId env) of
        (Some host, Some sid, Some session_id) \<Rightarrow> host @ '':'' @ sid @ '':'' @ to_string (unat session_id)
      | _ \<Rightarrow> ''unavailable:'' @ to_string (unat (GetCurrentProcessId env)))"

section \<open>Properties\<close>

lemma split_last_colon:
  assumes "xs @ CHR '':'' # us = ys @ CHR '':'' # vs" and "CHR '':'' \<notin> set us" and "CHR '':'' \<notin> set vs"
  shows "xs = ys \<and> us = vs"
proof -
  have "rev us @ CHR '':'' # rev xs = rev vs @ CHR '':'' # rev ys"
    using arg_cong [OF assms(1), of rev] by simp
  then have "rev us = rev vs \<and> rev xs = rev ys"
    by (rule append_Cons_split) (use assms(2,3) in simp_all)
  then show ?thesis by simp
qed

lemma no_colon_in_number: "CHR '':'' \<notin> set (to_string n)"
  using to_string_chars [of "CHR '':''" n] by auto



text \<open>
  When an identity cannot be determined the two platforms differ.  Windows falls back to a
  value that only the same process id shares; Linux falls back to a value that any two hosts
  share on which the same user id runs and \<^verbatim>\<open>gethostname\<close> fails, and that a host named
  \<open>unknown\<close> has, too, so endpoints of different hosts match.
\<close>

theorem unknown_hosts_match_on_linux_only:
  assumes "gethostname_result env = None" and "gethostname_result env' \<in> {None, Some ''unknown''}"
    and "geteuid env = geteuid env'"
    and "GetComputerNameA wenv = None" and "GetComputerNameA wenv' = None"
  shows "linux_metadata env = linux_metadata env' \<and>
    (windows_metadata wenv = windows_metadata wenv' \<longleftrightarrow> GetCurrentProcessId wenv = GetCurrentProcessId wenv')"
proof -
  have "linux_metadata env = linux_metadata env'"
    using assms(1-3) by (auto simp: linux_metadata_def hostname_buffer_def)
  moreover have "to_string (unat i) = to_string (unat j) \<longleftrightarrow> i = j" for i j :: u32
    using to_string_inj by (auto simp: word_unat_eq_iff)
  ultimately show ?thesis using assms(4,5) by (simp add: windows_metadata_def)
qed

theorem unknown_hosts_match_on_linux_only_witness:
  "linux_metadata \<lparr>gethostname_result = None, geteuid = 1000\<rparr> =
   linux_metadata \<lparr>gethostname_result = Some ''unknown'', geteuid = 1000\<rparr>"
  using unknown_hosts_match_on_linux_only [of "\<lparr>gethostname_result = None, geteuid = 1000\<rparr>"
      "\<lparr>gethostname_result = Some ''unknown'', geteuid = 1000\<rparr>"
      "\<lparr>GetComputerNameA = None, OpenProcessToken = True, token_required = 0, GetTokenInformation = True,
        ConvertSidToStringSidA = None, ProcessIdToSessionId = None, GetCurrentProcessId = 1\<rparr>"
      "\<lparr>GetComputerNameA = None, OpenProcessToken = True, token_required = 0, GetTokenInformation = True,
        ConvertSidToStringSidA = None, ProcessIdToSessionId = None, GetCurrentProcessId = 2\<rparr>"]
  by simp

end
