(* ===== verification/Backend.thy ===== *)
theory Backend
  imports Ipc_Cache Endpoint
begin

text \<open>
  The buffer backend plugin: \<^verbatim>\<open>shared_buffer_backend.hpp\<close> and \<^verbatim>\<open>shared_buffer_backend_plugin.cpp\<close>,
  with the message \<^verbatim>\<open>SharedBufferDescriptor.msg\<close>.

  The size of an RMW gid, the process id and \<^verbatim>\<open>typeid(uint8_t).name()\<close> are arguments, and so are
  the platform's \<^verbatim>\<open>register_block\<close>, \<^verbatim>\<open>import_platform_mapping\<close> and \<^verbatim>\<open>destroy_platform_mapping\<close>.  The
  pointer \<^verbatim>\<open>impl\<close> is a \<open>rosidl_buffer\<close>; a null descriptor is \<open>None\<close>.
\<close>

section \<open>State and messages\<close>

type_synonym GidKey = "u8 list"

definition gid_key :: "nat \<Rightarrow> u8 list \<Rightarrow> GidKey" where
  "gid_key gid_size raw = take gid_size raw"

definition gid_hash :: "GidKey \<Rightarrow> u64" where
  "gid_hash key = foldl (\<lambda>result byte. result * 131 + ucast byte) 0 key"

record SharedBufferBackend =
  endpoint_manager :: "string option"             \<comment> \<open>the manager is its metadata\<close>
  compatibility_cache :: "GidKey \<Rightarrow> bool option"

definition new_backend :: SharedBufferBackend where
  "new_backend = \<lparr>endpoint_manager = None, compatibility_cache = (\<lambda>_. None)\<rparr>"

record SharedBufferDescriptor =
  desc_size :: u64
  element_type_name :: string
  shared_buffer_pid :: int
  shared_buffer_block_id :: u32
  shared_buffer_block_size :: u64
  shared_buffer_socket_path :: string
  desc_ipc_uid :: u64

definition create_empty_descriptor :: SharedBufferDescriptor where
  "create_empty_descriptor = \<lparr>desc_size = 0, element_type_name = '''', shared_buffer_pid = 0, shared_buffer_block_id = 0,
     shared_buffer_block_size = 0, shared_buffer_socket_path = '''', desc_ipc_uid = 0\<rparr>"

section \<open>Endpoints\<close>

text \<open>\<open>host_metadata\<close> is what a new \<^verbatim>\<open>HostEndpointManager\<close> would compute now; it is computed once.\<close>

definition get_endpoint_manager :: "string \<Rightarrow> SharedBufferBackend \<Rightarrow> string \<times> SharedBufferBackend" where
  "get_endpoint_manager host_metadata be =
     (case endpoint_manager be of
        None \<Rightarrow> (host_metadata, be\<lparr>endpoint_manager := Some host_metadata\<rparr>)
      | Some m \<Rightarrow> (m, be))"

definition get_backend_metadata :: "string \<Rightarrow> SharedBufferBackend \<Rightarrow> string \<times> SharedBufferBackend" where
  "get_backend_metadata host_metadata be = get_endpoint_manager host_metadata be"

definition on_discovering_endpoint ::
  "nat \<Rightarrow> string \<Rightarrow> u8 list \<Rightarrow> (string \<Rightarrow> string option) \<Rightarrow> SharedBufferBackend \<Rightarrow> bool \<times> SharedBufferBackend" where
  "on_discovering_endpoint gid_size host_metadata endpoint_gid supported be =
     (let (is_compatible, be1) =
        (case supported ''shared_buffer'' of
           None \<Rightarrow> (False, be)
         | Some m \<Rightarrow> (let (own, be') = get_backend_metadata host_metadata be in (m = own, be')))
      in (is_compatible, be1\<lparr>compatibility_cache := (compatibility_cache be1)(gid_key gid_size endpoint_gid \<mapsto> is_compatible)\<rparr>))"

section \<open>Publishing\<close>

definition forward_header_ok :: "SharedBuffer \<Rightarrow> kernel \<Rightarrow> bool" where
  "forward_header_ok sb k =
     (case buffer_control sb of
        None \<Rightarrow> False
      | Some c \<Rightarrow> \<not> (magic (hdr k c) \<noteq> kSharedBufferControlMagic \<or> abi_version (hdr k c) \<noteq> kSharedBufferControlAbiVersion \<or>
          payload_size (hdr k c) \<noteq> buffer_size sb \<or> ipc_uid (hdr k c) \<noteq> buffer_ipc_uid sb))"

text \<open>Re-publishing an imported buffer.\<close>

definition forward_descriptor ::
  "string \<Rightarrow> SharedBuffer \<Rightarrow> 'b world \<Rightarrow> SharedBufferDescriptor option \<times> 'b world" where
  "forward_descriptor type_name sb w =
     (if \<not> forward_header_ok sb (kern w) then (None, w)
      else (Some \<lparr>desc_size = buffer_size sb, element_type_name = type_name, shared_buffer_pid = ipc_pid sb,
              shared_buffer_block_id = buffer_block_id sb, shared_buffer_block_size = buffer_mapped_size sb,
              shared_buffer_socket_path = ipc_name sb, desc_ipc_uid = buffer_ipc_uid sb\<rparr>,
            w\<lparr>kern := refresh_publish_timestamp (buffer_control sb) (kern w)\<rparr>))"

text \<open>Publishing a buffer of this process's pool.  A throwing registration is caught.\<close>

definition publish_descriptor ::
  "'b register_block \<Rightarrow> int \<Rightarrow> string \<Rightarrow> u64 \<Rightarrow> SharedBuffer \<Rightarrow> 'b world \<Rightarrow> SharedBufferDescriptor option \<times> 'b world" where
  "publish_descriptor register pid type_name sz sb w =
     (case find_block_for_ptr (data_ptr sb) (pool w) of
        None \<Rightarrow> (None, w)
      | Some i \<Rightarrow>
          (if control (all_blocks (pool w) ! i) = None then (None, w)
           else
             (case register_block_for_ipc register (Some i) (pool w) (kern w) of
                (Inl e, p1, k1) \<Rightarrow> (None, w\<lparr>pool := p1, kern := k1\<rparr>)
              | (Inr name, p1, k1) \<Rightarrow>
                  (let (uid, p2) = assign_uid (Some i) p1 in
                   if name = '''' \<or> uid = 0 then (None, w\<lparr>pool := p2, kern := k1\<rparr>)
                   else (Some \<lparr>desc_size = sz, element_type_name = type_name, shared_buffer_pid = pid,
                           shared_buffer_block_id = block_id (all_blocks p2 ! i),
                           shared_buffer_block_size = mapped_size (all_blocks p2 ! i),
                           shared_buffer_socket_path = name, desc_ipc_uid = uid\<rparr>,
                         w\<lparr>pool := p2, kern := mark_published (Some i) p2 k1\<rparr>)))))"

definition create_descriptor_with_endpoint ::
  "'b register_block \<Rightarrow> nat \<Rightarrow> int \<Rightarrow> string \<Rightarrow> SharedBufferBackend \<Rightarrow> u8 list \<Rightarrow> rosidl_buffer \<Rightarrow> 'b world \<Rightarrow>
     SharedBufferDescriptor option \<times> 'b world" where
  "create_descriptor_with_endpoint register gid_size pid type_name be endpoint_gid impl w =
     (if compatibility_cache be (gid_key gid_size endpoint_gid) = Some False then (None, w)
      else case impl of
        Null_impl \<Rightarrow> (None, w)
      | Other_impl _ _ \<Rightarrow> (None, w)
      | Shared_impl im \<Rightarrow>
          (let sb = impl_buffer im; w1 = finalize_write_handle sb w in
           if has_ipc_descriptor sb then forward_descriptor type_name sb w1
           else publish_descriptor register pid type_name (impl_size im) sb w1))"

section \<open>Receiving\<close>

text \<open>
  The buffer of an imported block.  Its \<^verbatim>\<open>owner\<close> is named by the object it maps.
\<close>

definition from_descriptor_with_endpoint ::
  "import_mapping \<Rightarrow> (int \<Rightarrow> u64 \<Rightarrow> u64 \<Rightarrow> kernel \<Rightarrow> kernel) \<Rightarrow> string \<Rightarrow> SharedBufferDescriptor option \<Rightarrow>
     import_cache \<Rightarrow> kernel \<Rightarrow> (cpp_error + SharedBufferImpl) \<times> import_cache \<times> kernel" where
  "from_descriptor_with_endpoint importer destroy type_name descriptor cache k =
     (case descriptor of
        None \<Rightarrow> (Inl (Runtime_error ''null shared-buffer descriptor''), cache, k)
      | Some d \<Rightarrow>
          (if element_type_name d \<noteq> type_name
           then (Inl (Runtime_error ''shared-buffer descriptor element type mismatch''), cache, k)
           else if shared_buffer_pid d \<le> 0 \<or> shared_buffer_socket_path d = '''' \<or> desc_ipc_uid d = 0 \<or>
             shared_buffer_block_size d < kSharedBufferPayloadOffset \<or>
             desc_size d > shared_buffer_block_size d - kSharedBufferPayloadOffset
           then (Inl (Runtime_error ''invalid shared-buffer descriptor metadata''), cache, k)
           else
             (case import_block importer destroy (shared_buffer_socket_path d) (shared_buffer_pid d)
                     (shared_buffer_block_id d) (shared_buffer_block_size d) (desc_size d) (desc_ipc_uid d) cache k of
                (Inl e, cache1, k1) \<Rightarrow> (Inl e, cache1, k1)
              | (Inr imported, cache1, k1) \<Rightarrow>
                  (case acquire_reader imported k1 of
                     (Inl e, k2) \<Rightarrow> (Inl e, cache1, k2)
                   | (Inr _, k2) \<Rightarrow>
                       (if (case ib_control imported of None \<Rightarrow> True | Some c \<Rightarrow> ipc_uid (hdr k2 c) \<noteq> desc_ipc_uid d)
                        then (Inl (Runtime_error ''stale shared-buffer descriptor raced with block reuse''), cache1,
                              release_reader imported k2)
                        else
                          (case shared_buffer (imported_payload imported) (desc_size d)
                                  (Release_reader (ib_control imported)) (ib_control imported) (ib_control imported)
                                  (shared_buffer_block_id d) (shared_buffer_block_size d) False (shared_buffer_pid d)
                                  (shared_buffer_socket_path d) (desc_ipc_uid d) of
                             Inl e \<Rightarrow> (Inl e, cache1, k2)
                           | Inr sb \<Rightarrow> (Inr \<lparr>impl_size = desc_size d, impl_buffer = sb\<rparr>, cache1, k2)))))))"

end
