(* ===== verification/Backend_Correct.thy ===== *)
theory Backend_Correct
  imports Backend
begin

text \<open>
  Correctness of the backend plugin: what publishing does to the header, that a received
  descriptor either yields a read-only buffer holding exactly one lease or has no effect on any
  header, that publishing and receiving round-trip, and that a relay forwards the descriptor it
  received.
\<close>

section \<open>Publishing\<close>

lemma assign_uid_result:
  assumes "assign_uid (Some i) p = (uid, p')" and "i < length (all_blocks p)" and "control (all_blocks p ! i) \<noteq> None"
  shows "uid \<noteq> 0 \<and> all_blocks p' ! i = (all_blocks p ! i)\<lparr>current_uid := uid\<rparr>"
  using assms by (auto simp: assign_uid_def draw_uid_def Let_def split: if_splits)

text \<open>The pool finds the block of a buffer that owns one.\<close>

lemma owned_found:
  assumes "owns sb i w"
  shows "find_block_for_ptr (data_ptr sb) (pool w) = Some i"
proof -
  let ?b = "all_blocks (pool w) ! i"
  have inv: "pool_inv (pool w) (kern w)" and i: "i < length (all_blocks (pool w))"
    and ptr: "data_ptr sb = mapping ?b + kSharedBufferPayloadOffset" using assms by (simp_all add: owns_def)
  from pool_inv_block [OF inv i] have "unat (mapping ?b) + unat (mapped_size ?b) < 2 ^ 64"
      "unat (mapped_size ?b) = 64 + unat (block_payload_size ?b)" "0 < unat (block_payload_size ?b)"
    by (auto simp: block_ok_def word_less_nat_alt split: option.splits)
  moreover from this have "unat (mapping ?b + 64) = unat (mapping ?b) + 64" by (simp add: unat_word_ariths)
  ultimately have "in_payload ?b (data_ptr sb)" by (simp add: in_payload_def ptr kSharedBufferPayloadOffset_def)
  then show ?thesis using find_block_for_ptr_iff [OF inv] i by blast
qed

text \<open>Publication writes the UID and the time of publication, and nothing else in the header.\<close>

definition published :: "u64 \<Rightarrow> u64 \<Rightarrow> control_header \<Rightarrow> control_header" where
  "published uid now h = h\<lparr>ipc_uid := uid, publish_timestamp_us := now\<rparr>"

context broker_contract begin

lemma publish_descriptor_success:
  assumes own: "owns sb i w" and pub: "publish_descriptor register pid type_name sz sb w = (Some d, w1)"
  shows "\<exists>c uid name. buffer_control sb = Some c \<and> uid \<noteq> 0 \<and> name \<noteq> '''' \<and>
    d = \<lparr>desc_size = sz, element_type_name = type_name, shared_buffer_pid = pid,
         shared_buffer_block_id = block_id (all_blocks (pool w) ! i),
         shared_buffer_block_size = mapped_size (all_blocks (pool w) ! i), shared_buffer_socket_path = name,
         desc_ipc_uid = uid\<rparr> \<and>
    (\<exists>now. hdr (kern w1) = (hdr (kern w))(c := published uid now (hdr (kern w) c))) \<and>
    pay (kern w1) = pay (kern w) \<and> osize (kern w1) = osize (kern w) \<and> vm (kern w1) = vm (kern w) \<and>
    states w1 = states w \<and> next_state w1 = next_state w \<and> owns sb i w1 \<and>
    (current_uid (all_blocks (pool w) ! i) \<noteq> 0 \<longrightarrow> uid = current_uid (all_blocks (pool w) ! i))"
proof -
  from owns_block [OF own] obtain c where c: "buffer_control sb = Some c" "control (all_blocks (pool w) ! i) = Some c"
    by blast
  let ?b = "all_blocks (pool w) ! i"
  have inv: "pool_inv (pool w) (kern w)" and i: "i < length (all_blocks (pool w))"
    using own by (simp_all add: owns_def)
  have fb: "find_block_for_ptr (data_ptr sb) (pool w) = Some i" by (rule owned_found [OF own])
  obtain r p1 k1 where reg: "register_block_for_ipc register (Some i) (pool w) (kern w) = (r, p1, k1)"
    by (metis prod.exhaust)
  from pub fb c reg obtain name where r: "r = Inr name" by (cases r) (auto simp: publish_descriptor_def)
  obtain uid p2 where uid: "assign_uid (Some i) p1 = (uid, p2)" by (cases "assign_uid (Some i) p1")
  from register_block_for_ipc_inv [OF inv i reg] obtain s where p1: "pool_inv p1 k1" "memory_kept (kern w) k1"
      "length (all_blocks p1) = length (all_blocks (pool w))" "all_blocks p1 ! i = ?b\<lparr>socket_path := s\<rparr>"
    using i by blast
  have i1: "i < length (all_blocks p1)" using i p1(3) by simp
  have c1: "control (all_blocks p1 ! i) = Some c" using p1(4) c by simp
  from assign_uid_result [OF uid i1] c1 have p2: "uid \<noteq> 0" "all_blocks p2 ! i = (all_blocks p1 ! i)\<lparr>current_uid := uid\<rparr>"
    by simp_all
  have inv2: "pool_inv p2 k1" using assign_uid_inv [OF p1(1) i1 uid] by simp
  from pub fb c reg r uid p2 have d: "name \<noteq> ''''" "w1 = w\<lparr>pool := p2, kern := mark_published (Some i) p2 k1\<rparr>"
    "d = \<lparr>desc_size = sz, element_type_name = type_name, shared_buffer_pid = pid, shared_buffer_block_id = block_id ?b,
      shared_buffer_block_size = mapped_size ?b, shared_buffer_socket_path = name, desc_ipc_uid = uid\<rparr>"
    by (auto simp: publish_descriptor_def p1(4) split: if_splits)
  have c2: "control (all_blocks p2 ! i) = Some c" using p2(2) c1 by simp
  have lay: "same_layout k1 (mark_published (Some i) p2 k1)" by (rule mark_published_layout)
  have h: "hdr (mark_published (Some i) p2 k1) = (hdr k1)(c := published uid (clock k1 0) (hdr k1 c))"
    using mark_published_header [OF c2] p2(2) by (simp add: published_def)
  have len2: "length (all_blocks p2) = length (all_blocks p1)"
    using uid by (auto simp: assign_uid_def draw_uid_def Let_def split: option.splits if_splits)
  have "pool_inv p2 (mark_published (Some i) p2 k1)" by (rule mark_published_inv [OF inv2])
  then have "owns sb i w1" using own d(2) p2(2) p1(4) len2 p1(3) by (simp add: owns_def)
  moreover have "hdr (kern w1) = (hdr (kern w))(c := published uid (clock k1 0) (hdr (kern w) c))"
    using h p1(2) d(2) by (simp add: memory_kept_def)
  moreover have "current_uid ?b \<noteq> 0 \<longrightarrow> uid = current_uid ?b"
    using uid c1 p1(4) by (auto simp: assign_uid_def)
  ultimately show ?thesis using c(1) p2(1) d p1(2) lay by (auto simp: memory_kept_def same_layout_def)
qed

end

section \<open>Receiving\<close>

text \<open>The header while one more reader holds it.\<close>

definition one_more_reader :: "oid \<Rightarrow> cmem \<Rightarrow> cmem" where
  "one_more_reader c m = m(c := (m c)\<lparr>reader_state := reader_state (m c) + 1\<rparr>)"

lemma acquire_reader_cases:
  assumes "acquire_reader b k = (r, k')" and "ib_control b = Some c"
  shows "(case r of
      Inr _ \<Rightarrow> \<not> acquire_refused (reader_state (hdr k c)) \<and> k' = k\<lparr>hdr := one_more_reader c (hdr k)\<rparr>
    | Inl _ \<Rightarrow> acquire_refused (reader_state (hdr k c)) \<and> k' = k)"
  using assms by (auto simp: acquire_reader_def try_acquire_shared_buffer_reader_def one_more_reader_def Let_def
      split: if_splits)

context platform_import begin

lemma receive_success:
  assumes "from_descriptor_with_endpoint importer destroy type_name (Some d) cache k = (Inr im, cache', k')"
    and "cache_ok cache k" and "good_import k (shared_buffer_block_size d)"
  shows "\<exists>b c. ib_control b = Some c \<and> imported_ok k' b \<and> cache_ok cache' k' \<and>
    impl_size im = desc_size d \<and>
    impl_buffer im = \<lparr>data_ptr = ib_mapping b + kSharedBufferPayloadOffset, buffer_size = desc_size d, deleter = Release_reader (Some c),
      buffer_control = Some c, owner = Some c, held_reader_lease = None, handle_state = None,
      buffer_block_id = shared_buffer_block_id d, buffer_mapped_size = shared_buffer_block_size d, writable = False,
      ipc_pid = shared_buffer_pid d, ipc_name = shared_buffer_socket_path d, buffer_ipc_uid = desc_ipc_uid d\<rparr> \<and>
    element_type_name d = type_name \<and> shared_buffer_pid d > 0 \<and> shared_buffer_socket_path d \<noteq> '''' \<and>
    unat kSharedBufferPayloadOffset + unat (desc_size d) \<le> unat (ib_mapped_size b) \<and>
    header_matches k c (desc_size d) (desc_ipc_uid d) \<and> \<not> acquire_refused (reader_state (hdr k c)) \<and>
    hdr k' = one_more_reader c (hdr k) \<and> pay k' = pay k"
proof -
  let ?imp = "import_block importer destroy (shared_buffer_socket_path d) (shared_buffer_pid d) (shared_buffer_block_id d)
    (shared_buffer_block_size d) (desc_size d) (desc_ipc_uid d) cache k"
  have g: "element_type_name d = type_name" "shared_buffer_pid d > 0" "shared_buffer_socket_path d \<noteq> ''''"
    using assms(1) by (auto simp: from_descriptor_with_endpoint_def split: if_splits)
  obtain r cache1 k1 where im: "?imp = (r, cache1, k1)" by (metis prod.exhaust)
  with assms(1) obtain b where r: "r = Inr b"
    by (cases r) (auto simp: from_descriptor_with_endpoint_def split: if_splits)
  note ok = import_block_success [OF im [unfolded r] assms(2,3)]
  then obtain c where c: "ib_control b = Some c" "header_matches k1 c (desc_size d) (desc_ipc_uid d)"
    "kSharedBufferPayloadOffset \<le> shared_buffer_block_size d"
    "desc_size d \<le> shared_buffer_block_size d - kSharedBufferPayloadOffset" by blast
  obtain a k2 where ac: "acquire_reader b k1 = (a, k2)" by (cases "acquire_reader b k1")
  with assms(1) im r have a: "a = Inr ()"
    by (cases a) (auto simp: from_descriptor_with_endpoint_def split: if_splits)
  from acquire_reader_cases [OF ac c(1)] a have k2: "\<not> acquire_refused (reader_state (hdr k1 c))"
    "k2 = k1\<lparr>hdr := one_more_reader c (hdr k1)\<rparr>" by simp_all
  have uid: "ipc_uid (hdr k2 c) = desc_ipc_uid d" using c(2) by (simp add: k2 one_more_reader_def header_matches_def)
  from assms(1) im r ac a c(1) uid have fin: "cache' = cache1" "k' = k2"
    "shared_buffer (imported_payload b) (desc_size d) (Release_reader (Some c)) (Some c) (Some c)
        (shared_buffer_block_id d) (shared_buffer_block_size d) False (shared_buffer_pid d)
        (shared_buffer_socket_path d) (desc_ipc_uid d) = Inr (impl_buffer im)" "impl_size im = desc_size d"
    by (auto simp: from_descriptor_with_endpoint_def split: if_splits sum.splits)
  have "imported_ok k' b" "cache_ok cache' k'"
    using ok fin k2 by (auto simp: imported_ok_def cache_ok_def)
  moreover have "unat kSharedBufferPayloadOffset + unat (desc_size d) \<le> unat (ib_mapped_size b)"
    using ok c(3,4) by (auto simp: word_le_nat_alt unat_sub)
  moreover have "impl_buffer im = \<lparr>data_ptr = ib_mapping b + kSharedBufferPayloadOffset, buffer_size = desc_size d,
      deleter = Release_reader (Some c), buffer_control = Some c, owner = Some c, held_reader_lease = None,
      handle_state = None, buffer_block_id = shared_buffer_block_id d,
      buffer_mapped_size = shared_buffer_block_size d, writable = False, ipc_pid = shared_buffer_pid d,
      ipc_name = shared_buffer_socket_path d, buffer_ipc_uid = desc_ipc_uid d\<rparr>"
    using fin(3) by (auto simp: shared_buffer_def imported_payload_def split: if_splits)
  moreover have "hdr k1 = hdr k" "pay k1 = pay k" using ok by simp_all
  moreover from this have "header_matches k c (desc_size d) (desc_ipc_uid d)"
    using c(2) by (simp add: header_matches_def)
  ultimately show ?thesis using c(1) g k2 fin(2,4) by (intro exI [of _ b] exI [of _ c]) simp
qed

lemma receive_failure:
  assumes "from_descriptor_with_endpoint importer destroy type_name dd cache k = (Inl e, cache', k')"
    and "cache_ok cache k" and "\<And>d. dd = Some d \<Longrightarrow> good_import k (shared_buffer_block_size d)"
  shows "objects_kept k k' \<and> cache_ok cache' k' \<and> (cache' = cache \<longrightarrow> vm k' = vm k \<and> fds k' = fds k)"
proof (cases "cache' = cache \<and> k' = k")
  case True
  with assms(2) show ?thesis by simp
next
  case False
  then obtain d where d: "dd = Some d" using assms(1) by (cases dd) (auto simp: from_descriptor_with_endpoint_def)
  let ?imp = "import_block importer destroy (shared_buffer_socket_path d) (shared_buffer_pid d) (shared_buffer_block_id d)
    (shared_buffer_block_size d) (desc_size d) (desc_ipc_uid d) cache k"
  obtain r cache1 k1 where im: "?imp = (r, cache1, k1)" by (metis prod.exhaust)
  note good = assms(3) [OF d]
  show ?thesis
  proof (cases r)
    case (Inl e')
    with assms(1) d False im have "cache' = cache1" "k' = k1"
      by (auto simp: from_descriptor_with_endpoint_def split: if_splits)
    with import_block_failure [OF im [unfolded Inl] assms(2) good] cache_ok_objects [OF assms(2)] show ?thesis by simp
  next
    case (Inr b)
    note ok = import_block_success [OF im [unfolded Inr] assms(2) good]
    then obtain c where c: "ib_control b = Some c" by blast
    have "imported_payload b \<noteq> 0"
    proof -
      from ok have m: "unat (ib_mapping b) + unat (ib_mapped_size b) < 2 ^ 64" "64 \<le> unat (ib_mapped_size b)"
        by (auto simp: imported_ok_def word_le_nat_alt kSharedBufferPayloadOffset_def)
      then have "unat (ib_mapping b + 64) = unat (ib_mapping b) + 64" by (simp add: unat_word_ariths)
      then show ?thesis by (metis add_is_0 imported_payload_def kSharedBufferPayloadOffset_def unat_0 zero_neq_numeral)
    qed
    then have sb: "\<exists>sb. shared_buffer (imported_payload b) (desc_size d) (Release_reader (ib_control b)) (ib_control b)
        (ib_control b) (shared_buffer_block_id d) (shared_buffer_block_size d) False (shared_buffer_pid d)
        (shared_buffer_socket_path d) (desc_ipc_uid d) = Inr sb" by (simp add: shared_buffer_def)
    obtain a k2 where ac: "acquire_reader b k1 = (a, k2)" by (cases "acquire_reader b k1")
    note cs = acquire_reader_cases [OF ac c]
    have "release_reader b (k1\<lparr>hdr := one_more_reader c (hdr k1)\<rparr>) = k1"
      by (simp add: release_reader_def c release_shared_buffer_reader_def one_more_reader_def)
    with assms(1) d False im Inr ac cs sb c have "cache' = cache1" "k' = k1"
      by (auto simp: from_descriptor_with_endpoint_def split: if_splits sum.splits)
    with ok show ?thesis
      by (cases "cache \<lparr>key_pid = shared_buffer_pid d, key_block_id = shared_buffer_block_id d,
          key_ipc_name = shared_buffer_socket_path d\<rparr>") auto
  qed
qed

end

section \<open>Properties\<close>

text \<open>
  C14: a descriptor that is accepted (on Linux) yields a buffer over a validated mapping: its header
  had the right magic, ABI, size and the descriptor's UID and was not claimed; the whole payload
  lies inside the mapping; exactly one reader has been added to the header, and destroying the
  buffer takes exactly that one away again; the buffer can never be written.
\<close>

theorem received_buffer_holds_one_lease:
  assumes "from_descriptor_with_endpoint (linux_import_platform_mapping ienv) linux_destroy_platform_mapping type_name
      (Some d) cache k = (Inr im, cache', k')"
    and "cache_ok cache k" and "linux_good_import ienv k (shared_buffer_block_size d)"
  shows "\<exists>c. buffer_control (impl_buffer im) = Some c \<and> header_matches k c (desc_size d) (desc_ipc_uid d) \<and>
    reader_lock_of (reader_state (hdr k c)) \<noteq> Claimed \<and> impl_size im = desc_size d \<and>
    object_at k' (data_ptr (impl_buffer im)) = Some c \<and>
    unat kSharedBufferPayloadOffset + unat (desc_size d) \<le> unat (osize k' c) \<and>
    hdr k' = one_more_reader c (hdr k) \<and> cache_ok cache' k' \<and>
    hdr (kern (snd (reset_buffer (impl_buffer im) (w\<lparr>kern := k'\<rparr>)))) = hdr k \<and>
    (\<exists>e sb w'. get_write_handle (impl_buffer im) w = (Inl e, sb, w'))"
proof -
  from linux_import.receive_success [OF assms] obtain b c where
    b: "ib_control b = Some c" "imported_ok k' b" "cache_ok cache' k'" "impl_size im = desc_size d"
      "data_ptr (impl_buffer im) = ib_mapping b + kSharedBufferPayloadOffset" "deleter (impl_buffer im) = Release_reader (Some c)"
      "buffer_control (impl_buffer im) = Some c" "held_reader_lease (impl_buffer im) = None" "\<not> writable (impl_buffer im)"
      "unat kSharedBufferPayloadOffset + unat (desc_size d) \<le> unat (ib_mapped_size b)"
      "header_matches k c (desc_size d) (desc_ipc_uid d)" "\<not> acquire_refused (reader_state (hdr k c))"
      "hdr k' = one_more_reader c (hdr k)"
    by (metis SharedBuffer.select_convs(1,3,4,6,10))
  from b(1,2) have vm: "vm k' (ib_mapping b) = Some c" "ib_mapped_size b \<le> osize k' c"
      "unat (ib_mapping b) + unat (ib_mapped_size b) < 2 ^ 64" by (auto simp: imported_ok_def)
  then have at: "object_at k' (data_ptr (impl_buffer im)) = Some c" by (simp add: object_at_def b(5))
  have "unat (ib_mapping b + 64) = unat (ib_mapping b) + 64"
    using vm(3) b(10) by (simp add: unat_word_ariths kSharedBufferPayloadOffset_def)
  then have nz: "data_ptr (impl_buffer im) \<noteq> 0"
    by (metis add_is_0 b(5) kSharedBufferPayloadOffset_def unat_0 zero_neq_numeral)
  have "release_shared_buffer_reader (Some c) (one_more_reader c (hdr k)) = hdr k"
    by (simp add: release_shared_buffer_reader_def one_more_reader_def)
  then have "hdr (kern (snd (reset_buffer (impl_buffer im) (w\<lparr>kern := k'\<rparr>)))) = hdr k"
    using nz by (simp add: reset_buffer_def b(6,8) run_deleter_def buffer_simps b(13))
  moreover have "unat kSharedBufferPayloadOffset + unat (desc_size d) \<le> unat (osize k' c)"
    using b(10) vm(2) by (simp add: word_le_nat_alt)
  moreover have "reader_lock_of (reader_state (hdr k c)) \<noteq> Claimed" using b(12) by (simp add: acquire_refused_lock)
  moreover have "\<exists>e sb w'. get_write_handle (impl_buffer im) w = (Inl e, sb, w')"
    using b(9) by (simp add: get_write_handle_def)
  ultimately show ?thesis using b at by blast
qed

text \<open>
  A descriptor that is rejected, for whatever reason (null, wrong type, malformed, failing
  system call, size, ABI or UID mismatch, block being reused), changes no byte and no word of
  any existing shared object: no lease is left behind.  Unless the block could be mapped and
  cached, no descriptor or mapping is left open either.
\<close>

theorem rejected_descriptor_leaves_no_lease:
  assumes "from_descriptor_with_endpoint (linux_import_platform_mapping ienv) linux_destroy_platform_mapping type_name
      dd cache k = (Inl e, cache', k')"
    and "cache_ok cache k" and "\<And>d. dd = Some d \<Longrightarrow> linux_good_import ienv k (shared_buffer_block_size d)"
  shows "objects_kept k k' \<and> cache_ok cache' k' \<and> (cache' = cache \<longrightarrow> vm k' = vm k \<and> fds k' = fds k)"
  by (rule linux_import.receive_failure [OF assms])

text \<open>
  A reception that meets no failing system call: the descriptor is accepted, and the buffer
  points into a new mapping of the object that was received.
\<close>

lemma linux_receive_ok:
  fixes d c
  defines "n \<equiv> desc_size d" and "uid \<equiv> desc_ipc_uid d" and "name \<equiv> shared_buffer_socket_path d" and "msize \<equiv> shared_buffer_block_size d"
  assumes cache: "cache \<lparr>key_pid = shared_buffer_pid d, key_block_id = shared_buffer_block_id d, key_ipc_name = name\<rparr> = None"
    and env: "linux_good_import ienv k msize" "0 \<le> socket_result ienv" "connect_ok ienv"
      "recvmsg_result ienv = 1" "cmsg_rights ienv = Some (fd, c)" "0 \<le> fd" "fstat_ok ienv" "import_mmap_result ienv = Some a"
    and bounds: "shared_buffer_pid d > 0" "length name < sun_path_size" "\<not> sint (osize k c) < 0"
      "\<not> acquire_refused (reader_state (hdr k c))"
    and d: "element_type_name d = type_name" "uid \<noteq> 0" "name \<noteq> ''''" "n \<noteq> 0" and o: "osize k c = msize" "header_matches k c n uid"
      "unat msize = 64 + unat n"
  shows "\<exists>im' cache' k'. from_descriptor_with_endpoint (linux_import_platform_mapping ienv) linux_destroy_platform_mapping
      type_name (Some d) cache k = (Inr im', cache', k') \<and>
    impl_size im' = n \<and> data_ptr (impl_buffer im') = a + kSharedBufferPayloadOffset \<and> buffer_control (impl_buffer im') = Some c \<and>
    hdr k' = one_more_reader c (hdr k) \<and> pay k' = pay k \<and> vm k' a = Some c"
proof -
  have ms: "kSharedBufferPayloadOffset \<le> msize" "n \<le> msize - kSharedBufferPayloadOffset"
    using o(3) by (simp_all add: word_le_nat_alt unat_sub kSharedBufferPayloadOffset_def)
  obtain r kr where rf: "receive_fd_from_socket ienv name k = (r, kr)" by (cases "receive_fd_from_socket ienv name k")
  have r: "r = Inr fd" using rf env bounds(2) d(3)
    by (auto simp: receive_fd_from_socket_def Let_def split: if_splits option.splits)
  have kr: "fds kr fd = Some (Memory c)" "osize kr = osize k" "hdr kr = hdr k" "pay kr = pay k" "vm kr = vm k"
    using receive_fd_success [OF rf [unfolded r] env(1)] env(5) receive_fd_objects [OF rf] by auto
  have imp: "linux_import_platform_mapping ienv name msize k =
      (Inr \<lparr>pm_native_handle = fd, pm_mapping = a, pm_mapped_size = msize, pm_ipc_name = name\<rparr>, map_received a fd kr)"
    using rf r kr env(7,8) o(1) bounds(3) by (simp add: linux_import_platform_mapping_def st_size_matches_def)
  let ?km = "map_received a fd kr"
  have km: "hdr ?km = hdr k" "pay ?km = pay k" "vm ?km a = Some c"
    using kr by (simp_all add: map_received_def sys_map_def)
  let ?ib = "\<lparr>ib_native_handle = fd, ib_mapping = a, ib_mapped_size = msize, ib_control = Some c, ib_ipc_name = name\<rparr>"
  have v: "validate_mapping ?ib msize n uid ?km = Inr ()"
    unfolding validate_mapping_iff using o(2) ms d(2) km by (simp add: header_matches_def)
  let ?key = "\<lparr>key_pid = shared_buffer_pid d, key_block_id = shared_buffer_block_id d, key_ipc_name = name\<rparr>"
  have ib: "import_block (linux_import_platform_mapping ienv) linux_destroy_platform_mapping name (shared_buffer_pid d)
      (shared_buffer_block_id d) msize n uid cache k = (Inr ?ib, cache(?key \<mapsto> ?ib), ?km)"
    using imp v cache d ms(1) km(3) by (simp add: import_block_def imported_block_def not_less Let_def)
  let ?k2 = "?km\<lparr>hdr := one_more_reader c (hdr k)\<rparr>"
  have ac: "acquire_reader ?ib ?km = (Inr (), ?k2)"
    using bounds(4) km(1) by (simp add: acquire_reader_def try_acquire_shared_buffer_reader_def one_more_reader_def Let_def)
  have uid2: "ipc_uid (hdr ?k2 c) = uid" using o(2) by (simp add: header_matches_def one_more_reader_def)
  have a: "range_free k a msize" using env(1,8) by (simp add: linux_good_import_def)
  have "unat (a + 64) = unat a + 64" using a o(3) by (simp add: range_free_def unat_word_ariths)
  then have nz: "a + kSharedBufferPayloadOffset \<noteq> 0"
    by (metis add_is_0 kSharedBufferPayloadOffset_def unat_0 zero_neq_numeral)
  obtain sb' where sb': "shared_buffer (imported_payload ?ib) n (Release_reader (Some c)) (Some c) (Some c)
      (shared_buffer_block_id d) msize False (shared_buffer_pid d) name uid = Inr sb'"
      "data_ptr sb' = a + kSharedBufferPayloadOffset" "buffer_control sb' = Some c"
    using nz by (simp add: shared_buffer_def imported_payload_def)
  have "from_descriptor_with_endpoint (linux_import_platform_mapping ienv) linux_destroy_platform_mapping type_name
      (Some d) cache k = (Inr \<lparr>impl_size = n, impl_buffer = sb'\<rparr>, cache(?key \<mapsto> ?ib), ?k2)"
    using d ib ac uid2 sb'(1) bounds(1) ms
    by (simp add: from_descriptor_with_endpoint_def not_less n_def uid_def name_def msize_def)
  then show ?thesis using sb'(2,3) km by simp
qed

text \<open>
  C3: zero-copy round trip.  A publisher's buffer is published, and a subscriber to whom the broker
  delivers the block's memory imports the descriptor before the publication is retracted: it
  gets a buffer of the same size whose payload is, byte for byte, the publisher's, in the same
  memory object and at the subscriber's own address, with one reader more in the header.
\<close>

theorem publish_import_roundtrip:
  assumes own: "owns (impl_buffer im) i w" and size: "impl_size im = buffer_size (impl_buffer im)"
    and local: "\<not> has_ipc_descriptor (impl_buffer im)" and c: "buffer_control (impl_buffer im) = Some c"
    and pub: "create_descriptor_with_endpoint (linux_register_block benv) gsz pid type_name be gid (Shared_impl im) w = (Some d, w1)"
    and k: "osize k c = osize (kern w1) c" "hdr k c = hdr (kern w1) c" "pay k c = pay (kern w1) c"
    and cache: "cache \<lparr>key_pid = pid, key_block_id = shared_buffer_block_id d, key_ipc_name = shared_buffer_socket_path d\<rparr> = None"
      "cache_ok cache k"
    and env: "linux_good_import ienv k (shared_buffer_block_size d)" "0 \<le> socket_result ienv" "connect_ok ienv"
      "recvmsg_result ienv = 1" "cmsg_rights ienv = Some (fd, c)" "0 \<le> fd" "fstat_ok ienv" "import_mmap_result ienv = Some a"
    and bounds: "pid > 0" "length (shared_buffer_socket_path d) < sun_path_size" "\<not> sint (osize k c) < 0"
      "\<not> acquire_refused (reader_state (hdr k c))"
  shows "\<exists>im' cache' k'. from_descriptor_with_endpoint (linux_import_platform_mapping ienv) linux_destroy_platform_mapping
      type_name (Some d) cache k = (Inr im', cache', k') \<and>
    impl_size im' = impl_size im \<and> data_ptr (impl_buffer im') = a + kSharedBufferPayloadOffset \<and>
    load_bytes k' (data_ptr (impl_buffer im')) (impl_size im') = payload (impl_buffer im) w \<and>
    buffer_control (impl_buffer im') = Some c \<and> hdr k' = one_more_reader c (hdr k)"
proof -
  let ?sb = "impl_buffer im" and ?w0 = "finalize_write_handle (impl_buffer im) w"
  have w0: "pool ?w0 = pool w" "kern ?w0 = kern w"
    by (simp_all add: finalize_write_handle_def update_state_def split: option.splits)
  have own0: "owns ?sb i ?w0" using own owns_same [OF w0] by simp
  from pub local have pd: "publish_descriptor (linux_register_block benv) pid type_name (impl_size im) ?sb ?w0 = (Some d, w1)"
    by (simp add: create_descriptor_with_endpoint_def Let_def split: if_splits)
  from linux_broker.publish_descriptor_success [OF own0 pd] c obtain uid name now where
    d: "uid \<noteq> 0" "name \<noteq> ''''" "d = \<lparr>desc_size = impl_size im, element_type_name = type_name, shared_buffer_pid = pid,
         shared_buffer_block_id = block_id (all_blocks (pool w) ! i),
         shared_buffer_block_size = mapped_size (all_blocks (pool w) ! i), shared_buffer_socket_path = name, desc_ipc_uid = uid\<rparr>"
    and h1: "hdr (kern w1) = (hdr (kern w))(c := published uid now (hdr (kern w) c))"
    and p1: "pay (kern w1) = pay (kern w)" "osize (kern w1) = osize (kern w)"
    unfolding w0 by auto
  let ?b = "all_blocks (pool w) ! i"
  have bo: "block_ok (kern w) ?b" and cb: "control ?b = Some c" and bs: "block_payload_size ?b = impl_size im"
    using own c size by (auto simp: owns_def pool_inv_block)
  have o: "osize k c = mapped_size ?b" "header_matches k c (impl_size im) uid" "unat (mapped_size ?b) = 64 + unat (impl_size im)"
      "impl_size im \<noteq> 0"
    using bo cb bs k h1 p1 d(1) by (auto simp: block_ok_def published_def header_matches_def)
  have "length (pay k c) = unat (impl_size im)" "payload ?sb w = pay k c"
    using owns_block [OF own] c k(3) p1(1) size by auto
  moreover have "\<exists>im' cache' k'. from_descriptor_with_endpoint (linux_import_platform_mapping ienv) linux_destroy_platform_mapping
      type_name (Some d) cache k = (Inr im', cache', k') \<and>
    impl_size im' = desc_size d \<and> data_ptr (impl_buffer im') = a + kSharedBufferPayloadOffset \<and>
    buffer_control (impl_buffer im') = Some c \<and> hdr k' = one_more_reader c (hdr k) \<and> pay k' = pay k \<and> vm k' a = Some c"
    by (rule linux_receive_ok [where fd = fd]) (use cache(1) env bounds o d in simp_all)
  moreover have "desc_size d = impl_size im" using d(3) by simp
  ultimately show ?thesis by (elim exE conjE, intro exI conjI) (assumption | simp add: load_bytes_def object_at_def)+
qed

text \<open>
  C28: a relay forwards what it received.  Publishing an imported buffer whose header still carries
  its UID produces exactly the descriptor it was imported with (same owner, path, block and UID,
  so a subscriber of the relay maps the original block), and only extends the publication time
  of that one header.
\<close>

theorem relay_forwards_the_descriptor:
  assumes "from_descriptor_with_endpoint (linux_import_platform_mapping ienv) linux_destroy_platform_mapping type_name
      (Some d) cache k = (Inr im, cache', k')"
    and "cache_ok cache k" and "linux_good_import ienv k (shared_buffer_block_size d)"
    and "kern w = k'" and "compatibility_cache be (gid_key gsz gid) \<noteq> Some False"
  shows "\<exists>c now w'. buffer_control (impl_buffer im) = Some c \<and>
    create_descriptor_with_endpoint register gsz pid type_name be gid (Shared_impl im) w = (Some d, w') \<and>
    hdr (kern w') = (hdr k')(c := (hdr k' c)\<lparr>publish_timestamp_us := now\<rparr>) \<and> pay (kern w') = pay k' \<and> pool w' = pool w"
proof -
  from linux_import.receive_success [OF assms(1-3)] obtain b c where
    b: "impl_size im = desc_size d" "shared_buffer_pid d > 0" "shared_buffer_socket_path d \<noteq> ''''" "element_type_name d = type_name"
      "impl_buffer im = \<lparr>data_ptr = ib_mapping b + kSharedBufferPayloadOffset, buffer_size = desc_size d,
        deleter = Release_reader (Some c), buffer_control = Some c, owner = Some c, held_reader_lease = None,
        handle_state = None, buffer_block_id = shared_buffer_block_id d,
        buffer_mapped_size = shared_buffer_block_size d, writable = False, ipc_pid = shared_buffer_pid d,
        ipc_name = shared_buffer_socket_path d, buffer_ipc_uid = desc_ipc_uid d\<rparr>"
      "header_matches k c (desc_size d) (desc_ipc_uid d)" "hdr k' = one_more_reader c (hdr k)"
      "imported_ok k' b" by blast
  have d: "d = \<lparr>desc_size = desc_size d, element_type_name = type_name, shared_buffer_pid = shared_buffer_pid d,
      shared_buffer_block_id = shared_buffer_block_id d, shared_buffer_block_size = shared_buffer_block_size d,
      shared_buffer_socket_path = shared_buffer_socket_path d, desc_ipc_uid = desc_ipc_uid d\<rparr>"
    using b(4) by (cases d) simp
  have m: "header_matches k' c (desc_size d) (desc_ipc_uid d)"
    using b(6,7) by (simp add: header_matches_def one_more_reader_def)
  let ?w' = "w\<lparr>kern := refresh_publish_timestamp (Some c) k'\<rparr>"
  have "create_descriptor_with_endpoint register gsz pid type_name be gid (Shared_impl im) w = (Some d, ?w')"
    using assms(4,5) m b(2,3) d
    by (simp add: create_descriptor_with_endpoint_def b(5) finalize_write_handle_def has_ipc_descriptor_def
        forward_descriptor_def forward_header_ok_def header_matches_def)
  moreover have "hdr (kern ?w') = (hdr k')(c := (hdr k' c)\<lparr>publish_timestamp_us := clock k' 0\<rparr>)" "pay (kern ?w') = pay k'"
    by (simp_all add: refresh_publish_timestamp_def monotonic_time_us_def update_control_def)
  ultimately show ?thesis using b(5) by (intro exI [of _ c] exI [of _ "clock k' 0"] exI [of _ ?w']) simp
qed

text \<open>
  An endpoint found to be incompatible gets no descriptor and nothing happens; in particular
  the write in progress is not finalised, so if a write handle of the buffer is still alive the
  fallback of copying the buffer to the CPU is refused.  An endpoint that was never discovered
  is treated like a compatible one.
\<close>

theorem incompatible_endpoint_leaves_the_write_open:
  assumes "on_discovering_endpoint gsz host gid supported be = (False, be')"
  shows "create_descriptor_with_endpoint register gsz pid type_name be' gid impl w = (None, w) \<and>
    (impl = Shared_impl im \<and> handle_state (impl_buffer im) = Some t \<and> access (states w t) = InUse \<and> impl_size im > 0 \<longrightarrow>
       fst (to_cpu esz im w) = Inl (Runtime_error ''cannot acquire a read handle while writing'')) \<and>
    (compatibility_cache be (gid_key gsz gid2) = None \<and> gid_key gsz gid2 \<noteq> gid_key gsz gid \<longrightarrow>
       create_descriptor_with_endpoint register gsz pid type_name be' gid2 impl w =
       create_descriptor_with_endpoint register gsz pid type_name
         (be'\<lparr>compatibility_cache := (compatibility_cache be')(gid_key gsz gid2 \<mapsto> True)\<rparr>) gid2 impl w)"
proof -
  have "compatibility_cache be' (gid_key gsz gid) = Some False"
    using assms by (auto simp: on_discovering_endpoint_def Let_def split: option.splits prod.splits)
  moreover have "compatibility_cache be' (gid_key gsz gid2) = None"
    if "compatibility_cache be (gid_key gsz gid2) = None" "gid_key gsz gid2 \<noteq> gid_key gsz gid"
    using assms that by (auto simp: on_discovering_endpoint_def get_backend_metadata_def get_endpoint_manager_def Let_def
        split: option.splits prod.splits)
  ultimately show ?thesis
    by (auto simp: create_descriptor_with_endpoint_def to_cpu_def get_read_handle_def)
qed

text \<open>
  Discovery remembers compatibility per endpoint: it is compatible exactly when it advertises
  this backend with the metadata this process computed first, and the metadata never changes
  afterwards; other endpoints' entries stay.
\<close>

theorem discovery_compares_metadata:
  assumes "on_discovering_endpoint gsz host gid supported be = (ok, be')"
  shows "(ok \<longleftrightarrow> supported ''shared_buffer'' = Some (case endpoint_manager be of None \<Rightarrow> host | Some m \<Rightarrow> m)) \<and>
    compatibility_cache be' = (compatibility_cache be)(gid_key gsz gid \<mapsto> ok) \<and>
    (\<forall>m. endpoint_manager be = Some m \<longrightarrow> endpoint_manager be' = Some m) \<and>
    (\<forall>host2. fst (get_backend_metadata host2 (snd (get_backend_metadata host be))) = fst (get_backend_metadata host be))"
  using assms by (auto simp: on_discovering_endpoint_def get_backend_metadata_def get_endpoint_manager_def Let_def
      split: option.splits prod.splits)

section \<open>Concrete publication and reception\<close>

definition sample_descriptor :: SharedBufferDescriptor where
  "sample_descriptor = \<lparr>desc_size = 4, element_type_name = ''h'', shared_buffer_pid = 77, shared_buffer_block_id = 0,
     shared_buffer_block_size = 68, shared_buffer_socket_path = ''/tmp/s'', desc_ipc_uid = 42\<rparr>"

lemma sample_received:
  "\<exists>im cache' k'. from_descriptor_with_endpoint (linux_import_platform_mapping sample_ienv) linux_destroy_platform_mapping
     ''h'' (Some sample_descriptor) (\<lambda>_. None) published_kernel = (Inr im, cache', k')"
proof -
  obtain cache' k' where i: "import_block (linux_import_platform_mapping sample_ienv) linux_destroy_platform_mapping
     ''/tmp/s'' 77 0 68 4 42 (\<lambda>_. None) published_kernel = (Inr imported_sample, cache', k')"
    "hdr k' = hdr published_kernel" using sample_import by blast
  then show ?thesis
    by (simp add: from_descriptor_with_endpoint_def sample_descriptor_def kSharedBufferPayloadOffset_def acquire_reader_def
        imported_sample_def try_acquire_shared_buffer_reader_def Let_def published_kernel_def published_header_def
        default_control_header_def acquire_refused_iff shared_buffer_def imported_payload_def)
qed

lemma sample_cache_ok: "cache_ok (\<lambda>_. None) k"
  by (simp add: cache_ok_def)

lemma sample_descriptor_good: "linux_good_import sample_ienv published_kernel (shared_buffer_block_size sample_descriptor)"
  using sample_import_good by (simp add: sample_descriptor_def)

theorem received_buffer_holds_one_lease_witness:
  "\<exists>im cache' k' c. from_descriptor_with_endpoint (linux_import_platform_mapping sample_ienv) linux_destroy_platform_mapping
     ''h'' (Some sample_descriptor) (\<lambda>_. None) published_kernel = (Inr im, cache', k') \<and>
     buffer_control (impl_buffer im) = Some c \<and> hdr k' = one_more_reader c (hdr published_kernel)"
proof -
  obtain im cache' k' where r: "from_descriptor_with_endpoint (linux_import_platform_mapping sample_ienv)
     linux_destroy_platform_mapping ''h'' (Some sample_descriptor) (\<lambda>_. None) published_kernel = (Inr im, cache', k')"
    using sample_received by blast
  from received_buffer_holds_one_lease [OF r sample_cache_ok sample_descriptor_good] r show ?thesis by blast
qed

theorem rejected_descriptor_leaves_no_lease_witness:
  "let (r, cache', k') = from_descriptor_with_endpoint (linux_import_platform_mapping sample_ienv)
     linux_destroy_platform_mapping ''h'' (Some (sample_descriptor\<lparr>shared_buffer_pid := 0\<rparr>)) (\<lambda>_. None) published_kernel
   in (\<exists>e. r = Inl e) \<and> objects_kept published_kernel k'"
proof -
  let ?d = "sample_descriptor\<lparr>shared_buffer_pid := 0\<rparr>"
  obtain e where r: "from_descriptor_with_endpoint (linux_import_platform_mapping sample_ienv)
     linux_destroy_platform_mapping ''h'' (Some ?d) (\<lambda>_. None) published_kernel = (Inl e, (\<lambda>_. None), published_kernel)"
    by (simp add: from_descriptor_with_endpoint_def sample_descriptor_def)
  have "objects_kept published_kernel published_kernel"
    using rejected_descriptor_leaves_no_lease [OF r sample_cache_ok] sample_descriptor_good by auto
  with r show ?thesis by simp
qed

theorem relay_forwards_the_descriptor_witness:
  "\<exists>im cache' k' w'. from_descriptor_with_endpoint (linux_import_platform_mapping sample_ienv) linux_destroy_platform_mapping
     ''h'' (Some sample_descriptor) (\<lambda>_. None) published_kernel = (Inr im, cache', k') \<and>
     create_descriptor_with_endpoint (linux_register_block sample_broker_env) 16 1 ''h'' new_backend [] (Shared_impl im)
       (sample_world\<lparr>kern := k'\<rparr>) = (Some sample_descriptor, w')"
proof -
  obtain im cache' k' where r: "from_descriptor_with_endpoint (linux_import_platform_mapping sample_ienv)
     linux_destroy_platform_mapping ''h'' (Some sample_descriptor) (\<lambda>_. None) published_kernel = (Inr im, cache', k')"
    using sample_received by blast
  have "kern (sample_world\<lparr>kern := k'\<rparr>) = k'" "compatibility_cache new_backend (gid_key 16 []) \<noteq> Some False"
    by (simp_all add: new_backend_def)
  from relay_forwards_the_descriptor [OF r sample_cache_ok sample_descriptor_good this] r show ?thesis by blast
qed

theorem incompatible_endpoint_leaves_the_write_open_witness:
  "fst (create_descriptor_with_endpoint (linux_register_block sample_broker_env) 16 1 ''h''
     (snd (on_discovering_endpoint 16 ''a:1'' [1] (\<lambda>_. Some ''b:1'') new_backend)) [1] (Shared_impl sample_impl) sample_world) = None"
proof -
  obtain be' where d: "on_discovering_endpoint 16 ''a:1'' [1] (\<lambda>_. Some ''b:1'') new_backend = (False, be')"
    by (simp add: on_discovering_endpoint_def get_backend_metadata_def get_endpoint_manager_def new_backend_def)
  from incompatible_endpoint_leaves_the_write_open [OF d]
  have "create_descriptor_with_endpoint (linux_register_block sample_broker_env) 16 1 ''h'' be' [1] (Shared_impl sample_impl)
    sample_world = (None, sample_world)" by blast
  with d show ?thesis by simp
qed

theorem discovery_compares_metadata_witness:
  "fst (on_discovering_endpoint 16 ''a:1'' [1] [''shared_buffer'' \<mapsto> ''a:1''] new_backend)"
  using discovery_compares_metadata
    [of 16 "''a:1''" "[1]" "[''shared_buffer'' \<mapsto> ''a:1'']" new_backend
        "fst (on_discovering_endpoint 16 ''a:1'' [1] [''shared_buffer'' \<mapsto> ''a:1''] new_backend)"
        "snd (on_discovering_endpoint 16 ''a:1'' [1] [''shared_buffer'' \<mapsto> ''a:1''] new_backend)"]
  by (simp add: new_backend_def)

lemma sample_published:
  "\<exists>d w1. create_descriptor_with_endpoint (linux_register_block sample_broker_env) 16 77 ''h'' new_backend []
     (Shared_impl sample_impl) sample_world = (Some d, w1) \<and>
     shared_buffer_block_size d = 68 \<and> shared_buffer_socket_path d = broker_path sample_broker_env 0 7 \<and>
     vm (kern w1) = vm sample_kernel1 \<and> next_oid (kern w1) = 1 \<and> osize (kern w1) = osize sample_kernel1 \<and>
     fds (kern w1) = [7 \<mapsto> Memory 0, 10 \<mapsto> Socket_fd, 11 \<mapsto> Memory 0] \<and> reader_state (hdr (kern w1) 0) = 0"
  by (simp add: create_descriptor_with_endpoint_def new_backend_def sample_impl_def sample_buffer_def
      finalize_write_handle_def has_ipc_descriptor_def publish_descriptor_def find_block_for_ptr_def sample_world_def
      sample_pool1_def kSharedBufferPayloadOffset_def register_block_for_ipc_def linux_register_block_def
      sample_broker_def create_fd_server_socket_def broker_path_def sample_broker_env_def sun_path_size_def
      to_string.simps int_to_string_def Let_def add_socket_def sample_dispatcher_def sys_dup_def sample_kernel1_def
      empty_kernel_def sys_unlink_def sys_open_socket_def sys_open_object_def update_block_def assign_uid_def
      mark_published_def update_control_def refresh_publish_timestamp_def monotonic_time_us_def default_control_header_def)

theorem publish_import_roundtrip_witness:
  "\<exists>d w1 im' cache' k'. create_descriptor_with_endpoint (linux_register_block sample_broker_env) 16 77 ''h'' new_backend []
     (Shared_impl sample_impl) sample_world = (Some d, w1) \<and>
     from_descriptor_with_endpoint (linux_import_platform_mapping sample_ienv) linux_destroy_platform_mapping ''h''
       (Some d) (\<lambda>_. None) (kern w1) = (Inr im', cache', k') \<and>
     load_bytes k' (data_ptr (impl_buffer im')) 4 = payload sample_buffer sample_world"
proof -
  obtain d w1 where p: "create_descriptor_with_endpoint (linux_register_block sample_broker_env) 16 77 ''h'' new_backend []
      (Shared_impl sample_impl) sample_world = (Some d, w1)" "shared_buffer_block_size d = 68"
      "shared_buffer_socket_path d = broker_path sample_broker_env 0 7" "vm (kern w1) = vm sample_kernel1"
      "next_oid (kern w1) = 1" "osize (kern w1) = osize sample_kernel1"
      "fds (kern w1) = [7 \<mapsto> Memory 0, 10 \<mapsto> Socket_fd, 11 \<mapsto> Memory 0]" "reader_state (hdr (kern w1) 0) = 0"
    using sample_published by blast
  have own: "owns (impl_buffer sample_impl) 0 sample_world" using sample_owns by (simp add: sample_impl_def)
  have path: "length (shared_buffer_socket_path d) < sun_path_size"
    by (simp add: p(3) broker_path_def sample_broker_env_def to_string.simps int_to_string_def sun_path_size_def)
  have good: "linux_good_import sample_ienv (kern w1) (shared_buffer_block_size d)"
    using p by (simp add: linux_good_import_def sample_ienv_def range_free_def ranges_disjoint_def sample_kernel1_def
        empty_kernel_def)
  have sz: "\<not> sint (osize (kern w1) 0) < 0" by (simp add: p(6) sample_kernel1_def)
  have nr: "\<not> acquire_refused (reader_state (hdr (kern w1) 0))" by (simp add: p(8) acquire_refused_iff)
  have misc: "impl_size sample_impl = buffer_size (impl_buffer sample_impl)" "\<not> has_ipc_descriptor (impl_buffer sample_impl)"
      "buffer_control (impl_buffer sample_impl) = Some 0"
    by (simp_all add: sample_impl_def sample_buffer_def has_ipc_descriptor_def)
  from publish_import_roundtrip [OF own misc p(1) refl refl refl refl sample_cache_ok good _ _ _ _ _ _ _ _ path sz nr, of 21 "0x7E0000000000"]
  show ?thesis using p(1) by (simp add: sample_ienv_def) (auto simp: sample_impl_def)
qed

section \<open>Types and sizes of descriptors\<close>

text \<open>The checks a receiver makes on the message itself, before it opens anything.\<close>

definition well_formed_descriptor :: "string \<Rightarrow> SharedBufferDescriptor \<Rightarrow> bool" where
  "well_formed_descriptor type_name d \<longleftrightarrow> element_type_name d = type_name \<and> shared_buffer_pid d > 0 \<and>
     shared_buffer_socket_path d \<noteq> '''' \<and> desc_ipc_uid d \<noteq> 0 \<and> kSharedBufferPayloadOffset \<le> shared_buffer_block_size d \<and>
     desc_size d \<le> shared_buffer_block_size d - kSharedBufferPayloadOffset"



end
