(* ===== verification/Protocol.thy ===== *)
theory Protocol
  imports Backend_Correct
begin

text \<open>
  The life of one shared block under concurrency.  \<open>Pool\<close> and \<open>Backend\<close> run each operation without
  interruption; here the operations are cut into their accesses to the shared header, and the
  steps of the publisher and of any number of readers, in this and in other processes,
  interleave freely.  A step is one atomic access, performed by the functions of \<open>Control\<close>.

  The publisher's phases are the points between two accesses in \<^verbatim>\<open>try_claim_block\<close>, \<^verbatim>\<open>allocate\<close>,
  \<^verbatim>\<open>create_descriptor_with_endpoint\<close> and \<^verbatim>\<open>mark_published\<close>; a reader's are those in \<^verbatim>\<open>import_block\<close>,
  \<^verbatim>\<open>from_descriptor_with_endpoint\<close>, \<^verbatim>\<open>make_lease\<close> and the forwarding branch of the plugin.
  \<open>sent\<close> remembers for every published UID the payload at that moment and whether writing
  was over; it is history, no step reads the payload from it.  UIDs are assumed to be fresh when they
  are drawn (a 64-bit generator does not repeat itself during the life of a block).
\<close>

section \<open>State\<close>

datatype publisher =
    In_pool | Checked | Claimed_block | Uid_cleared | Time_cleared   \<comment> \<open>free, and being reused\<close>
  | Reserved | Publishing | Uid_stored | Announced                   \<comment> \<open>owned by a buffer\<close>

datatype reader =
    Absent | Validated u64 | Leased u64 | Stale | Holding u64 | Forwarding u64 | Local_reader

record protocol =
  mem :: cmem
  content :: "u8 list"
  now :: u64
  generation :: u64                             \<comment> \<open>\<^verbatim>\<open>current_uid\<close>\<close>
  pub :: publisher
  writing :: handle_access
  readers :: "nat \<Rightarrow> reader"
  sent :: "u64 \<Rightarrow> (u8 list \<times> bool) option"
  used_uids :: "u64 set"

fun claiming :: "publisher \<Rightarrow> bool" where
  "claiming Claimed_block = True"
| "claiming Uid_cleared = True"
| "claiming Time_cleared = True"
| "claiming _ = False"

fun owned :: "publisher \<Rightarrow> bool" where
  "owned Reserved = True"
| "owned Publishing = True"
| "owned Uid_stored = True"
| "owned Announced = True"
| "owned _ = False"

fun has_lease :: "reader \<Rightarrow> bool" where
  "has_lease Absent = False"
| "has_lease (Validated u) = False"
| "has_lease _ = True"

definition leases :: "protocol \<Rightarrow> nat set" where
  "leases s = {i. has_lease (readers s i)}"

definition store_header :: "oid \<Rightarrow> (control_header \<Rightarrow> control_header) \<Rightarrow> cmem \<Rightarrow> cmem" where
  "store_header c f m = m(c := f (m c))"

section \<open>Steps\<close>

text \<open>The publisher: reuse of the block, access through its buffer, publication.\<close>

inductive publisher_step :: "oid \<Rightarrow> protocol \<Rightarrow> protocol \<Rightarrow> bool" for c where
  check_grace: "pub s = In_pool \<Longrightarrow> reusable_at (now s) (mem s c) \<Longrightarrow> publisher_step c s (s\<lparr>pub := Checked\<rparr>)"
| claim: "pub s = Checked \<Longrightarrow> try_claim_shared_buffer_reuse (Some c) (mem s) = (True, m) \<Longrightarrow>
    publisher_step c s (s\<lparr>mem := m, pub := Claimed_block\<rparr>)"
| claim_refused: "pub s = Checked \<Longrightarrow> try_claim_shared_buffer_reuse (Some c) (mem s) = (False, m) \<Longrightarrow>
    publisher_step c s (s\<lparr>pub := In_pool\<rparr>)"
| clear_uid: "pub s = Claimed_block \<Longrightarrow> u \<noteq> 0 \<Longrightarrow> u \<notin> used_uids s \<Longrightarrow>
    publisher_step c s (s\<lparr>mem := store_header c (\<lambda>h. h\<lparr>ipc_uid := 0\<rparr>) (mem s), generation := u,
      used_uids := insert u (used_uids s), pub := Uid_cleared\<rparr>)"
| clear_time: "pub s = Uid_cleared \<Longrightarrow>
    publisher_step c s (s\<lparr>mem := store_header c (\<lambda>h. h\<lparr>publish_timestamp_us := 0\<rparr>) (mem s), pub := Time_cleared\<rparr>)"
| unclaim: "pub s = Time_cleared \<Longrightarrow>
    publisher_step c s (s\<lparr>mem := release_shared_buffer_reuse_claim (Some c) (mem s), writing := Unset, pub := Reserved\<rparr>)"
| begin_write: "owned (pub s) \<Longrightarrow> writing s = Unset \<Longrightarrow> \<forall>i. readers s i \<noteq> Local_reader \<Longrightarrow>
    publisher_step c s (s\<lparr>writing := InUse\<rparr>)"
| write_payload: "owned (pub s) \<Longrightarrow> writing s = InUse \<Longrightarrow> length b = length (content s) \<Longrightarrow>
    publisher_step c s (s\<lparr>content := b\<rparr>)"
| end_write: "owned (pub s) \<Longrightarrow> writing s = InUse \<Longrightarrow> publisher_step c s (s\<lparr>writing := Finalized\<rparr>)"
| begin_publish: "pub s \<in> {Reserved, Announced} \<Longrightarrow>
    publisher_step c s (s\<lparr>writing := (if writing s = InUse then Finalized else writing s), pub := Publishing\<rparr>)"
| abort_publish: "pub s = Publishing \<Longrightarrow> publisher_step c s (s\<lparr>pub := Reserved\<rparr>)"
| store_uid: "pub s = Publishing \<Longrightarrow>
    publisher_step c s (s\<lparr>mem := store_header c (\<lambda>h. h\<lparr>ipc_uid := generation s\<rparr>) (mem s),
      sent := (sent s)(generation s \<mapsto> (content s, writing s = Finalized)), pub := Uid_stored\<rparr>)"
| store_time: "pub s = Uid_stored \<Longrightarrow>
    publisher_step c s (s\<lparr>mem := store_header c (\<lambda>h. h\<lparr>publish_timestamp_us := now s\<rparr>) (mem s), pub := Announced\<rparr>)"
| give_back: "pub s \<in> {Reserved, Announced} \<Longrightarrow> publisher_step c s (s\<lparr>pub := In_pool\<rparr>)"

text \<open>
  Reader \<open>i\<close>.  A descriptor can be received as soon as its UID is stored.  \<open>share\<close> is a further
  read handle on an imported buffer, \<open>local_read\<close> one on the publisher's own buffer.
\<close>

inductive reader_step :: "oid \<Rightarrow> nat \<Rightarrow> protocol \<Rightarrow> protocol \<Rightarrow> bool" for c i where
  validate: "readers s i = Absent \<Longrightarrow> sent s u \<noteq> None \<Longrightarrow> ipc_uid (mem s c) = u \<Longrightarrow>
    reader_step c i s (s\<lparr>readers := (readers s)(i := Validated u)\<rparr>)"
| lease: "readers s i = Validated u \<Longrightarrow> try_acquire_shared_buffer_reader (Some c) (mem s) = (True, m) \<Longrightarrow>
    reader_step c i s (s\<lparr>mem := m, readers := (readers s)(i := Leased u)\<rparr>)"
| lease_refused: "readers s i = Validated u \<Longrightarrow> try_acquire_shared_buffer_reader (Some c) (mem s) = (False, m) \<Longrightarrow>
    reader_step c i s (s\<lparr>readers := (readers s)(i := Absent)\<rparr>)"
| confirm: "readers s i = Leased u \<Longrightarrow> ipc_uid (mem s c) = u \<Longrightarrow>
    reader_step c i s (s\<lparr>readers := (readers s)(i := Holding u)\<rparr>)"
| mismatch: "readers s i = Leased u \<Longrightarrow> ipc_uid (mem s c) \<noteq> u \<Longrightarrow>
    reader_step c i s (s\<lparr>readers := (readers s)(i := Stale)\<rparr>)"
| share: "readers s i = Absent \<Longrightarrow> readers s j = Holding u \<Longrightarrow>
    try_acquire_shared_buffer_reader (Some c) (mem s) = (True, m) \<Longrightarrow>
    reader_step c i s (s\<lparr>mem := m, readers := (readers s)(i := Holding u)\<rparr>)"
| local_read: "readers s i = Absent \<Longrightarrow> owned (pub s) \<Longrightarrow> writing s \<noteq> InUse \<Longrightarrow>
    try_acquire_shared_buffer_reader (Some c) (mem s) = (True, m) \<Longrightarrow>
    reader_step c i s (s\<lparr>mem := m, readers := (readers s)(i := Local_reader)\<rparr>)"
| forward_check: "readers s i = Holding u \<Longrightarrow> ipc_uid (mem s c) = u \<Longrightarrow>
    reader_step c i s (s\<lparr>readers := (readers s)(i := Forwarding u)\<rparr>)"
| forward: "readers s i = Forwarding u \<Longrightarrow>
    reader_step c i s (s\<lparr>mem := store_header c (\<lambda>h. h\<lparr>publish_timestamp_us := now s\<rparr>) (mem s),
      readers := (readers s)(i := Holding u)\<rparr>)"
| finish: "readers s i \<in> {Stale, Local_reader} \<or> (\<exists>u. readers s i = Holding u) \<Longrightarrow>
    reader_step c i s (s\<lparr>mem := release_shared_buffer_reader (Some c) (mem s), readers := (readers s)(i := Absent)\<rparr>)"

inductive protocol_step :: "oid \<Rightarrow> protocol \<Rightarrow> protocol \<Rightarrow> bool" for c where
  publisher: "publisher_step c s t \<Longrightarrow> protocol_step c s t"
| reader: "reader_step c i s t \<Longrightarrow> protocol_step c s t"
| tick: "now s \<le> t \<Longrightarrow> protocol_step c s (s\<lparr>now := t\<rparr>)"

text \<open>A block that \<^verbatim>\<open>create_block\<close> has just made and \<^verbatim>\<open>allocate\<close> reserved.\<close>

definition protocol_start :: "oid \<Rightarrow> protocol \<Rightarrow> bool" where
  "protocol_start c s \<longleftrightarrow> pub s = Reserved \<and> writing s = Unset \<and> readers s = (\<lambda>_. Absent) \<and> sent s = (\<lambda>_. None) \<and>
     reader_state (mem s c) = 0 \<and> ipc_uid (mem s c) = 0 \<and> publish_timestamp_us (mem s c) = 0 \<and>
     generation s \<noteq> 0 \<and> used_uids s = {generation s}"

inductive protocol_reachable :: "oid \<Rightarrow> protocol \<Rightarrow> bool" for c where
  start: "protocol_start c s \<Longrightarrow> protocol_reachable c s"
| step: "protocol_reachable c s \<Longrightarrow> protocol_step c s t \<Longrightarrow> protocol_reachable c t"


section \<open>The lock\<close>

text \<open>
  The header counts exactly the readers that hold a lease, and while the publisher prepares a
  block for reuse nobody does.
\<close>

abbreviation lock_of :: "oid \<Rightarrow> protocol \<Rightarrow> reader_lock" where
  "lock_of c s \<equiv> reader_lock_of (reader_state (mem s c))"

definition lock_inv :: "oid \<Rightarrow> protocol \<Rightarrow> bool" where
  "lock_inv c s \<longleftrightarrow> finite (leases s) \<and>
     (if claiming (pub s) then leases s = {} \<and> lock_of c s = Claimed else lock_of c s = Readers (card (leases s)))"

lemma leases_frame [simp]:
  "leases (s\<lparr>mem := m\<rparr>) = leases s" "leases (s\<lparr>content := b\<rparr>) = leases s" "leases (s\<lparr>now := t\<rparr>) = leases s"
  "leases (s\<lparr>generation := u\<rparr>) = leases s" "leases (s\<lparr>pub := p\<rparr>) = leases s" "leases (s\<lparr>writing := w\<rparr>) = leases s"
  "leases (s\<lparr>sent := f\<rparr>) = leases s" "leases (s\<lparr>used_uids := us\<rparr>) = leases s"
  by (simp_all add: leases_def)

lemma leases_reader [simp]:
  "leases (s\<lparr>readers := (readers s)(i := r)\<rparr>) = (if has_lease r then insert i (leases s) else leases s - {i})"
  by (auto simp: leases_def)

lemma in_leases: "i \<in> leases s \<longleftrightarrow> has_lease (readers s i)"
  by (simp add: leases_def)

lemma owned_not_claiming: "owned p \<Longrightarrow> \<not> claiming p"
  by (cases p) simp_all

lemma claim_lock:
  assumes "try_claim_shared_buffer_reuse (Some c) m = (True, m')"
  shows "reader_lock_of (reader_state (m c)) = Readers 0 \<and> reader_lock_of (reader_state (m' c)) = Claimed"
  using assms header.claim_iff [of c m] header.claim_idle [of m c] by simp

lemma acquire_lock:
  assumes "try_acquire_shared_buffer_reader (Some c) m = (True, m')"
  shows "\<exists>n. reader_lock_of (reader_state (m c)) = Readers n \<and> reader_lock_of (reader_state (m' c)) = Readers (Suc n)"
  using assms header.acquire_iff [of c m] header.acquired [of m c] by auto

lemma publisher_lock_inv:
  assumes "publisher_step c s t" and "lock_inv c s"
  shows "lock_inv c t"
  using assms
proof (induction rule: publisher_step.induct)
  case (claim s m)
  then show ?case using claim_lock [of c "mem s" m] by (auto simp: lock_inv_def)
next
  case (unclaim s)
  then show ?case using header.unclaim_open [of c "mem s"] by (simp add: lock_inv_def)
qed (auto simp: lock_inv_def store_header_def)

lemma lease_taken:
  assumes "lock_inv c s" and "try_acquire_shared_buffer_reader (Some c) (mem s) = (True, m)" and "i \<notin> leases s"
    and "has_lease r"
  shows "lock_inv c (s\<lparr>mem := m, readers := (readers s)(i := r)\<rparr>)"
proof -
  have "leases (s\<lparr>mem := m, readers := (readers s)(i := r)\<rparr>) = insert i (leases s)"
    using assms(4) by (auto simp: leases_def)
  then show ?thesis using assms acquire_lock [OF assms(2)] by (auto simp: lock_inv_def split: if_splits)
qed

lemma lease_dropped:
  assumes "lock_inv c s" and "i \<in> leases s"
  shows "lock_inv c (s\<lparr>mem := release_shared_buffer_reader (Some c) (mem s), readers := (readers s)(i := Absent)\<rparr>)"
proof -
  have l: "leases (s\<lparr>mem := release_shared_buffer_reader (Some c) (mem s), readers := (readers s)(i := Absent)\<rparr>)
      = leases s - {i}"
    by (auto simp: leases_def)
  have "card (leases s) = Suc (card (leases s - {i}))"
    using assms by (metis card.remove lock_inv_def)
  with assms have "lock_of c s = Readers (Suc (card (leases s - {i})))" "\<not> claiming (pub s)" "finite (leases s)"
    by (auto simp: lock_inv_def split: if_splits)
  with l header.release_reader [of "mem s" c] show ?thesis by (simp add: lock_inv_def)
qed

lemma lease_kept:
  assumes "lock_inv c s" and "has_lease (readers s i) \<longleftrightarrow> has_lease r"
  shows "lock_inv c (s\<lparr>readers := (readers s)(i := r)\<rparr>)"
proof -
  have "leases (s\<lparr>readers := (readers s)(i := r)\<rparr>) = leases s" using assms(2) by (auto simp: leases_def)
  with assms(1) show ?thesis by (simp add: lock_inv_def)
qed

lemma lock_inv_store:
  "reader_state (f (mem s c)) = reader_state (mem s c) \<Longrightarrow> lock_inv c s \<Longrightarrow> lock_inv c (s\<lparr>mem := store_header c f (mem s)\<rparr>)"
  by (simp add: lock_inv_def store_header_def)

lemma reader_lock_inv:
  assumes "reader_step c i s t" and "lock_inv c s"
  shows "lock_inv c t"
  using assms
proof (induction rule: reader_step.induct)
  case (forward s u)
  have "lock_inv c (s\<lparr>mem := store_header c (\<lambda>h. h\<lparr>publish_timestamp_us := now s\<rparr>) (mem s)\<rparr>)"
    by (rule lock_inv_store) (simp_all add: forward.prems)
  from lease_kept [OF this, of i "Holding u"] forward.hyps show ?case by simp
next
  case (finish s)
  then show ?case by (intro lease_dropped) (auto simp: in_leases)
qed (auto intro!: lease_taken lease_kept simp: in_leases)

lemma protocol_lock_inv:
  assumes "protocol_step c s t" and "lock_inv c s"
  shows "lock_inv c t"
  using assms
proof (induction rule: protocol_step.induct)
  case (tick s t)
  then show ?case by (simp add: lock_inv_def)
qed (blast intro: publisher_lock_inv reader_lock_inv)+


section \<open>Generations\<close>

text \<open>The UID a reader is working with.\<close>

fun uid_of :: "reader \<Rightarrow> u64 option" where
  "uid_of (Validated u) = Some u"
| "uid_of (Leased u) = Some u"
| "uid_of (Holding u) = Some u"
| "uid_of (Forwarding u) = Some u"
| "uid_of _ = None"

fun confirmed :: "reader \<Rightarrow> bool" where
  "confirmed (Holding u) = True"
| "confirmed (Forwarding u) = True"
| "confirmed _ = False"

lemma confirmed_lease: "confirmed r \<Longrightarrow> has_lease r"
  by (cases r) simp_all

text \<open>
  The header shows no UID or that of the current generation; a confirmed reader works with the
  UID in the header; the payload of a generation whose writing was over when it was published is
  still the one recorded then.
\<close>

definition uid_inv :: "oid \<Rightarrow> protocol \<Rightarrow> bool" where
  "uid_inv c s \<longleftrightarrow>
     generation s \<noteq> 0 \<and> generation s \<in> used_uids s \<and> ipc_uid (mem s c) \<in> {0, generation s} \<and>
     (\<forall>u. sent s u \<noteq> None \<longrightarrow> u \<in> used_uids s \<and> u \<noteq> 0) \<and>
     (\<forall>i u. uid_of (readers s i) = Some u \<longrightarrow> sent s u \<noteq> None) \<and>
     (\<forall>i u. confirmed (readers s i) \<longrightarrow> uid_of (readers s i) = Some u \<longrightarrow> ipc_uid (mem s c) = u)"

definition content_inv :: "protocol \<Rightarrow> bool" where
  "content_inv s \<longleftrightarrow>
     (pub s \<in> {Uid_cleared, Time_cleared} \<longrightarrow> sent s (generation s) = None) \<and>
     (\<forall>b. sent s (generation s) = Some (b, True) \<longrightarrow> writing s = Finalized \<and> content s = b)"

definition protocol_inv :: "oid \<Rightarrow> protocol \<Rightarrow> bool" where
  "protocol_inv c s \<longleftrightarrow> lock_inv c s \<and> uid_inv c s \<and> content_inv s"

lemma claimed_unconfirmed: "lock_inv c s \<Longrightarrow> claiming (pub s) \<Longrightarrow> \<not> confirmed (readers s i)"
  using confirmed_lease by (fastforce simp: lock_inv_def leases_def)

lemma acquire_uid:
  assumes "try_acquire_shared_buffer_reader p m = (ok, m')"
  shows "ipc_uid (m' c) = ipc_uid (m c)" "publish_timestamp_us (m' c) = publish_timestamp_us (m c)"
  using try_acquire_frame(4,5) [of p m c] assms by simp_all

lemma claim_uid:
  assumes "try_claim_shared_buffer_reuse p m = (ok, m')"
  shows "ipc_uid (m' c) = ipc_uid (m c)" "publish_timestamp_us (m' c) = publish_timestamp_us (m c)"
  using try_claim_frame(4,5) [of p m c] assms by simp_all

lemma publisher_uid_inv:
  assumes "publisher_step c s t" and "lock_inv c s" and "uid_inv c s"
  shows "uid_inv c t"
  using assms
proof (induction rule: publisher_step.induct)
  case (claim s m)
  then show ?case by (auto simp: uid_inv_def claim_uid)
next
  case (clear_uid s u)
  then have "\<not> confirmed (readers s i)" for i by (simp add: claimed_unconfirmed)
  with clear_uid show ?case by (simp add: uid_inv_def store_header_def)
next
  case (store_uid s)
  have "u = generation s" if "confirmed (readers s i)" "uid_of (readers s i) = Some u" for i u
    using that store_uid.prems(2) unfolding uid_inv_def by (metis insert_iff singletonD)
  with store_uid show ?case by (auto simp: uid_inv_def store_header_def)
qed (simp_all add: uid_inv_def store_header_def)

lemma uid_inv_reader:
  assumes "uid_inv c s" and "ipc_uid (m c) = ipc_uid (mem s c)"
    and "\<And>u. uid_of r = Some u \<Longrightarrow> sent s u \<noteq> None \<and> (confirmed r \<longrightarrow> ipc_uid (m c) = u)"
  shows "uid_inv c (s\<lparr>mem := m, readers := (readers s)(i := r)\<rparr>)"
  using assms by (simp add: uid_inv_def)

lemma uid_inv_readerD:
  assumes "uid_inv c s" and "uid_of (readers s i) = Some u"
  shows "sent s u \<noteq> None" "confirmed (readers s i) \<Longrightarrow> ipc_uid (mem s c) = u"
  using assms by (simp_all add: uid_inv_def)

lemma uid_inv_same_mem:
  assumes "uid_inv c s"
    and "\<And>u. uid_of r = Some u \<Longrightarrow> sent s u \<noteq> None \<and> (confirmed r \<longrightarrow> ipc_uid (mem s c) = u)"
  shows "uid_inv c (s\<lparr>readers := (readers s)(i := r)\<rparr>)"
  using assms by (simp add: uid_inv_def)

lemma reader_uid_inv:
  assumes "reader_step c i s t" and "uid_inv c s"
  shows "uid_inv c t"
  using assms
proof (induction rule: reader_step.induct)
  case (share s j u m)
  then have "sent s u \<noteq> None" "ipc_uid (mem s c) = u" using uid_inv_readerD [of c s j u] by simp_all
  with share show ?case by (intro uid_inv_reader) (simp_all add: acquire_uid)
next
  case (forward s u)
  then have "sent s u \<noteq> None" "ipc_uid (mem s c) = u" using uid_inv_readerD [of c s i u] by simp_all
  with forward show ?case by (intro uid_inv_reader) (simp_all add: store_header_def)
next
  case (lease s u m)
  then show ?case using uid_inv_readerD(1) [of c s i u] by (intro uid_inv_reader) (simp_all add: acquire_uid)
next
  case (confirm s u)
  then show ?case using uid_inv_readerD(1) [of c s i u] by (intro uid_inv_same_mem) simp_all
next
  case (forward_check s u)
  then show ?case using uid_inv_readerD(1) [of c s i u] by (intro uid_inv_same_mem) simp_all
next
  case (finish s)
  then show ?case by (intro uid_inv_reader) simp_all
next
  case (local_read s m)
  then show ?case by (intro uid_inv_reader) (simp_all add: acquire_uid)
qed (rule uid_inv_same_mem; simp)+

lemma publisher_content_inv:
  assumes "publisher_step c s t" and "uid_inv c s" and "content_inv s"
  shows "content_inv t"
  using assms
proof (induction rule: publisher_step.induct)
  case (clear_uid s u)
  then have "sent s u = None" unfolding uid_inv_def by blast
  then show ?case by (simp add: content_inv_def)
next
  case (begin_publish s)
  then show ?case by (auto simp: content_inv_def)
qed (simp_all add: content_inv_def)

lemma reader_content_inv: "reader_step c i s t \<Longrightarrow> content_inv s \<Longrightarrow> content_inv t"
  by (induction rule: reader_step.induct) (simp_all add: content_inv_def)

lemma protocol_step_inv:
  assumes "protocol_step c s t" and "protocol_inv c s"
  shows "protocol_inv c t"
  using assms
proof (induction rule: protocol_step.induct)
  case (publisher s t)
  then show ?case
    unfolding protocol_inv_def by (blast intro: publisher_lock_inv publisher_uid_inv publisher_content_inv)
next
  case (reader i s t)
  then show ?case unfolding protocol_inv_def by (blast intro: reader_lock_inv reader_uid_inv reader_content_inv)
next
  case (tick s t)
  then show ?case by (simp add: protocol_inv_def lock_inv_def uid_inv_def content_inv_def)
qed

lemma protocol_start_inv: "protocol_start c s \<Longrightarrow> protocol_inv c s"
  by (simp add: protocol_start_def protocol_inv_def lock_inv_def uid_inv_def content_inv_def leases_def reader_simps)

lemma protocol_reachable_inv: "protocol_reachable c s \<Longrightarrow> protocol_inv c s"
  by (induction rule: protocol_reachable.induct) (auto intro: protocol_start_inv protocol_step_inv)


section \<open>What a reader sees\<close>

lemma sealed_kept:
  assumes "protocol_step c s t" and "content_inv s" and "sent s u = Some (b, True)"
  shows "sent t u = Some (b, True)"
proof -
  have "sent t u = Some (b, True)" if "publisher_step c s t"
    using that assms(2,3) by (induction rule: publisher_step.induct) (auto simp: content_inv_def)
  moreover have "sent t = sent s" if "reader_step c i s t" for i
    using that by (induction rule: reader_step.induct) simp_all
  moreover have "sent t = sent s" if "t = s\<lparr>now := x\<rparr>" for x using that by simp
  ultimately show ?thesis using assms(1,3) by (metis protocol_step.simps)
qed

lemma protocol_run_inv: "rtranclp (protocol_step c) s t \<Longrightarrow> protocol_inv c s \<Longrightarrow> protocol_inv c t"
  by (induction rule: rtranclp_induct) (auto intro: protocol_step_inv)

lemma sealed_run:
  assumes "rtranclp (protocol_step c) s t" and "protocol_inv c s" and "sent s u = Some (b, True)"
  shows "sent t u = Some (b, True)"
  using assms
proof (induction rule: rtranclp_induct)
  case (step t t')
  then show ?case using protocol_run_inv [of c s t] sealed_kept [of c t t' u b] by (simp add: protocol_inv_def)
qed simp

lemma holding_reader:
  assumes "protocol_inv c s" and "readers s i = Holding u"
  shows "ipc_uid (mem s c) = u" "generation s = u" "sent s u \<noteq> None" "\<not> claiming (pub s)"
    "\<not> fst (try_claim_shared_buffer_reuse (Some c) (mem s))"
proof -
  have u: "uid_inv c s" and l: "lock_inv c s" using assms(1) by (simp_all add: protocol_inv_def)
  show i: "ipc_uid (mem s c) = u" and n: "sent s u \<noteq> None"
    using uid_inv_readerD [of c s i u] u assms(2) by simp_all
  from u n have "u \<noteq> 0" unfolding uid_inv_def by blast
  moreover have "ipc_uid (mem s c) \<in> {0, generation s}" using u unfolding uid_inv_def by blast
  ultimately show "generation s = u" using i by auto
  have "i \<in> leases s" using assms(2) by (simp add: in_leases)
  then show "\<not> claiming (pub s)" using l by (auto simp: lock_inv_def)
  have "card (leases s) \<noteq> 0" using \<open>i \<in> leases s\<close> l by (auto simp: lock_inv_def)
  with l have "lock_of c s \<noteq> Readers 0" by (auto simp: lock_inv_def split: if_splits)
  then show "\<not> fst (try_claim_shared_buffer_reuse (Some c) (mem s))" by (simp only: header.claim_iff not_False_eq_True)
qed



section \<open>A block can always be reused\<close>

definition time_inv :: "oid \<Rightarrow> protocol \<Rightarrow> bool" where
  "time_inv c s \<longleftrightarrow> publish_timestamp_us (mem s c) \<le> now s"

lemma time_inv_step: "protocol_step c s t \<Longrightarrow> time_inv c s \<Longrightarrow> time_inv c t"
proof (induction rule: protocol_step.induct)
  case (publisher s t)
  then show ?case
    by (induction rule: publisher_step.induct) (simp_all add: time_inv_def store_header_def claim_uid)
next
  case (reader i s t)
  then show ?case
    by (induction rule: reader_step.induct) (simp_all add: time_inv_def store_header_def acquire_uid)
next
  case (tick s t)
  then show ?case by (simp add: time_inv_def)
qed

lemma reachable_time_inv: "protocol_reachable c s \<Longrightarrow> time_inv c s"
proof (induction rule: protocol_reachable.induct)
  case (start s)
  then show ?case by (simp add: time_inv_def protocol_start_def)
qed (rule time_inv_step)

lemma reader_step_frame:
  assumes "reader_step c i s t"
  shows "pub t = pub s" "used_uids t = used_uids s" "now t = now s" "content t = content s"
    "generation t = generation s" "writing t = writing s"
  using assms by (induction rule: reader_step.induct) simp_all

text \<open>Every reader that holds a lease can finish, without help of anybody else.\<close>

lemma reader_finishes:
  assumes "i \<in> leases s"
  shows "\<exists>t. rtranclp (reader_step c i) s t \<and> leases t = leases s - {i}"
proof -
  have fin: "\<exists>t. rtranclp (reader_step c i) s t \<and> leases t = leases s - {i}"
    if "readers s i \<in> {Stale, Local_reader} \<or> (\<exists>u. readers s i = Holding u)" for s
    using reader_step.finish [OF that, of c] by (intro exI conjI r_into_rtranclp) (auto simp: leases_def split: if_splits)
  have via: "\<exists>t'. rtranclp (reader_step c i) s t' \<and> leases t' = leases s - {i}"
    if "reader_step c i s t" "\<forall>j. j \<noteq> i \<longrightarrow> readers t j = readers s j"
      "readers t i \<in> {Stale, Local_reader} \<or> (\<exists>u. readers t i = Holding u)" for t
  proof -
    have "leases t - {i} = leases s - {i}" using that(2) by (auto simp: leases_def)
    with that(1) fin [OF that(3)] show ?thesis by (metis converse_rtranclp_into_rtranclp)
  qed
  show ?thesis
  proof (cases "readers s i")
    case (Leased u)
    show ?thesis
    proof (cases "ipc_uid (mem s c) = u")
      case True
      from via [OF reader_step.confirm [OF Leased True]] show ?thesis by simp
    next
      case False
      from via [OF reader_step.mismatch [OF Leased False]] show ?thesis by simp
    qed
  next
    case (Forwarding u)
    from via [OF reader_step.forward [OF Forwarding]] show ?thesis by simp
  qed (use assms fin [of s] in \<open>auto simp: leases_def\<close>)
qed

lemma reader_run_frame:
  assumes "rtranclp (reader_step c i) s t"
  shows "pub t = pub s \<and> used_uids t = used_uids s \<and> now t = now s \<and> rtranclp (protocol_step c) s t"
  using assms
proof (induction rule: rtranclp_induct)
  case (step t t')
  then show ?case using reader_step_frame [OF step(2)] protocol_step.reader [OF step(2)]
    by (metis rtranclp.rtrancl_into_rtrancl)
qed simp

lemma all_readers_finish:
  assumes "finite (leases s)"
  shows "\<exists>t. rtranclp (protocol_step c) s t \<and> leases t = {} \<and> pub t = pub s \<and> used_uids t = used_uids s \<and> now t = now s"
  using assms
proof (induction "card (leases s)" arbitrary: s)
  case 0
  then show ?case by (intro exI [of _ s]) simp
next
  case (Suc n)
  then obtain i where "i \<in> leases s" by fastforce
  with reader_finishes obtain t where t: "rtranclp (reader_step c i) s t" "leases t = leases s - {i}" by blast
  with Suc \<open>i \<in> leases s\<close> have "n = card (leases t)" "finite (leases t)" by simp_all
  from Suc.hyps(1) [OF this] reader_run_frame [OF t(1)] show ?case by (metis rtranclp_trans)
qed

text \<open>What the publisher can reach while nobody holds a lease.\<close>

definition quiet_run :: "oid \<Rightarrow> protocol \<Rightarrow> protocol \<Rightarrow> bool" where
  "quiet_run c s t \<longleftrightarrow> rtranclp (protocol_step c) s t \<and> leases s = {} \<and> leases t = {} \<and> used_uids t = used_uids s"

lemma quiet_step: "protocol_step c s t \<Longrightarrow> leases s = {} \<Longrightarrow> leases t = {} \<Longrightarrow> used_uids t = used_uids s \<Longrightarrow> quiet_run c s t"
  by (auto simp: quiet_run_def)

lemma quiet_trans [trans]: "quiet_run c s t \<Longrightarrow> quiet_run c t t' \<Longrightarrow> quiet_run c s t'"
  by (auto simp: quiet_run_def)

lemma quiet_refl: "leases s = {} \<Longrightarrow> quiet_run c s s"
  by (simp add: quiet_run_def)

lemma quiet_leases: "quiet_run c s t \<Longrightarrow> leases t = {}"
  by (simp add: quiet_run_def)

lemmas quiet_publisher = quiet_step [OF protocol_step.publisher]

lemma owned_to_pool:
  assumes "owned (pub s)" and "leases s = {}"
  shows "\<exists>t. quiet_run c s t \<and> pub t = In_pool \<and> now t = now s"
proof -
  have home: "\<exists>t. quiet_run c s t \<and> pub t = In_pool \<and> now t = now s" if "pub s \<in> {Reserved, Announced}" "leases s = {}" for s
    using quiet_publisher [OF publisher_step.give_back [OF that(1)], of c] that(2) by auto
  show ?thesis
  proof (cases "pub s")
    case Publishing
    with quiet_publisher [OF publisher_step.abort_publish [of s c]] home [of "s\<lparr>pub := Reserved\<rparr>"] assms(2)
    show ?thesis by simp (metis quiet_trans)
  next
    case Uid_stored
    with quiet_publisher [OF publisher_step.store_time [of s c]] assms(2)
      home [of "s\<lparr>mem := store_header c (\<lambda>h. h\<lparr>publish_timestamp_us := now s\<rparr>) (mem s), pub := Announced\<rparr>"]
    show ?thesis by simp (metis quiet_trans)
  qed (use assms home in auto)
qed


lemma checked_to_claimed:
  assumes "pub s = Checked" and "leases s = {}" and "lock_inv c s"
  shows "\<exists>t. quiet_run c s t \<and> pub t = Claimed_block"
proof -
  have "lock_of c s = Readers 0" using assms by (simp add: lock_inv_def)
  then obtain m where "try_claim_shared_buffer_reuse (Some c) (mem s) = (True, m)"
    using header.claim_iff [of c "mem s"] by (metis prod.collapse)
  from quiet_publisher [OF publisher_step.claim [OF assms(1) this]] assms(2) show ?thesis by auto
qed

lemma in_pool_to_claimed:
  assumes "pub s = In_pool" and "leases s = {}" and "lock_inv c s" and "time_inv c s" and "unat (now s) + 100000 < 2 ^ 64"
  shows "\<exists>t. quiet_run c s t \<and> pub t = Claimed_block"
proof -
  define s1 where "s1 = s\<lparr>now := now s + 100000\<rparr>"
  have n: "unat (now s + 100000) = unat (now s) + 100000" using assms(5) by (simp add: unat_add_lem [THEN iffD1])
  then have "now s \<le> now s + 100000" by (simp add: word_le_nat_alt)
  then have "quiet_run c s s1" using assms(2) unfolding s1_def by (intro quiet_step protocol_step.tick) simp_all
  moreover have "reusable_at (now s1) (mem s1 c)"
    using n assms(4) by (simp add: s1_def reusable_at_nat time_inv_def word_le_nat_alt)
  then have "quiet_run c s1 (s1\<lparr>pub := Checked\<rparr>)"
    using assms(1,2) by (intro quiet_publisher publisher_step.check_grace) (simp_all add: s1_def)
  moreover have "\<exists>t. quiet_run c (s1\<lparr>pub := Checked\<rparr>) t \<and> pub t = Claimed_block"
    using assms(1-3) by (intro checked_to_claimed) (simp_all add: s1_def lock_inv_def)
  ultimately show ?thesis by (metis quiet_trans)
qed

lemma cleared_to_reserved:
  assumes "pub s \<in> {Uid_cleared, Time_cleared}" and "leases s = {}"
  shows "\<exists>t. quiet_run c s t \<and> pub t = Reserved \<and> generation t = generation s \<and> now t = now s"
proof -
  have *: "\<exists>t. quiet_run c s t \<and> pub t = Reserved \<and> generation t = generation s \<and> now t = now s"
    if "pub s = Time_cleared" "leases s = {}" for s
    using quiet_publisher [OF publisher_step.unclaim [OF that(1)], of c] that(2) by auto
  show ?thesis
  proof (cases "pub s = Time_cleared")
    case True
    with * assms(2) show ?thesis by blast
  next
    case False
    let ?t = "s\<lparr>mem := store_header c (\<lambda>h. h\<lparr>publish_timestamp_us := 0\<rparr>) (mem s), pub := Time_cleared\<rparr>"
    have "quiet_run c s ?t"
      using False assms by (intro quiet_publisher publisher_step.clear_time) simp_all
    moreover have "\<exists>t. quiet_run c ?t t \<and> pub t = Reserved \<and> generation t = generation ?t \<and> now t = now ?t"
      using assms(2) by (intro *) simp_all
    ultimately show ?thesis by simp (metis quiet_trans)
  qed
qed

lemma claimed_to_reserved:
  assumes "pub s = Claimed_block" and "leases s = {}" and "v \<noteq> 0" and "v \<notin> used_uids s"
  shows "\<exists>t. rtranclp (protocol_step c) s t \<and> pub t = Reserved \<and> generation t = v \<and> leases t = {}"
proof -
  let ?t = "s\<lparr>mem := store_header c (\<lambda>h. h\<lparr>ipc_uid := 0\<rparr>) (mem s), generation := v,
      used_uids := insert v (used_uids s), pub := Uid_cleared\<rparr>"
  have "protocol_step c s ?t" using assms by (intro protocol_step.publisher publisher_step.clear_uid)
  moreover obtain t where "quiet_run c ?t t" "pub t = Reserved" "generation t = v"
    using cleared_to_reserved [of ?t c] assms(2) by auto
  ultimately show ?thesis unfolding quiet_run_def by (metis converse_rtranclp_into_rtranclp)
qed

lemma quiet_to_claimed:
  assumes "leases s = {}" and "protocol_inv c s" and "time_inv c s" and "unat (now s) + 100000 < 2 ^ 64"
  shows "\<exists>t. quiet_run c s t \<and> pub t = Claimed_block"
proof -
  have kept: "lock_inv c t \<and> time_inv c t \<and> leases t = {}" if "quiet_run c s t" for t
  proof -
    have "rtranclp (protocol_step c) s t" using that by (simp add: quiet_run_def)
    then have "protocol_inv c t \<and> time_inv c t"
      by (induction rule: rtranclp_induct) (use assms(2,3) protocol_step_inv time_inv_step in blast)+
    then show ?thesis using quiet_leases [OF that] by (simp add: protocol_inv_def)
  qed
  have pool: "\<exists>t. quiet_run c s t \<and> pub t = Claimed_block" if "quiet_run c s t" "pub t = In_pool" "now t = now s" for t
    using in_pool_to_claimed [OF that(2)] kept [OF that(1)] assms(4) that(1,3) by (metis quiet_trans)
  have own: "\<exists>t. quiet_run c s t \<and> pub t = Claimed_block" if t: "quiet_run c s t" "owned (pub t)" "now t = now s" for t
    using owned_to_pool [OF that(2) quiet_leases [OF that(1)]] pool t(1,3) by (metis quiet_trans)
  show ?thesis
  proof (cases "pub s")
    case In_pool
    with pool quiet_refl [OF assms(1)] show ?thesis by blast
  next
    case Checked
    with checked_to_claimed assms show ?thesis by (simp add: protocol_inv_def)
  next
    case Claimed_block
    with quiet_refl [OF assms(1)] show ?thesis by blast
  next
    case Uid_cleared
    with cleared_to_reserved [OF _ assms(1)] own show ?thesis by (metis insertCI owned.simps(1))
  next
    case Time_cleared
    with cleared_to_reserved [OF _ assms(1)] own show ?thesis by (metis insertCI owned.simps(1))
  qed (use own [OF quiet_refl [OF assms(1)]] in simp_all)
qed

text \<open>
  C11: no block is ever lost.  From every reachable state, wherever publisher and readers are
  interrupted, there is a run in which the readers just finish and after which the publisher
  has reserved the block again, for any UID not used before, with no lease outstanding and no
  UID published.  (\<open>now + 100000\<close> must not overflow: the grace period has to pass.)
\<close>

theorem block_can_always_be_reused:
  assumes "protocol_reachable c s" and "v \<noteq> 0" and "v \<notin> used_uids s" and "unat (now s) + 100000 < 2 ^ 64"
  shows "\<exists>t. rtranclp (protocol_step c) s t \<and> pub t = Reserved \<and> generation t = v \<and>
    leases t = {} \<and> lock_of c t = Readers 0"
proof -
  have inv: "protocol_inv c s" by (rule protocol_reachable_inv [OF assms(1)])
  then have "finite (leases s)" by (simp add: protocol_inv_def lock_inv_def)
  then obtain s1 where s1: "rtranclp (protocol_step c) s s1" "leases s1 = {}" "used_uids s1 = used_uids s" "now s1 = now s"
    using all_readers_finish by blast
  have "time_inv c s1" using s1(1)
    by (induction rule: rtranclp_induct) (use reachable_time_inv [OF assms(1)] time_inv_step in blast)+
  with s1 assms(4) protocol_run_inv [OF s1(1) inv] obtain s2 where s2: "quiet_run c s1 s2" "pub s2 = Claimed_block"
    using quiet_to_claimed by metis
  then obtain t where t: "rtranclp (protocol_step c) s2 t" "pub t = Reserved" "generation t = v" "leases t = {}"
    using claimed_to_reserved [OF s2(2) quiet_leases [OF s2(1)] assms(2)] assms(3) s1(3) by (metis quiet_run_def)
  have run: "rtranclp (protocol_step c) s t"
    using s1(1) s2(1) t(1) unfolding quiet_run_def by (metis rtranclp_trans)
  with t protocol_run_inv [OF run inv] show ?thesis by (auto simp: protocol_inv_def lock_inv_def)
qed


section \<open>Two races\<close>

text \<open>An uninterrupted publication followed by an uninterrupted reception.\<close>

definition announced :: "oid \<Rightarrow> protocol \<Rightarrow> protocol" where
  "announced c s =
     s\<lparr>mem := (mem s)(c := (mem s c)\<lparr>ipc_uid := generation s, publish_timestamp_us := now s, reader_state := 1\<rparr>),
       writing := (if writing s = InUse then Finalized else writing s), pub := Announced,
       sent := (sent s)(generation s \<mapsto> (content s, writing s \<noteq> Unset)),
       readers := (readers s)(0 := Holding (generation s))\<rparr>"

lemma acquire_idle:
  assumes "reader_state (m c) = 0"
  shows "try_acquire_shared_buffer_reader (Some c) m = (True, m(c := (m c)\<lparr>reader_state := 1\<rparr>))"
  using assms by (simp add: try_acquire_shared_buffer_reader_def acquire_refused_iff)

lemma announced_run:
  assumes "pub s = Reserved" and "readers s 0 = Absent" and "reader_state (mem s c) = 0"
  shows "rtranclp (protocol_step c) s (announced c s)"
proof -
  define s1 where "s1 = s\<lparr>writing := (if writing s = InUse then Finalized else writing s), pub := Publishing\<rparr>"
  define s2 where "s2 = s1\<lparr>mem := store_header c (\<lambda>h. h\<lparr>ipc_uid := generation s1\<rparr>) (mem s1),
      sent := (sent s1)(generation s1 \<mapsto> (content s1, writing s1 = Finalized)), pub := Uid_stored\<rparr>"
  define s3 where "s3 = s2\<lparr>mem := store_header c (\<lambda>h. h\<lparr>publish_timestamp_us := now s2\<rparr>) (mem s2), pub := Announced\<rparr>"
  define s4 where "s4 = s3\<lparr>readers := (readers s3)(0 := Validated (generation s))\<rparr>"
  define s5 where "s5 = s4\<lparr>mem := (mem s4)(c := (mem s4 c)\<lparr>reader_state := 1\<rparr>), readers := (readers s4)(0 := Leased (generation s))\<rparr>"
  define s6 where "s6 = s5\<lparr>readers := (readers s5)(0 := Holding (generation s))\<rparr>"
  have p1: "protocol_step c s s1" unfolding s1_def
    by (intro protocol_step.publisher publisher_step.begin_publish) (simp add: assms)
  have p2: "protocol_step c s1 s2" unfolding s2_def
    by (intro protocol_step.publisher publisher_step.store_uid) (simp add: s1_def)
  have p3: "protocol_step c s2 s3" unfolding s3_def
    by (intro protocol_step.publisher publisher_step.store_time) (simp add: s2_def)
  have p4: "protocol_step c s3 s4" unfolding s4_def
    by (intro protocol_step.reader [where i = 0] reader_step.validate) (simp_all add: s1_def s2_def s3_def store_header_def assms)
  have "reader_step c 0 s4 s5" unfolding s5_def
    by (intro reader_step.lease acquire_idle) (simp_all add: s1_def s2_def s3_def s4_def store_header_def assms)
  then have p5: "protocol_step c s4 s5" by (rule protocol_step.reader)
  have p6: "protocol_step c s5 s6" unfolding s6_def
    by (intro protocol_step.reader [where i = 0] reader_step.confirm)
      (simp_all add: s1_def s2_def s3_def s4_def s5_def store_header_def assms)
  have "s6 = announced c s"
    by (cases "writing s") (simp_all add: s1_def s2_def s3_def s4_def s5_def s6_def announced_def store_header_def)
  moreover note rtranclp.rtrancl_refl [of "protocol_step c" s, THEN rtranclp.rtrancl_into_rtrancl, OF p1,
      THEN rtranclp.rtrancl_into_rtrancl, OF p2, THEN rtranclp.rtrancl_into_rtrancl, OF p3,
      THEN rtranclp.rtrancl_into_rtrancl, OF p4, THEN rtranclp.rtrancl_into_rtrancl, OF p5,
      THEN rtranclp.rtrancl_into_rtrancl, OF p6]
  ultimately show ?thesis by simp
qed

lemma run_reachable:
  assumes "rtranclp (protocol_step c) s t" and "protocol_reachable c s"
  shows "protocol_reachable c t"
  using assms by (induction rule: rtranclp_induct) (auto intro: protocol_reachable.step)

definition sample_start :: protocol where
  "sample_start = \<lparr>mem = (\<lambda>_. default_control_header), content = [7], now = 1, generation = 1, pub = Reserved,
     writing = Unset, readers = (\<lambda>_. Absent), sent = (\<lambda>_. None), used_uids = {1}\<rparr>"

lemma sample_start_reachable: "protocol_reachable c sample_start"
  by (rule protocol_reachable.start) (simp add: protocol_start_def sample_start_def default_control_header_def)

lemma sample_announced_reachable: "protocol_reachable c (announced c sample_start)"
  by (rule run_reachable [OF announced_run sample_start_reachable])
    (simp_all add: sample_start_def default_control_header_def)

text \<open>The publisher begins to write and writes \<open>[8]\<close>; publication then ends the writing.\<close>

definition sample_written :: protocol where
  "sample_written = sample_start\<lparr>writing := InUse, content := [8]\<rparr>"

lemma sample_written_reachable: "protocol_reachable c sample_written"
proof -
  let ?s = "sample_start\<lparr>writing := InUse\<rparr>"
  have "publisher_step c sample_start ?s" by (rule publisher_step.begin_write) (simp_all add: sample_start_def)
  moreover have "publisher_step c ?s (?s\<lparr>content := [8]\<rparr>)"
    by (rule publisher_step.write_payload) (simp_all add: sample_start_def)
  ultimately show ?thesis
    unfolding sample_written_def by (metis sample_start_reachable protocol_reachable.step protocol_step.publisher)
qed


text \<open>
  The grace period can be skipped.  \<^verbatim>\<open>try_claim_block\<close> reads the timestamp first and claims
  later; in between a relay may refresh the timestamp for a descriptor it forwards and give its
  lease back.  The publisher then claims the block although the last publication is not even
  one microsecond old, so the forwarded descriptor is stale when it arrives.
\<close>

theorem grace_period_can_be_skipped:
  "\<exists>s t. protocol_reachable c s \<and> publisher_step c s t \<and> pub s = Checked \<and> pub t = Claimed_block \<and>
     publish_timestamp_us (mem s c) = now s \<and> \<not> reusable_at (now s) (mem s c)"
proof -
  define s0 where "s0 = announced c sample_start"
  define s1 where "s1 = s0\<lparr>pub := In_pool\<rparr>"
  define s2 where "s2 = s1\<lparr>now := 200000\<rparr>"
  define s3 where "s3 = s2\<lparr>pub := Checked\<rparr>"
  define s4 where "s4 = s3\<lparr>readers := (readers s3)(0 := Forwarding 1)\<rparr>"
  define s5 where "s5 = s4\<lparr>mem := store_header c (\<lambda>h. h\<lparr>publish_timestamp_us := now s4\<rparr>) (mem s4), readers := (readers s4)(0 := Holding 1)\<rparr>"
  define s6 where "s6 = s5\<lparr>mem := release_shared_buffer_reader (Some c) (mem s5), readers := (readers s5)(0 := Absent)\<rparr>"
  note defs = s0_def s1_def s2_def s3_def s4_def s5_def s6_def announced_def sample_start_def store_header_def
  have p1: "protocol_step c s0 s1" unfolding s1_def
    by (intro protocol_step.publisher publisher_step.give_back) (simp add: defs)
  have p2: "protocol_step c s1 s2" unfolding s2_def by (rule protocol_step.tick) (simp add: defs)
  have p3: "protocol_step c s2 s3" unfolding s3_def
    by (intro protocol_step.publisher publisher_step.check_grace) (simp_all add: defs reusable_at_nat)
  have p4: "protocol_step c s3 s4" unfolding s4_def
    by (intro protocol_step.reader [where i = 0] reader_step.forward_check) (simp_all add: defs)
  have p5: "protocol_step c s4 s5" unfolding s5_def
    by (intro protocol_step.reader [where i = 0] reader_step.forward) (simp_all add: defs)
  have p6: "protocol_step c s5 s6" unfolding s6_def
    by (intro protocol_step.reader [where i = 0] reader_step.finish) (simp add: defs)
  have "protocol_reachable c s0" unfolding s0_def by (rule sample_announced_reachable)
  from protocol_reachable.step [OF protocol_reachable.step [OF protocol_reachable.step [OF protocol_reachable.step
      [OF protocol_reachable.step [OF protocol_reachable.step [OF this p1] p2] p3] p4] p5] p6]
  have "protocol_reachable c s6" .
  moreover have facts: "pub s6 = Checked" "reader_state (mem s6 c) = 0" "publish_timestamp_us (mem s6 c) = now s6"
      "now s6 = 200000"
    by (simp_all add: defs release_shared_buffer_reader_def)
  moreover obtain m where "try_claim_shared_buffer_reuse (Some c) (mem s6) = (True, m)"
    using facts(2) by (simp add: try_claim_shared_buffer_reuse_def)
  from publisher_step.claim [OF facts(1) this]
  have "publisher_step c s6 (s6\<lparr>mem := m, pub := Claimed_block\<rparr>)" .
  moreover have "\<not> reusable_at (now s6) (mem s6 c)" using facts(3,4) by (simp add: reusable_at_nat)
  ultimately show ?thesis by force
qed

section \<open>Witnesses\<close>


theorem block_can_always_be_reused_witness:
  "\<exists>t. rtranclp (protocol_step 0) (announced 0 sample_start) t \<and> pub t = Reserved \<and> generation t = 2"
  using block_can_always_be_reused [OF sample_announced_reachable, of 2 0]
  by (auto simp: announced_def sample_start_def)

end
