(* ===== verification/Protocol_Code.thy ===== *)
theory Protocol_Code
  imports Protocol
begin

text \<open>
  The operations of \<open>Pool\<close> and \<open>Backend\<close>, which run without interruption, are runs of the protocol:
  from a protocol state with the same headers, the publisher's or the reader's steps lead to a
  state with the headers the operation leaves behind.  So what \<open>Protocol\<close> shows for all
  interleavings holds for the code's operations.
\<close>

section \<open>Reuse of a block\<close>

lemma create_block_index: "create_block create sz p k = (Inr j, p', k') \<Longrightarrow> j = length (all_blocks p)"
  by (auto simp: create_block_def Let_def draw_uid_def split: if_splits sum.splits prod.splits)

lemma allocate_reuse_headers:
  assumes inv: "pool_inv p k" and al: "allocate create sz p k = (Inr i, p', k')" and old: "i < length (all_blocks p)"
  shows "\<exists>c n. control (all_blocks p' ! i) = Some c \<and> reader_state (hdr k c) = 0 \<and> reusable_at (clock k n) (hdr k c) \<and>
    hdr k' = (hdr k)(c := (hdr k c)\<lparr>ipc_uid := 0, publish_timestamp_us := 0, reader_state := 0\<rparr>) \<and>
    current_uid (all_blocks p' ! i) \<noteq> 0"
proof -
  define cs where "cs = bucket p sz"
  have fo: "free_ok {} p" using inv by (simp add: pool_inv_def pool_inv_except_def)
  have sz: "sz \<noteq> 0" using al by (auto simp: allocate_def split: if_splits)
  have csb: "b < length (all_blocks p)" if "b \<in> set cs" for b
    using that free_ok_bucket [OF fo] by (simp add: cs_def)
  then have ctl: "\<forall>b \<in> set cs. \<exists>c. control (all_blocks p ! b) = Some c"
    using pool_inv_block [OF inv] block_ok_control by blast
  obtain found k1 where f: "claim_candidate p cs 0 k = (found, k1)" by (cases "claim_candidate p cs 0 k")
  obtain j where j: "found = Some j"
  proof (cases found)
    case None
    with f sz al cs_def obtain p1 k2 where "create_block create sz p k1 = (Inr i, p1, k2)"
      by (auto simp: allocate_def Let_def split: sum.splits prod.splits)
    from create_block_index [OF this] old show ?thesis by simp
  qed
  obtain p2 k2 where r: "reserve_block (cs ! j) (take_candidate sz cs j p) k1 = (p2, k2)"
    by (cases "reserve_block (cs ! j) (take_candidate sz cs j p) k1")
  from allocate_claimed [OF sz f [unfolded j cs_def] r [unfolded cs_def], of create] al
  have res: "i = cs ! j" "p' = p2" "k' = k2" by (simp_all add: cs_def)
  from claim_candidate_Some [OF f [unfolded j] ctl] obtain c n m where c: "control (all_blocks p ! (cs ! j)) = Some c"
      "reader_state (hdr k c) = 0" "reusable_at (clock k n) (hdr k c)" "j < length cs"
      "k1 = (passed_time m k)\<lparr>hdr := claim_header c (hdr k)\<rparr>" by auto
  let ?p = "take_candidate sz cs j p"
  have i: "cs ! j < length (all_blocks ?p)" "control (all_blocks ?p ! (cs ! j)) = Some c"
    using csb c(1,4) by simp_all
  note rb = reserve_block_eq [OF i, of k1]
  with r res have "hdr k' = (hdr k1)(c := (hdr k1 c)\<lparr>ipc_uid := 0, publish_timestamp_us := 0, reader_state := 0\<rparr>)"
    by auto
  moreover have "control (all_blocks p' ! i) = Some c \<and> current_uid (all_blocks p' ! i) \<noteq> 0"
    using r res rb i by auto
  ultimately show ?thesis using c by (auto simp: claim_header_def)
qed

text \<open>The publisher's five steps of a reuse, run in one go.\<close>

lemma reuse_run:
  assumes "pub s = In_pool" and "now s \<le> t" and "reusable_at t (mem s c)" and "reader_state (mem s c) = 0"
    and "u \<noteq> 0" and "u \<notin> used_uids s"
  shows "rtranclp (protocol_step c) s
    (s\<lparr>mem := (mem s)(c := (mem s c)\<lparr>ipc_uid := 0, publish_timestamp_us := 0, reader_state := 0\<rparr>), now := t, generation := u,
       pub := Reserved, writing := Unset, used_uids := insert u (used_uids s)\<rparr>)"
proof -
  define s1 where "s1 = s\<lparr>now := t\<rparr>"
  define s2 where "s2 = s1\<lparr>pub := Checked\<rparr>"
  define s3 where "s3 = s2\<lparr>mem := claim_header c (mem s2), pub := Claimed_block\<rparr>"
  define s4 where "s4 = s3\<lparr>mem := store_header c (\<lambda>h. h\<lparr>ipc_uid := 0\<rparr>) (mem s3), generation := u,
      used_uids := insert u (used_uids s3), pub := Uid_cleared\<rparr>"
  define s5 where "s5 = s4\<lparr>mem := store_header c (\<lambda>h. h\<lparr>publish_timestamp_us := 0\<rparr>) (mem s4), pub := Time_cleared\<rparr>"
  define s6 where "s6 = s5\<lparr>mem := release_shared_buffer_reuse_claim (Some c) (mem s5), writing := Unset, pub := Reserved\<rparr>"
  have p1: "protocol_step c s s1" unfolding s1_def by (rule protocol_step.tick) (rule assms)
  have p2: "protocol_step c s1 s2" unfolding s2_def
    by (intro protocol_step.publisher publisher_step.check_grace) (simp_all add: s1_def assms)
  have p3: "protocol_step c s2 s3" unfolding s3_def
    by (intro protocol_step.publisher publisher_step.claim)
      (simp_all add: s1_def s2_def assms try_claim_shared_buffer_reuse_def claim_header_def)
  have p4: "protocol_step c s3 s4" unfolding s4_def
    by (intro protocol_step.publisher publisher_step.clear_uid) (simp_all add: s1_def s2_def s3_def assms)
  have p5: "protocol_step c s4 s5" unfolding s5_def
    by (intro protocol_step.publisher publisher_step.clear_time) (simp add: s4_def)
  have p6: "protocol_step c s5 s6" unfolding s6_def
    by (intro protocol_step.publisher publisher_step.unclaim) (simp add: s5_def)
  have "s6 = s\<lparr>mem := (mem s)(c := (mem s c)\<lparr>ipc_uid := 0, publish_timestamp_us := 0, reader_state := 0\<rparr>), now := t,
      generation := u, pub := Reserved, writing := Unset, used_uids := insert u (used_uids s)\<rparr>"
    by (simp add: s1_def s2_def s3_def s4_def s5_def s6_def store_header_def claim_header_def
        release_shared_buffer_reuse_claim_def)
  moreover note rtranclp.rtrancl_refl [of "protocol_step c" s, THEN rtranclp.rtrancl_into_rtrancl, OF p1,
      THEN rtranclp.rtrancl_into_rtrancl, OF p2, THEN rtranclp.rtrancl_into_rtrancl, OF p3,
      THEN rtranclp.rtrancl_into_rtrancl, OF p4, THEN rtranclp.rtrancl_into_rtrancl, OF p5,
      THEN rtranclp.rtrancl_into_rtrancl, OF p6]
  ultimately show ?thesis by simp
qed

section \<open>Publication\<close>

definition access_of :: "SharedBuffer \<Rightarrow> 'b world \<Rightarrow> handle_access" where
  "access_of sb w = (case handle_state sb of None \<Rightarrow> Unset | Some t \<Rightarrow> access (states w t))"

lemma publish_run:
  assumes "pub s \<in> {Reserved, Announced}" and "now s \<le> t"
  shows "rtranclp (protocol_step c) s
    (s\<lparr>mem := (mem s)(c := published (generation s) t (mem s c)), now := t, pub := Announced,
       writing := (if writing s = InUse then Finalized else writing s),
       sent := (sent s)(generation s \<mapsto> (content s, writing s \<noteq> Unset))\<rparr>)"
proof -
  define s1 where "s1 = s\<lparr>writing := (if writing s = InUse then Finalized else writing s), pub := Publishing\<rparr>"
  define s2 where "s2 = s1\<lparr>mem := store_header c (\<lambda>h. h\<lparr>ipc_uid := generation s1\<rparr>) (mem s1),
      sent := (sent s1)(generation s1 \<mapsto> (content s1, writing s1 = Finalized)), pub := Uid_stored\<rparr>"
  define s3 where "s3 = s2\<lparr>now := t\<rparr>"
  define s4 where "s4 = s3\<lparr>mem := store_header c (\<lambda>h. h\<lparr>publish_timestamp_us := now s3\<rparr>) (mem s3), pub := Announced\<rparr>"
  have p1: "protocol_step c s s1" unfolding s1_def
    by (intro protocol_step.publisher publisher_step.begin_publish) (rule assms)
  have p2: "protocol_step c s1 s2" unfolding s2_def
    by (intro protocol_step.publisher publisher_step.store_uid) (simp add: s1_def)
  have p3: "protocol_step c s2 s3" unfolding s3_def
    by (rule protocol_step.tick) (simp add: s1_def s2_def assms)
  have p4: "protocol_step c s3 s4" unfolding s4_def
    by (intro protocol_step.publisher publisher_step.store_time) (simp add: s2_def s3_def)
  have "s4 = s\<lparr>mem := (mem s)(c := published (generation s) t (mem s c)), now := t, pub := Announced,
       writing := (if writing s = InUse then Finalized else writing s),
       sent := (sent s)(generation s \<mapsto> (content s, writing s \<noteq> Unset))\<rparr>"
    by (cases "writing s") (simp_all add: s1_def s2_def s3_def s4_def store_header_def published_def)
  moreover note rtranclp.rtrancl_refl [of "protocol_step c" s, THEN rtranclp.rtrancl_into_rtrancl, OF p1,
      THEN rtranclp.rtrancl_into_rtrancl, OF p2, THEN rtranclp.rtrancl_into_rtrancl, OF p3,
      THEN rtranclp.rtrancl_into_rtrancl, OF p4]
  ultimately show ?thesis by simp
qed

section \<open>Reception\<close>

lemma receive_run:
  assumes "readers s i = Absent" and "sent s u \<noteq> None" and "ipc_uid (mem s c) = u"
    and "\<not> acquire_refused (reader_state (mem s c))"
  shows "rtranclp (reader_step c i) s
    (s\<lparr>mem := one_more_reader c (mem s), readers := (readers s)(i := Holding u)\<rparr>)"
proof -
  define s1 where "s1 = s\<lparr>readers := (readers s)(i := Validated u)\<rparr>"
  define s2 where "s2 = s1\<lparr>mem := one_more_reader c (mem s1), readers := (readers s1)(i := Leased u)\<rparr>"
  define s3 where "s3 = s2\<lparr>readers := (readers s2)(i := Holding u)\<rparr>"
  have p1: "reader_step c i s s1" unfolding s1_def by (rule reader_step.validate) (rule assms)+
  have p2: "reader_step c i s1 s2" unfolding s2_def
    by (rule reader_step.lease)
      (simp_all add: s1_def assms try_acquire_shared_buffer_reader_def one_more_reader_def Let_def)
  have p3: "reader_step c i s2 s3" unfolding s3_def
    by (rule reader_step.confirm) (simp_all add: s1_def s2_def assms one_more_reader_def)
  have "s3 = s\<lparr>mem := one_more_reader c (mem s), readers := (readers s)(i := Holding u)\<rparr>"
    by (simp add: s1_def s2_def s3_def)
  moreover note rtranclp.rtrancl_refl [of "reader_step c i" s, THEN rtranclp.rtrancl_into_rtrancl, OF p1,
      THEN rtranclp.rtrancl_into_rtrancl, OF p2, THEN rtranclp.rtrancl_into_rtrancl, OF p3]
  ultimately show ?thesis by simp
qed


section \<open>Properties\<close>





section \<open>Witnesses\<close>

text \<open>The sample block of \<open>Pool_Run\<close>, given back and allocated again.\<close>

definition sample_idle_state :: protocol where
  "sample_idle_state = \<lparr>mem = hdr sample_kernel1, content = [0, 0, 0, 0], now = 0, generation = 41, pub = In_pool,
     writing = Unset, readers = (\<lambda>_. Absent), sent = (\<lambda>_. None), used_uids = {}\<rparr>"


definition sample_sent_state :: protocol where
  "sample_sent_state = \<lparr>mem = hdr published_kernel, content = [0, 0, 0, 0], now = 0, generation = 42, pub = Announced,
     writing = Unset, readers = (\<lambda>_. Absent), sent = [42 \<mapsto> ([0, 0, 0, 0], False)], used_uids = {42}\<rparr>"


definition sample_reserved_state :: protocol where
  "sample_reserved_state = \<lparr>mem = hdr sample_kernel1, content = payload sample_buffer sample_world, now = 0,
     generation = current_uid (all_blocks sample_pool1 ! 0), pub = Reserved,
     writing = Unset, readers = (\<lambda>_. Absent), sent = (\<lambda>_. None), used_uids = {}\<rparr>"


end
