(* ===== verification/Python_Binding.thy ===== *)
theory Python_Binding
  imports Backend_Correct
begin

text \<open>
  The Python extension, \<^verbatim>\<open>shared_buffer_py.cpp\<close>: allocation of buffers, read and write access through
  the buffer protocol, and the export count that keeps a write access from being closed under a
  live view.

  A Python object is a number.  \<^verbatim>\<open>rosidl::Buffer\<close> objects live in a heap by address.  The helpers
  \<^verbatim>\<open>_get_buffer_ptr\<close> and \<^verbatim>\<open>_take_buffer_from_ptr\<close> of the module \<^verbatim>\<open>rosidl_buffer\<close> and pybind11's own
  \<^verbatim>\<open>bf_getbuffer\<close> are parameters.  Of pybind11 the code relies on: \<^verbatim>\<open>bf_getbuffer\<close> fails when the
  object's \<^verbatim>\<open>buffer_info\<close> throws.  \<^verbatim>\<open>std::overflow_error\<close> is \<open>Overflow_error\<close>, \<^verbatim>\<open>py::value_error\<close> and
  \<^verbatim>\<open>py::buffer_error\<close> are the \<open>Py_\<close> constructors.
\<close>

section \<open>Buffers owned by Python\<close>

record py_env =
  buffer_ptr_of :: "nat \<Rightarrow> cpp_error + u64"     \<comment> \<open>\<^verbatim>\<open>_get_buffer_ptr\<close>\<close>
  take_result :: "cpp_error + nat"               \<comment> \<open>\<^verbatim>\<open>_take_buffer_from_ptr\<close>: the new Python object\<close>
  new_address :: u64                             \<comment> \<open>where \<^verbatim>\<open>make_unique\<close> puts the buffer\<close>

record 'b py_state =
  proc :: "'b world"
  heap :: "u64 \<Rightarrow> rosidl_buffer"

text \<open>\<^verbatim>\<open>numeric_limits<Py_ssize_t>::max()\<close>.\<close>

definition Py_ssize_t_max :: u64 where
  "Py_ssize_t_max = 0x7FFFFFFFFFFFFFFF"

definition get_buffer_ptr :: "py_env \<Rightarrow> nat \<Rightarrow> cpp_error + u64" where
  "get_buffer_ptr env obj =
     (case buffer_ptr_of env obj of
        Inl e \<Rightarrow> Inl e
      | Inr address \<Rightarrow>
          (if address = 0 then Inl (Invalid_argument ''rosidl buffer pointer must not be null'') else Inr address))"

definition destroy_rosidl_buffer :: "rosidl_buffer \<Rightarrow> 'b world \<Rightarrow> 'b world" where
  "destroy_rosidl_buffer b w = (case b of Shared_impl im \<Rightarrow> destroy_impl im w | _ \<Rightarrow> w)"

text \<open>If the helper throws, the \<^verbatim>\<open>unique_ptr\<close> still owns the buffer and destroys it.\<close>

definition take_buffer_from_ptr :: "py_env \<Rightarrow> u64 \<Rightarrow> 'b py_state \<Rightarrow> (cpp_error + nat) \<times> 'b py_state" where
  "take_buffer_from_ptr env buffer_ptr s =
     (case take_result env of
        Inr object \<Rightarrow> (Inr object, s)
      | Inl e \<Rightarrow>
          (Inl e, s\<lparr>proc := destroy_rosidl_buffer (heap s buffer_ptr) (proc s),
                    heap := (heap s)(buffer_ptr := Null_impl)\<rparr>))"

definition allocate_buffer_internal ::
  "create_mapping \<Rightarrow> py_env \<Rightarrow> u64 \<Rightarrow> 'b py_state \<Rightarrow> (cpp_error + nat) \<times> 'b py_state" where
  "allocate_buffer_internal create env bytes s =
     (if bytes = 0 then (Inl (Py_value_error ''byte_count must be greater than zero''), s)
      else if bytes > Py_ssize_t_max
      then (Inl (Overflow_error ''byte_count exceeds Python buffer protocol limits''), s)
      else
        (case allocate_buffer create bytes (proc s) of
           (Inl e, w) \<Rightarrow> (Inl e, s\<lparr>proc := w\<rparr>)
         | (Inr b, w) \<Rightarrow>
             take_buffer_from_ptr env (new_address env) (s\<lparr>proc := w, heap := (heap s)(new_address env := b)\<rparr>)))"

section \<open>Access objects\<close>

record buffer_info =
  info_ptr :: u64
  info_count :: u64
  info_readonly :: bool

record NativeReadAccess =
  ra_owner :: nat
  ra_buffer :: u64
  ra_handle :: ReadHandle
  ra_byte_count :: u64

record NativeWriteAccess =
  wa_owner :: "nat option"        \<comment> \<open>\<open>None\<close> is \<^verbatim>\<open>py::none()\<close>\<close>
  wa_buffer :: u64
  wa_handle :: WriteHandle
  wa_byte_count :: u64
  wa_exports :: u64
  wa_closed :: bool

definition new_read_access ::
  "create_mapping \<Rightarrow> py_env \<Rightarrow> nat \<Rightarrow> 'b py_state \<Rightarrow> (cpp_error + NativeReadAccess) \<times> 'b py_state" where
  "new_read_access create env obj s =
     (case get_buffer_ptr env obj of
        Inl e \<Rightarrow> (Inl e, s)
      | Inr a \<Rightarrow>
          (let cnt = rosidl_size (heap s a) in
           if cnt > Py_ssize_t_max
           then (Inl (Overflow_error ''buffer size exceeds Python buffer protocol limits''), s)
           else
             (let (r, b, w) = from_input_buffer create 1 (heap s a) (proc s);
                  s1 = s\<lparr>proc := w, heap := (heap s)(a := b)\<rparr>
              in case r of
                   Inl e \<Rightarrow> (Inl e, s1)
                 | Inr rd \<Rightarrow> (Inr \<lparr>ra_owner = obj, ra_buffer = a, ra_handle = rd, ra_byte_count = cnt\<rparr>, s1))))"

definition read_buffer_info :: "NativeReadAccess \<Rightarrow> buffer_info" where
  "read_buffer_info ra = \<lparr>info_ptr = read_ptr (ra_handle ra), info_count = ra_byte_count ra, info_readonly = True\<rparr>"

definition new_write_access ::
  "py_env \<Rightarrow> nat \<Rightarrow> 'b py_state \<Rightarrow> (cpp_error + NativeWriteAccess) \<times> 'b py_state" where
  "new_write_access env obj s =
     (case get_buffer_ptr env obj of
        Inl e \<Rightarrow> (Inl e, s)
      | Inr a \<Rightarrow>
          (let cnt = rosidl_size (heap s a) in
           if cnt > Py_ssize_t_max
           then (Inl (Overflow_error ''buffer size exceeds Python buffer protocol limits''), s)
           else
             (let (r, b, w) = from_output_buffer (heap s a) (proc s);
                  s1 = s\<lparr>proc := w, heap := (heap s)(a := b)\<rparr>
              in case r of
                   Inl e \<Rightarrow> (Inl e, s1)
                 | Inr wr \<Rightarrow>
                     (Inr \<lparr>wa_owner = Some obj, wa_buffer = a, wa_handle = wr, wa_byte_count = cnt,
                           wa_exports = 0, wa_closed = False\<rparr>, s1))))"

definition write_buffer_info :: "NativeWriteAccess \<Rightarrow> cpp_error + buffer_info" where
  "write_buffer_info wa =
     (if wa_closed wa then Inl (Py_buffer_error ''write access is closed'')
      else Inr \<lparr>info_ptr = write_ptr (wa_handle wa), info_count = wa_byte_count wa, info_readonly = False\<rparr>)"

definition empty_write_handle :: WriteHandle where
  "empty_write_handle = \<lparr>write_ptr = 0, write_state = None, write_owner = None, write_promoted = None\<rparr>"

text \<open>\<^verbatim>\<open>handle_ = WriteHandle()\<close> finalises the write, as the destructor would.\<close>

definition close_access :: "NativeWriteAccess \<Rightarrow> 'b world \<Rightarrow> (cpp_error + unit) \<times> NativeWriteAccess \<times> 'b world" where
  "close_access wa w =
     (if wa_exports wa \<noteq> 0
      then (Inl (Py_buffer_error ''cannot close write access while exported views are alive''), wa, w)
      else if \<not> wa_closed wa
      then (let (h, temporary, w1) = move_assign_write_handle False (wa_handle wa) empty_write_handle w
            in (Inr (), wa\<lparr>wa_handle := h, wa_owner := None, wa_buffer := 0, wa_closed := True\<rparr>,
                snd (release_write_handle temporary w1)))
      else (Inr (), wa, w))"

definition add_export :: "NativeWriteAccess \<Rightarrow> NativeWriteAccess" where
  "add_export wa = wa\<lparr>wa_exports := wa_exports wa + 1\<rparr>"

definition remove_export :: "NativeWriteAccess \<Rightarrow> NativeWriteAccess" where
  "remove_export wa = (if wa_exports wa \<noteq> 0 then wa\<lparr>wa_exports := wa_exports wa - 1\<rparr> else wa)"

section \<open>The buffer protocol\<close>

text \<open>
  \<^verbatim>\<open>WriteBufferCallbacks\<close>.  \<open>original\<close> is pybind11's \<^verbatim>\<open>bf_getbuffer\<close>: its return code for what
  \<^verbatim>\<open>buffer_info\<close> returned or threw.  \<open>cast_ok\<close>: whether \<^verbatim>\<open>py::cast\<close> succeeds.
\<close>

definition getbuffer ::
  "(cpp_error + buffer_info \<Rightarrow> int) \<Rightarrow> bool \<Rightarrow> NativeWriteAccess \<Rightarrow> int \<times> NativeWriteAccess" where
  "getbuffer original cast_ok wa =
     (let result = original (write_buffer_info wa) in
      if result = 0
      then (if cast_ok then (result, add_export wa) else (- 1, wa))
      else (result, wa))"

definition releasebuffer :: "bool \<Rightarrow> NativeWriteAccess \<Rightarrow> NativeWriteAccess" where
  "releasebuffer cast_ok wa = (if cast_ok then remove_export wa else wa)"

text \<open>
  \<^verbatim>\<open>install_tracked_write_buffer_callbacks\<close>: the type's buffer slots, and the originals the
  callbacks will call.
\<close>

record ('g, 'r) buffer_procs =
  bf_getbuffer :: "'g option"
  bf_releasebuffer :: "'r option"

definition install_tracked_write_buffer_callbacks ::
  "'g \<Rightarrow> 'r \<Rightarrow> ('g, 'r) buffer_procs option \<Rightarrow> cpp_error + ('g \<times> 'r) \<times> ('g, 'r) buffer_procs" where
  "install_tracked_write_buffer_callbacks tracked_get tracked_release tp_as_buffer =
     (case tp_as_buffer of
        None \<Rightarrow> Inl (Runtime_error ''pybind11 did not install buffer protocol callbacks'')
      | Some procs \<Rightarrow>
          (case (bf_getbuffer procs, bf_releasebuffer procs) of
             (Some g, Some r) \<Rightarrow>
               Inr ((g, r), procs\<lparr>bf_getbuffer := Some tracked_get, bf_releasebuffer := Some tracked_release\<rparr>)
           | _ \<Rightarrow> Inl (Runtime_error ''pybind11 did not install buffer protocol callbacks'')))"

section \<open>The module\<close>

text \<open>
  \<^verbatim>\<open>PYBIND11_MODULE\<close>: the names a Python program sees.  \<open>read_procs\<close> and \<open>write_procs\<close> are the buffer
  slots pybind11's \<^verbatim>\<open>def_buffer\<close> installs for the two classes; the import fails if the callbacks
  cannot be installed.
\<close>

record ('g, 'r) py_class =
  class_members :: "string list"
  class_procs :: "('g, 'r) buffer_procs option"

record ('g, 'r) py_module =
  module_classes :: "(string \<times> ('g, 'r) py_class) list"
  module_functions :: "(string \<times> string list) list"     \<comment> \<open>with the names of their arguments\<close>
  original_procs :: "'g \<times> 'r"

definition shared_buffer_py_module ::
  "'g \<Rightarrow> 'r \<Rightarrow> ('g, 'r) buffer_procs option \<Rightarrow> ('g, 'r) buffer_procs option \<Rightarrow> cpp_error + ('g, 'r) py_module" where
  "shared_buffer_py_module tracked_get tracked_release read_procs write_procs =
     (let read_class = \<lparr>class_members = [''__init__''], class_procs = read_procs\<rparr>;
          write_members = [''__init__'', ''close'', ''closed'', ''byte_count'']
      in case install_tracked_write_buffer_callbacks tracked_get tracked_release write_procs of
           Inl e \<Rightarrow> Inl e
         | Inr (originals, procs) \<Rightarrow>
             Inr \<lparr>module_classes = [(''_NativeReadAccess'', read_class),
                    (''_NativeWriteAccess'', \<lparr>class_members = write_members, class_procs = Some procs\<rparr>)],
                  module_functions = [(''allocate_buffer'', [''byte_count''])], original_procs = originals\<rparr>)"

end
