(* ===== verification/Python_Correct.thy ===== *)
theory Python_Correct
  imports Python_Binding
begin

text \<open>
  Correctness of the Python extension: in every session on a write access the export count is
  the number of live views, so it can be closed exactly when no view is alive; a failed
  allocation leaks no block; and what is written through a view is what a later read access
  shows.
\<close>

section \<open>Sessions on a write access\<close>

text \<open>
  Views are acquired, in any number, and dropped again (pybind11's \<^verbatim>\<open>bf_getbuffer\<close> succeeds only if
  \<^verbatim>\<open>buffer_info\<close> returned); the access is closed or an attempt to
  close it fails; and the world changes in whatever way (bytes written through a view, handles
  of other buffers, publication, other processes).  A process cannot hold \<open>2 ^ 64\<close> views.
\<close>

record 'b write_session =
  native :: NativeWriteAccess
  views :: "buffer_info list"
  sworld :: "'b world"

inductive access_step :: "(cpp_error + buffer_info \<Rightarrow> int) \<Rightarrow> 'b write_session \<Rightarrow> 'b write_session \<Rightarrow> bool"
  for original where
  export_view: "getbuffer original cast_ok (native s) = (0, wa) \<Longrightarrow> write_buffer_info (native s) = Inr info \<Longrightarrow>
    Suc (length (views s)) < 2 ^ 64 \<Longrightarrow> access_step original s (s\<lparr>native := wa, views := views s @ [info]\<rparr>)"
| export_fails: "getbuffer original cast_ok (native s) = (r, wa) \<Longrightarrow> r \<noteq> 0 \<Longrightarrow>
    access_step original s (s\<lparr>native := wa\<rparr>)"
| drop_view: "j < length (views s) \<Longrightarrow>
    access_step original s (s\<lparr>native := releasebuffer True (native s), views := remove_nth j (views s)\<rparr>)"
| close_attempt: "close_access (native s) (sworld s) = (r, wa, w) \<Longrightarrow>
    access_step original s (s\<lparr>native := wa, sworld := w\<rparr>)"
| world_changes: "access_step original s (s\<lparr>sworld := w\<rparr>)"

text \<open>
  What holds throughout, for the access \<open>wa0\<close> the session began with.
\<close>

definition access_inv :: "NativeWriteAccess \<Rightarrow> 'b write_session \<Rightarrow> bool" where
  "access_inv wa0 s \<longleftrightarrow>
     unat (wa_exports (native s)) = length (views s) \<and>
     (if wa_closed (native s) then views s = []
      else wa_handle (native s) = wa_handle wa0 \<and> wa_byte_count (native s) = wa_byte_count wa0) \<and>
     (\<forall>v \<in> set (views s). v = \<lparr>info_ptr = write_ptr (wa_handle wa0), info_count = wa_byte_count wa0, info_readonly = False\<rparr>)"

lemma getbuffer_cases:
  assumes "getbuffer original cast_ok wa = (r, wa')"
  shows "if r = 0 then wa' = add_export wa else wa' = wa"
  using assms by (auto simp: getbuffer_def Let_def split: if_splits)

lemma close_access_cases:
  "close_access wa w =
     (if wa_exports wa \<noteq> 0
      then (Inl (Py_buffer_error ''cannot close write access while exported views are alive''), wa, w)
      else if wa_closed wa then (Inr (), wa, w)
      else (Inr (), wa\<lparr>wa_handle := empty_write_handle, wa_owner := None, wa_buffer := 0, wa_closed := True\<rparr>,
            snd (release_write_handle (wa_handle wa) w)))"
  by (simp add: close_access_def move_assign_write_handle_def move_write_handle_def empty_write_handle_def
      release_write_handle_def drop_promoted_def Let_def split: prod.splits)

lemma access_step_inv:
  assumes "access_step original s t" and "access_inv wa0 s"
  shows "access_inv wa0 t"
  using assms
proof (induction rule: access_step.induct)
  case (export_view cast_ok s wa info)
  from getbuffer_cases [OF export_view(1)] have wa: "wa = add_export (native s)" by simp
  from export_view(2) have info: "\<not> wa_closed (native s)" "info = \<lparr>info_ptr = write_ptr (wa_handle (native s)),
      info_count = wa_byte_count (native s), info_readonly = False\<rparr>"
    by (auto simp: write_buffer_info_def split: if_splits)
  moreover have "unat (wa_exports (native s) + 1) = Suc (length (views s))"
    using export_view(3,4) by (simp add: access_inv_def unat_word_ariths)
  ultimately show ?case using export_view(4) by (simp add: access_inv_def wa add_export_def)
next
  case (export_fails cast_ok s r wa)
  with getbuffer_cases [OF export_fails(1)] show ?case by simp
next
  case (drop_view j s)
  then have "unat (wa_exports (native s)) = length (views s)" "0 < length (views s)" by (auto simp: access_inv_def)
  then have "wa_exports (native s) \<noteq> 0" "unat (wa_exports (native s)) = length (views s)" by auto
  moreover from this have "unat (wa_exports (native s) - 1) = length (views s) - 1" by (simp add: unat_minus_one)
  ultimately show ?case using drop_view
    by (auto simp: access_inv_def releasebuffer_def remove_export_def dest: remove_nth_set split: if_splits)
next
  case (close_attempt s r wa w)
  then show ?case by (auto simp: access_inv_def close_access_cases unat_eq_0 split: if_splits)
next
  case (world_changes s w)
  then show ?case by (simp add: access_inv_def)
qed

lemma access_run_inv: "rtranclp (access_step original) s t \<Longrightarrow> access_inv wa0 s \<Longrightarrow> access_inv wa0 t"
  by (induction rule: rtranclp_induct) (auto intro: access_step_inv)

lemma new_write_access_inv:
  assumes "new_write_access env obj s0 = (Inr wa, s1)"
  shows "access_inv wa \<lparr>native = wa, views = [], sworld = w\<rparr>"
  using assms by (auto simp: new_write_access_def access_inv_def Let_def split: sum.splits if_splits prod.splits)

lemma new_write_access_handle:
  assumes "new_write_access env obj s0 = (Inr wa, s1)"
  shows "write_ptr (wa_handle wa) \<noteq> 0" "\<exists>t. write_state (wa_handle wa) = Some t" "write_promoted (wa_handle wa) = None"
    "wa_closed wa = False"
  using assms
  by (auto simp: new_write_access_def from_output_buffer_def get_write_handle_def ensure_state_def Let_def
      split: sum.splits if_splits prod.splits rosidl_buffer.splits option.splits)


section \<open>Allocation\<close>

context platform begin

lemma allocate_in_use:
  assumes "pool_inv p k" and "good k (kSharedBufferPayloadOffset + sz)" and "allocate create sz p k = (r, p', k')"
    and "j < length (all_blocks p')" and "in_use (all_blocks p' ! j)"
  shows "r = Inr j \<or> j < length (all_blocks p) \<and> in_use (all_blocks p ! j)"
proof (cases r)
  case (Inl e)
  from allocate_failure [OF assms(1,2) assms(3) [unfolded Inl]] assms(4,5) show ?thesis by auto
next
  case (Inr i)
  from allocate_success [OF assms(1,2) assms(3) [unfolded Inr]] assms(4,5) Inr show ?thesis
    by (metis less_SucE)
qed

lemma allocate_buffer_result:
  assumes inv: "pool_inv (pool w) (kern w)" and good: "good (kern w) (kSharedBufferPayloadOffset + n)" and n: "n \<noteq> 0"
    and al: "allocate_buffer create n w = (r, w')"
  shows "pool_inv (pool w') (kern w') \<and> others_kept {} w w' \<and>
    (case r of
       Inl _ \<Rightarrow> \<forall>j < length (all_blocks (pool w')). in_use (all_blocks (pool w') ! j) \<longrightarrow>
         j < length (all_blocks (pool w)) \<and> in_use (all_blocks (pool w) ! j)
     | Inr b \<Rightarrow> \<exists>sb i. b = Shared_impl \<lparr>impl_size = n, impl_buffer = sb\<rparr> \<and> owns sb i w' \<and> buffer_size sb = n \<and>
         handle_state sb = None \<and> (\<exists>c. buffer_control sb = Some c \<and> reader_state (hdr (kern w') c) = 0) \<and>
         (\<forall>other j. owns other j w \<longrightarrow> j \<noteq> i) \<and>
         (\<forall>j < length (all_blocks (pool w')). in_use (all_blocks (pool w') ! j) \<longrightarrow>
           j = i \<or> j < length (all_blocks (pool w)) \<and> in_use (all_blocks (pool w) ! j)))"
proof -
  have pos: "n > 0" using n by (simp add: word_gt_0)
  have bc: "byte_count 1 n = Inr n" using unsigned_less [of n] by (simp add: byte_count_iff)
  obtain r' p k where a: "allocate create n (pool w) (kern w) = (r', p, k)" by (metis prod.exhaust)
  note use = allocate_in_use [OF inv good a]
  obtain r1 w1 where ar: "allocate_raw create 1 n w = (r1, w1)" by (cases "allocate_raw create 1 n w")
  have g1: "good (kern w) (kSharedBufferPayloadOffset + n * 1)" using good by simp
  show ?thesis
  proof (cases r1)
    case (Inl e)
    note fl = allocate_raw_failure [OF inv g1 ar [unfolded Inl]]
    have res: "r = Inl e" "w' = w1" using al ar Inl pos by (simp_all add: allocate_buffer_def new_impl_positive)
    have "r' = Inr i \<Longrightarrow> False" for i
    proof -
      assume "r' = Inr i"
      with ar a bc Inl have "mapping (all_blocks p ! i) + kSharedBufferPayloadOffset = 0" "w1 = w\<lparr>pool := p, kern := k\<rparr>"
        by (auto simp: allocate_raw_def shared_buffer_def Let_def split: if_splits)
      moreover define sb where "sb = empty_buffer\<lparr>data_ptr := mapping (all_blocks p ! i) + kSharedBufferPayloadOffset,
        buffer_size := block_payload_size (all_blocks p ! i), deleter := Free_block (Some i),
        buffer_control := control (all_blocks p ! i)\<rparr>"
      moreover have "owns sb i (w\<lparr>pool := p, kern := k\<rparr>)"
        using allocate_success [OF inv good a [unfolded \<open>r' = Inr i\<close>]] by (simp add: owns_def sb_def empty_buffer_def)
      from owns_block [OF this] have "data_ptr sb \<noteq> 0" by auto
      ultimately show False by (simp add: sb_def)
    qed
    then obtain e' where "r' = Inl e'" by (cases r') auto
    with ar a bc have "pool w1 = p" by (auto simp: allocate_raw_def)
    with use \<open>r' = Inl e'\<close> fl res show ?thesis by (auto simp: others_kept_def)
  next
    case (Inr sb)
    from allocate_raw_success [OF inv g1 ar [unfolded Inr]] obtain i where
      i: "owns sb i w1" "handle_state sb = None" "buffer_size sb = n"
        "\<exists>c. buffer_control sb = Some c \<and> reader_state (hdr (kern w1) c) = 0"
      and keep: "\<And>other j. owns other j w \<Longrightarrow> j \<noteq> i \<and> owns other j w1 \<and> payload other w1 = payload other w" by auto
    have res: "r = Inr (Shared_impl \<lparr>impl_size = n, impl_buffer = sb\<rparr>)" "w' = w1"
      using al ar Inr pos by (simp_all add: allocate_buffer_def new_impl_positive)
    from ar a bc Inr obtain i' where r': "r' = Inr i'" "deleter sb = Free_block (Some i')" "pool w1 = p"
      by (cases r') (auto simp: allocate_raw_def shared_buffer_def Let_def split: if_splits)
    with i(1) have "i' = i" by (simp add: owns_def)
    with use r' have "\<forall>j < length (all_blocks (pool w1)). in_use (all_blocks (pool w1) ! j) \<longrightarrow>
           j = i \<or> j < length (all_blocks (pool w)) \<and> in_use (all_blocks (pool w) ! j)" by auto
    moreover have "pool_inv (pool w1) (kern w1)" using i(1) by (simp add: owns_def)
    moreover have "others_kept {} w w1" using keep by (auto simp: others_kept_def)
    ultimately show ?thesis using i keep res by (simp, blast)
  qed
qed

end

section \<open>A sample process\<close>

definition sample_py_env :: py_env where
  "sample_py_env = \<lparr>buffer_ptr_of = (\<lambda>_. Inr 4096), take_result = Inr 7, new_address = 4096\<rparr>"

definition sample_py :: "linux_broker py_state" where
  "sample_py = \<lparr>proc = sample_world, heap = (\<lambda>_. Shared_impl sample_impl)\<rparr>"

lemma sample_py_alloc:
  "\<exists>s1. allocate_buffer_internal (linux_create_platform_mapping sample_env2) sample_py_env 4 sample_py = (Inr 7, s1)"
  using sample_alloc2
  by (auto simp: allocate_buffer_internal_def allocate_buffer_def new_impl_positive sample_py_def sample_py_env_def
      take_buffer_from_ptr_def Py_ssize_t_max_def)

lemma sample_py_access:
  "\<exists>wa s1. new_write_access sample_py_env 7 sample_py = (Inr wa, s1) \<and> wa_byte_count wa = 4 \<and> wa_buffer wa = 4096 \<and>
     wa_exports wa = 0 \<and> \<not> wa_closed wa"
  by (simp add: new_write_access_def get_buffer_ptr_def sample_py_env_def sample_py_def rosidl_size_def sample_impl_def
      Py_ssize_t_max_def from_output_buffer_def get_write_handle_def ensure_state_def update_state_def sample_buffer_def
      Let_def)

lemma sample_py_inv:
  "pool_inv (pool (proc sample_py)) (kern (proc sample_py))"
  "linux_good sample_env2 (kern (proc sample_py)) (kSharedBufferPayloadOffset + 4)"
  using sample_owns by (simp_all add: sample_py_def sample_good2 kSharedBufferPayloadOffset_def owns_def)


section \<open>Properties\<close>

text \<open>
  C26: views keep a write access open.  In every session on a write access, every live view is
  writable and shows exactly the buffer's payload; closing fails without effect as long as a
  view is alive, and otherwise finalises the write, after which no view can be acquired and
  closing again does nothing.
\<close>

theorem views_keep_the_write_access_open:
  assumes "new_write_access env obj s0 = (Inr wa, s1)"
    and "rtranclp (access_step original) \<lparr>native = wa, views = [], sworld = proc s1\<rparr> s"
  shows "(\<forall>v \<in> set (views s). info_ptr v = write_ptr (wa_handle wa) \<and> info_ptr v \<noteq> 0 \<and>
      info_count v = rosidl_size (heap s0 (wa_buffer wa)) \<and> \<not> info_readonly v) \<and>
    (let (r, wa', w') = close_access (native s) (sworld s) in
      if views s \<noteq> []
      then (\<exists>e. r = Inl e) \<and> wa' = native s \<and> w' = sworld s \<and> \<not> wa_closed (native s)
      else r = Inr () \<and> wa_closed wa' \<and> (\<exists>e. write_buffer_info wa' = Inl e) \<and>
        close_access wa' w' = (Inr (), wa', w') \<and>
        (\<not> wa_closed (native s) \<longrightarrow> (\<exists>t. write_state (wa_handle wa) = Some t \<and> access (states w' t) = Finalized)))"
proof -
  have inv: "access_inv wa s" using access_run_inv [OF assms(2)] new_write_access_inv [OF assms(1)] by blast
  note h = new_write_access_handle [OF assms(1)]
  then obtain t where t: "write_state (wa_handle wa) = Some t" by blast
  have cnt: "wa_byte_count wa = rosidl_size (heap s0 (wa_buffer wa))"
    using assms(1) by (auto simp: new_write_access_def Let_def split: sum.splits if_splits prod.splits)
  have fin: "access (states (snd (release_write_handle (wa_handle wa) w)) t) = Finalized" for w :: "'a world"
    by (simp add: release_write_handle_result [OF t h(3)] update_state_def)
  show ?thesis
  proof (cases "views s = []")
    case True
    then have "wa_exports (native s) = 0" using inv by (simp add: access_inv_def unat_eq_0)
    with True inv t fin show ?thesis
      by (auto simp: close_access_cases access_inv_def write_buffer_info_def split: if_splits)
  next
    case False
    then have "wa_exports (native s) \<noteq> 0" "\<not> wa_closed (native s)" using inv by (auto simp: access_inv_def)
    with False inv h(1) cnt show ?thesis by (auto simp: close_access_cases access_inv_def)
  qed
qed

theorem views_keep_the_write_access_open_witness:
  "\<exists>wa s1 info. new_write_access sample_py_env 7 sample_py = (Inr wa, s1) \<and> write_buffer_info wa = Inr info \<and>
     info_count info = 4 \<and> (\<exists>e wa' w'. close_access (add_export wa) (proc s1) = (Inl e, wa', w'))"
proof -
  obtain wa s1 where wa: "new_write_access sample_py_env 7 sample_py = (Inr wa, s1)" "wa_byte_count wa = 4"
      "wa_exports wa = 0" "\<not> wa_closed wa" using sample_py_access by blast
  let ?s0 = "\<lparr>native = wa, views = [], sworld = proc s1\<rparr>"
  let ?g = "\<lambda>r. case r of Inl _ \<Rightarrow> - 1 | Inr _ \<Rightarrow> (0 :: int)"
  obtain info where info: "write_buffer_info wa = Inr info" "info_count info = 4"
    using wa(2,4) by (simp add: write_buffer_info_def)
  have "getbuffer ?g True (native ?s0) = (0, add_export wa)" using info(1) by (simp add: getbuffer_def)
  from access_step.export_view [OF this] info(1)
  have "rtranclp (access_step ?g) ?s0 (?s0\<lparr>native := add_export wa, views := [info]\<rparr>)" by auto
  from views_keep_the_write_access_open [OF wa(1) this] wa(1) info show ?thesis
    by (auto split: prod.splits)
qed



text \<open>A fresh block that is given back at once leaves nothing behind.\<close>

lemma freed_fresh_block:
  assumes own: "owns sb i w1" and kept: "others_kept {} w w1" and fresh: "\<forall>other j. owns other j w \<longrightarrow> j \<noteq> i"
    and used: "\<forall>j. j < length (all_blocks (pool w1)) \<longrightarrow> in_use (all_blocks (pool w1) ! j) \<longrightarrow>
      j = i \<or> j < length (all_blocks (pool w)) \<and> in_use (all_blocks (pool w) ! j)"
    and w2: "w2 = w1\<lparr>pool := pool_free (Some i) (pool w1)\<rparr>"
  shows "others_kept {} w w2" "pool_inv (pool w2) (kern w2)"
    "j < length (all_blocks (pool w2)) \<Longrightarrow> in_use (all_blocks (pool w2) ! j) \<Longrightarrow>
       j < length (all_blocks (pool w)) \<and> in_use (all_blocks (pool w) ! j)"
proof -
  have "others_kept {i} w1 w2" unfolding w2 others_kept_def using owns_after_free [OF own] by auto
  with kept fresh show "others_kept {} w w2" unfolding others_kept_def by (metis empty_iff insert_iff)
  show "pool_inv (pool w2) (kern w2)" using owns_free_inv [OF own] by (simp add: w2)
  have "in_use (all_blocks (pool w1) ! i)" using own by (simp add: owns_def)
  then show "j < length (all_blocks (pool w)) \<and> in_use (all_blocks (pool w) ! j)"
    if "j < length (all_blocks (pool w2))" "in_use (all_blocks (pool w2) ! j)"
    using used that by (auto simp: w2 pool_free_used split: if_splits)
qed

text \<open>
  C39: allocation from Python.  A size of zero, or one the buffer protocol cannot express, is refused
  before anything happens; a failing allocation, or a failure to hand the buffer over to Python,
  leaves no block behind that was not in use before; a successful one yields a fresh buffer of
  exactly that size.  Other buffers keep their blocks and bytes in every case.
\<close>

theorem python_allocation_leaks_nothing:
  assumes "pool_inv (pool (proc s)) (kern (proc s))" and "linux_good lenv (kern (proc s)) (kSharedBufferPayloadOffset + n)"
    and "allocate_buffer_internal (linux_create_platform_mapping lenv) env n s = (r, s')"
  shows "(n = 0 \<or> 2 ^ 63 \<le> unat n \<longrightarrow> (\<exists>e. r = Inl e) \<and> s' = s) \<and>
    others_kept {} (proc s) (proc s') \<and> pool_inv (pool (proc s')) (kern (proc s')) \<and>
    (case r of
       Inl _ \<Rightarrow> \<forall>j < length (all_blocks (pool (proc s'))). in_use (all_blocks (pool (proc s')) ! j) \<longrightarrow>
         j < length (all_blocks (pool (proc s))) \<and> in_use (all_blocks (pool (proc s)) ! j)
     | Inr obj \<Rightarrow> take_result env = Inr obj \<and> (\<exists>sb i. heap s' (new_address env) = Shared_impl \<lparr>impl_size = n, impl_buffer = sb\<rparr> \<and>
         owns sb i (proc s') \<and> buffer_size sb = n \<and> handle_state sb = None))"
proof -
  have big: "n > Py_ssize_t_max \<longleftrightarrow> 2 ^ 63 \<le> unat n" unfolding Py_ssize_t_max_def word_less_nat_alt by simp linarith
  show ?thesis
  proof (cases "n = 0 \<or> n > Py_ssize_t_max")
    case True
    with assms(1,3) big show ?thesis by (auto simp: allocate_buffer_internal_def others_kept_def split: if_splits)
  next
    case False
    obtain r1 w1 where al: "allocate_buffer (linux_create_platform_mapping lenv) n (proc s) = (r1, w1)"
      by (cases "allocate_buffer (linux_create_platform_mapping lenv) n (proc s)")
    note ab = linux.allocate_buffer_result [OF assms(1,2) _ al]
    show ?thesis
    proof (cases r1)
      case (Inl e)
      with ab al assms(3) False big show ?thesis by (auto simp: allocate_buffer_internal_def)
    next
      case (Inr b)
      with ab False obtain sb i where b: "b = Shared_impl \<lparr>impl_size = n, impl_buffer = sb\<rparr>" "owns sb i w1"
          "buffer_size sb = n" "handle_state sb = None" "others_kept {} (proc s) w1" "\<And>other j. owns other j (proc s) \<Longrightarrow> j \<noteq> i"
          "\<And>j. j < length (all_blocks (pool w1)) \<Longrightarrow> in_use (all_blocks (pool w1) ! j) \<Longrightarrow>
             j = i \<or> j < length (all_blocks (pool (proc s))) \<and> in_use (all_blocks (pool (proc s)) ! j)"
        by auto
      show ?thesis
      proof (cases "take_result env")
        case (Inr obj)
        with al \<open>r1 = Inr b\<close> assms(3) False have "r = Inr obj" "s' = s\<lparr>proc := w1, heap := (heap s)(new_address env := b)\<rparr>"
          by (auto simp: allocate_buffer_internal_def take_buffer_from_ptr_def)
        with b Inr False big show ?thesis by (auto simp: owns_def)
      next
        case (Inl e)
        with al \<open>r1 = Inr b\<close> assms(3) False b(1,2) have res: "r = Inl e" "proc s' = w1\<lparr>pool := pool_free (Some i) (pool w1)\<rparr>"
          by (auto simp: allocate_buffer_internal_def take_buffer_from_ptr_def destroy_rosidl_buffer_def destroy_impl_def
              reset_owned)
        note freed = freed_fresh_block [OF b(2,5) _ _ res(2)]
        have "\<not> (n = 0 \<or> 2 ^ 63 \<le> unat n)" using False big by blast
        with freed b(6,7) show ?thesis unfolding res(1) sum.case by blast
      qed
    qed
  qed
qed

theorem python_allocation_leaks_nothing_witness:
  "\<exists>s1 sb i. allocate_buffer_internal (linux_create_platform_mapping sample_env2) sample_py_env 4 sample_py = (Inr 7, s1) \<and>
     heap s1 4096 = Shared_impl \<lparr>impl_size = 4, impl_buffer = sb\<rparr> \<and> owns sb i (proc s1)"
proof -
  obtain s1 where al: "allocate_buffer_internal (linux_create_platform_mapping sample_env2) sample_py_env 4 sample_py =
      (Inr 7, s1)" using sample_py_alloc by blast
  from python_allocation_leaks_nothing [OF sample_py_inv al] al show ?thesis by (auto simp: sample_py_env_def)
qed



text \<open>A buffer allocated from Python, and reading an idle one.\<close>

lemma allocated_from_python:
  assumes inv: "pool_inv (pool (proc s)) (kern (proc s))"
    and good: "linux_good lenv (kern (proc s)) (kSharedBufferPayloadOffset + n)"
    and al: "allocate_buffer_internal (linux_create_platform_mapping lenv) env n s = (Inr obj, s1)"
  shows "n \<noteq> 0 \<and> \<not> n > Py_ssize_t_max \<and> (\<exists>w1 sb i. s1 = s\<lparr>proc := w1, heap := (heap s)(new_address env := Shared_impl \<lparr>impl_size = n, impl_buffer = sb\<rparr>)\<rparr> \<and>
    owns sb i w1 \<and> buffer_size sb = n \<and> handle_state sb = None \<and>
    (\<exists>c. buffer_control sb = Some c \<and> reader_state (hdr (kern w1) c) = 0))"
proof -
  from al have n: "n \<noteq> 0" "\<not> n > Py_ssize_t_max" by (auto simp: allocate_buffer_internal_def split: if_splits)
  obtain r1 w1 where ab: "allocate_buffer (linux_create_platform_mapping lenv) n (proc s) = (r1, w1)"
    by (cases "allocate_buffer (linux_create_platform_mapping lenv) n (proc s)")
  with al n obtain b where r1: "r1 = Inr b" and s1: "s1 = s\<lparr>proc := w1, heap := (heap s)(new_address env := b)\<rparr>"
    by (cases r1) (auto simp: allocate_buffer_internal_def take_buffer_from_ptr_def split: sum.splits)
  from linux.allocate_buffer_result [OF inv good n(1) ab] r1 s1 n show ?thesis by auto
qed

lemma read_access_shows_payload:
  assumes gp: "get_buffer_ptr env obj = Inr a" and b: "heap s a = Shared_impl \<lparr>impl_size = n, impl_buffer = sb\<rparr>"
    and n: "n \<noteq> 0" "\<not> n > Py_ssize_t_max" "buffer_size sb = n" and idle: "handle_idle sb (proc s)" and lease: "can_lease sb (proc s)"
  shows "\<exists>ra s'. new_read_access create env obj s = (Inr ra, s') \<and> info_readonly (read_buffer_info ra) \<and>
    load_bytes (kern (proc s')) (info_ptr (read_buffer_info ra)) (info_count (read_buffer_info ra)) = payload sb (proc s)"
proof -
  from get_read_handle_idle [OF idle lease] obtain t rh w where
    rd: "get_read_handle sb (proc s) = (Inr rh, sb\<lparr>handle_state := Some t\<rparr>, w)" "read_ptr rh = data_ptr sb"
      "kern w = leased sb (kern (proc s))" by blast
  have "\<exists>s'. new_read_access create env obj s =
      (Inr \<lparr>ra_owner = obj, ra_buffer = a, ra_handle = rh, ra_byte_count = n\<rparr>, s') \<and> proc s' = w"
    using gp n rd(1) b by (simp add: new_read_access_def from_input_buffer_def rosidl_size_def)
  moreover have "load_bytes (kern w) (read_ptr rh) n = payload sb (proc s)" using rd(2,3) n(3) by (simp add: payload_def)
  ultimately show ?thesis by (force simp: read_buffer_info_def)
qed

text \<open>
  C24: from Python, through shared memory and back.  A buffer allocated from Python can be opened
  for writing once; what is stored through its view is, after closing, exactly what a read
  access shows, read-only; a second write access is refused, as writing is final.
\<close>

theorem python_write_then_read:
  assumes inv: "pool_inv (pool (proc s)) (kern (proc s))"
    and good: "linux_good lenv (kern (proc s)) (kSharedBufferPayloadOffset + n)"
    and al: "allocate_buffer_internal (linux_create_platform_mapping lenv) env n s = (Inr obj, s1)"
    and ptr: "buffer_ptr_of env obj = Inr (new_address env)" "new_address env \<noteq> 0"
    and len: "length bytes = unat n"
  shows "\<exists>wa s2 info. new_write_access env obj s1 = (Inr wa, s2) \<and> write_buffer_info wa = Inr info \<and> info_count info = n \<and>
    (let (r, wa', w) = close_access wa (write_memory (info_ptr info) bytes (proc s2)); s3 = s2\<lparr>proc := w\<rparr> in
      r = Inr () \<and>
      (\<exists>ra s4. new_read_access create env obj s3 = (Inr ra, s4) \<and> info_readonly (read_buffer_info ra) \<and>
         load_bytes (kern (proc s4)) (info_ptr (read_buffer_info ra)) (info_count (read_buffer_info ra)) = bytes) \<and>
      (\<exists>e s4. new_write_access env obj s3 = (Inl e, s4)))"
proof -
  let ?a = "new_address env"
  from allocated_from_python [OF inv good al] obtain w1 sb i where n: "n \<noteq> 0" "\<not> n > Py_ssize_t_max" and
    s1: "s1 = s\<lparr>proc := w1, heap := (heap s)(?a := Shared_impl \<lparr>impl_size = n, impl_buffer = sb\<rparr>)\<rparr>" and
    sb: "owns sb i w1" "buffer_size sb = n" "handle_state sb = None"
      "\<exists>c. buffer_control sb = Some c \<and> reader_state (hdr (kern w1) c) = 0" by blast
  have nd: "data_ptr sb \<noteq> 0" "buffer_size sb \<noteq> 0" "writable sb"
    using owns_block [OF sb(1)] sb(1) by (auto simp: owns_def)
  let ?u = "next_state w1"
  let ?w2 = "w1\<lparr>states := (states w1)(?u := \<lparr>access = InUse, active_readers = 0\<rparr>), next_state := Suc ?u\<rparr>"
  let ?sb = "sb\<lparr>handle_state := Some ?u\<rparr>"
  from get_write_handle_fresh [OF sb(3) nd(3,1,2), of w1] obtain wh where
    wr: "get_write_handle sb w1 = (Inr wh, ?sb, ?w2)" "write_ptr wh = data_ptr sb" "write_state wh = Some ?u"
      "write_promoted wh = None" by blast
  let ?b = "Shared_impl \<lparr>impl_size = n, impl_buffer = ?sb\<rparr>"
  let ?wa = "\<lparr>wa_owner = Some obj, wa_buffer = ?a, wa_handle = wh, wa_byte_count = n, wa_exports = 0, wa_closed = False\<rparr>"
  let ?s2 = "s1\<lparr>proc := ?w2, heap := (heap s1)(?a := ?b)\<rparr>"
  have gp: "get_buffer_ptr env obj = Inr ?a" using ptr by (simp add: get_buffer_ptr_def)
  have op: "new_write_access env obj s1 = (Inr ?wa, ?s2)"
    using gp n wr(1) by (simp add: new_write_access_def s1 rosidl_size_def from_output_buffer_def)
  have info: "write_buffer_info ?wa = Inr \<lparr>info_ptr = data_ptr sb, info_count = n, info_readonly = False\<rparr>"
    by (simp add: write_buffer_info_def wr(2))
  let ?w3 = "write_memory (data_ptr sb) bytes ?w2"
  let ?w4 = "update_state ?u (\<lambda>h. h\<lparr>access := Finalized\<rparr>) ?w3"
  obtain wa' where cl: "close_access ?wa ?w3 = (Inr (), wa', ?w4)"
    by (simp add: close_access_cases release_write_handle_result [OF wr(3,4)])
  have k4: "kern ?w4 = store_bytes (data_ptr sb) bytes (kern w1)" "pool ?w4 = pool w1"
    by (simp_all add: buffer_simps write_memory_def)
  have "length bytes \<le> unat (buffer_size sb)" using len sb(2) by simp
  note st = owns_store [OF sb(1) this k4]
  have pl: "payload sb ?w4 = bytes" using st owns_block [OF sb(1)] len sb(2) by auto
  have idle: "handle_idle ?sb ?w4" by (simp add: handle_idle_def buffer_simps write_memory_def)
  have lease: "can_lease ?sb ?w4" using sb(4) k4 by (auto intro: can_lease_idle)
  let ?s3 = "?s2\<lparr>proc := ?w4\<rparr>"
  have sz: "rosidl_size ?b = n" by (simp add: rosidl_size_def)
  have "payload ?sb ?w4 = bytes" using pl by simp
  moreover have "\<exists>ra s4. new_read_access create env obj ?s3 = (Inr ra, s4) \<and> info_readonly (read_buffer_info ra) \<and>
      load_bytes (kern (proc s4)) (info_ptr (read_buffer_info ra)) (info_count (read_buffer_info ra)) = payload ?sb (proc ?s3)"
    by (rule read_access_shows_payload [OF gp]) (use n idle lease sb(2) in simp_all)
  ultimately have reads: "\<exists>ra s4. new_read_access create env obj ?s3 = (Inr ra, s4) \<and> info_readonly (read_buffer_info ra) \<and>
      load_bytes (kern (proc s4)) (info_ptr (read_buffer_info ra)) (info_count (read_buffer_info ra)) = bytes" by simp
  have "\<exists>e sb' w'. get_write_handle ?sb ?w4 = (Inl e, sb', w')"
    using nd by (simp add: get_write_handle_def ensure_state_def update_state_def write_memory_def)
  then have refused: "\<exists>e s4. new_write_access env obj ?s3 = (Inl e, s4)"
    using gp n sz by (auto simp: new_write_access_def from_output_buffer_def Let_def)
  show ?thesis
    by (intro exI conjI, rule op, rule info) (use cl reads refused in \<open>simp_all add: Let_def\<close>)
qed

theorem python_write_then_read_witness:
  "\<exists>s1 wa s2 info. allocate_buffer_internal (linux_create_platform_mapping sample_env2) sample_py_env 4 sample_py = (Inr 7, s1) \<and>
     new_write_access sample_py_env 7 s1 = (Inr wa, s2) \<and> write_buffer_info wa = Inr info \<and>
     (\<exists>wa' w ra s4. close_access wa (write_memory (info_ptr info) [1, 2, 3, 4] (proc s2)) = (Inr (), wa', w) \<and>
        new_read_access (linux_create_platform_mapping sample_env2) sample_py_env 7 (s2\<lparr>proc := w\<rparr>) = (Inr ra, s4) \<and>
        load_bytes (kern (proc s4)) (info_ptr (read_buffer_info ra)) (info_count (read_buffer_info ra)) = [1, 2, 3, 4])"
proof -
  obtain s1 where al: "allocate_buffer_internal (linux_create_platform_mapping sample_env2) sample_py_env 4 sample_py =
      (Inr 7, s1)" using sample_py_alloc by blast
  have h: "buffer_ptr_of sample_py_env 7 = Inr (new_address sample_py_env)" "new_address sample_py_env \<noteq> 0"
      "length [1 :: 8 word, 2, 3, 4] = unat (4 :: u64)" by (simp_all add: sample_py_env_def)
  obtain wa s2 info where wa: "new_write_access sample_py_env 7 s1 = (Inr wa, s2)" "write_buffer_info wa = Inr info"
    and rest: "let (r, wa', w) = close_access wa (write_memory (info_ptr info) [1, 2, 3, 4] (proc s2)); s3 = s2\<lparr>proc := w\<rparr> in
      r = Inr () \<and>
      (\<exists>ra s4. new_read_access (linux_create_platform_mapping sample_env2) sample_py_env 7 s3 = (Inr ra, s4) \<and> info_readonly (read_buffer_info ra) \<and>
         load_bytes (kern (proc s4)) (info_ptr (read_buffer_info ra)) (info_count (read_buffer_info ra)) = [1, 2, 3, 4]) \<and>
      (\<exists>e s4. new_write_access sample_py_env 7 s3 = (Inl e, s4))"
    using python_write_then_read [OF sample_py_inv al h, of "linux_create_platform_mapping sample_env2"] by blast
  obtain r wa' w where cl: "close_access wa (write_memory (info_ptr info) [1, 2, 3, 4] (proc s2)) = (r, wa', w)"
    by (metis prod.exhaust)
  from rest have "r = Inr ()" and "\<exists>ra s4. new_read_access (linux_create_platform_mapping sample_env2) sample_py_env 7 (s2\<lparr>proc := w\<rparr>) = (Inr ra, s4) \<and>
      load_bytes (kern (proc s4)) (info_ptr (read_buffer_info ra)) (info_count (read_buffer_info ra)) = [1, 2, 3, 4]"
    unfolding cl Let_def prod.case by blast+
  with al wa cl show ?thesis by blast
qed

text \<open>
  Importing the extension: only write accesses are tracked.  The import throws exactly when pybind11
  left one of the write class's slots empty; otherwise those slots hold the tracking callbacks,
  which call the displaced originals, and the read class keeps pybind11's own.
\<close>

theorem module_tracks_write_accesses_only:
  "case shared_buffer_py_module tracked_get tracked_release read_procs write_procs of
     Inl e \<Rightarrow> (\<forall>p. write_procs = Some p \<longrightarrow> bf_getbuffer p = None \<or> bf_releasebuffer p = None)
   | Inr m \<Rightarrow> (\<exists>p g r. write_procs = Some p \<and> bf_getbuffer p = Some g \<and> bf_releasebuffer p = Some r \<and> original_procs m = (g, r) \<and>
       map_option class_procs (map_of (module_classes m) ''_NativeReadAccess'') = Some read_procs \<and>
       map_option class_procs (map_of (module_classes m) ''_NativeWriteAccess'') =
         Some (Some (p\<lparr>bf_getbuffer := Some tracked_get, bf_releasebuffer := Some tracked_release\<rparr>)))"
  by (auto simp: shared_buffer_py_module_def install_tracked_write_buffer_callbacks_def Let_def split: option.splits)

end
