(* ===== verification/Python_Package.thy ===== *)
theory Python_Package
  imports Python_Correct
begin

text \<open>
  The Python package, \<^verbatim>\<open>shared_buffer/__init__.py\<close>: the context manager \<^verbatim>\<open>WriteAccess\<close> around the
  extension's write access, and the two functions that open a buffer.

  Of Python's \<^verbatim>\<open>memoryview\<close> the class uses: creating one asks the exporter for the buffer once; a
  memoryview made of a memoryview shares that one export; the export is given back when the last of
  them is released; \<^verbatim>\<open>release()\<close> raises \<^verbatim>\<open>BufferError\<close> while something uses the view's own buffer, and
  does nothing on a released view.
\<close>

section \<open>The context manager\<close>

text \<open>\<open>consumers\<close>: how many objects use the buffer of this very view.\<close>

record memory_view =
  released :: bool
  consumers :: nat

record WriteAccess =
  native_access :: "NativeWriteAccess option"
  direct_view :: "memory_view option"

definition access_closed :: "WriteAccess \<Rightarrow> bool" where
  "access_closed a = (case native_access a of None \<Rightarrow> True | Some wa \<Rightarrow> wa_closed wa)"

definition access_byte_count :: "WriteAccess \<Rightarrow> cpp_error + u64" where
  "access_byte_count a =
     (case native_access a of None \<Rightarrow> Inl (Py_value_error ''access is closed'') | Some wa \<Rightarrow> Inr (wa_byte_count wa))"

text \<open>\<^verbatim>\<open>__enter__\<close>; if the buffer cannot be exported, \<^verbatim>\<open>memoryview(...)\<close> raises what \<^verbatim>\<open>bf_getbuffer\<close> set.\<close>

definition enter_access ::
  "(cpp_error + buffer_info \<Rightarrow> int) \<Rightarrow> bool \<Rightarrow> WriteAccess \<Rightarrow> (cpp_error + buffer_info) \<times> WriteAccess" where
  "enter_access original cast_ok a =
     (case native_access a of
        None \<Rightarrow> (Inl (Py_value_error ''access is closed''), a)
      | Some wa \<Rightarrow>
          (if wa_closed wa then (Inl (Py_value_error ''access is closed''), a)
           else if direct_view a \<noteq> None then (Inl (Runtime_error ''access context is already entered''), a)
           else
             (let (r, wa') = getbuffer original cast_ok wa in
              case write_buffer_info wa of
                Inl e \<Rightarrow> (Inl e, a\<lparr>native_access := Some wa'\<rparr>)
              | Inr info \<Rightarrow>
                  (if r \<noteq> 0
                   then (Inl (Py_buffer_error ''failed to retain shared-buffer export''), a\<lparr>native_access := Some wa'\<rparr>)
                   else (Inr info, a\<lparr>native_access := Some wa', direct_view := Some \<lparr>released = False, consumers = 0\<rparr>\<rparr>)))))"

text \<open>\<^verbatim>\<open>memoryview.release\<close>, with \<open>derived\<close> other memoryviews alive over the same export.\<close>

definition release_view ::
  "nat \<Rightarrow> memory_view \<Rightarrow> NativeWriteAccess \<Rightarrow> (cpp_error + unit) \<times> memory_view \<times> NativeWriteAccess" where
  "release_view derived v wa =
     (if released v then (Inr (), v, wa)
      else if consumers v \<noteq> 0 then (Inl (Py_buffer_error ''memoryview has exported buffers''), v, wa)
      else (Inr (), v\<lparr>released := True\<rparr>, if derived = 0 then releasebuffer True wa else wa))"

text \<open>\<^verbatim>\<open>close\<close>, which \<^verbatim>\<open>__exit__\<close> calls.\<close>

definition close_context :: "nat \<Rightarrow> WriteAccess \<Rightarrow> 'b world \<Rightarrow> (cpp_error + unit) \<times> WriteAccess \<times> 'b world" where
  "close_context derived a w =
     (case native_access a of
        None \<Rightarrow> (Inr (), a, w)
      | Some wa \<Rightarrow>
          (let (r, dv, wa1) =
             (case direct_view a of
                None \<Rightarrow> (Inr (), None, wa)
              | Some v \<Rightarrow> (let (r, v', wa') = release_view derived v wa in (r, Some v', wa')))
           in case r of
                Inl e \<Rightarrow> (Inl e, \<lparr>native_access = Some wa1, direct_view = dv\<rparr>, w)
              | Inr _ \<Rightarrow>
                  (case close_access wa1 w of
                     (Inl e, wa2, w1) \<Rightarrow> (Inl e, \<lparr>native_access = Some wa2, direct_view = dv\<rparr>, w1)
                   | (Inr _, wa2, w1) \<Rightarrow> (Inr (), \<lparr>native_access = None, direct_view = None\<rparr>, w1))))"

definition write_buffer :: "py_env \<Rightarrow> nat \<Rightarrow> 'b py_state \<Rightarrow> (cpp_error + WriteAccess) \<times> 'b py_state" where
  "write_buffer env obj s =
     (case new_write_access env obj s of
        (Inl e, s1) \<Rightarrow> (Inl e, s1)
      | (Inr wa, s1) \<Rightarrow> (Inr \<lparr>native_access = Some wa, direct_view = None\<rparr>, s1))"

definition read_buffer ::
  "create_mapping \<Rightarrow> py_env \<Rightarrow> nat \<Rightarrow> 'b py_state \<Rightarrow> (cpp_error + NativeReadAccess \<times> buffer_info) \<times> 'b py_state" where
  "read_buffer create env obj s =
     (case new_read_access create env obj s of
        (Inl e, s1) \<Rightarrow> (Inl e, s1)
      | (Inr ra, s1) \<Rightarrow> (Inr (ra, read_buffer_info ra), s1))"

section \<open>Sessions\<close>

text \<open>
  The context is entered and closed, in any order and number, while the program makes and drops
  memoryviews of the view and attaches other objects, such as arrays, to it.
\<close>

record 'b context_session =
  context_access :: WriteAccess
  derived_views :: nat
  context_world :: "'b world"

definition live_view :: "WriteAccess \<Rightarrow> bool" where
  "live_view a = (case direct_view a of None \<Rightarrow> False | Some v \<Rightarrow> \<not> released v)"

definition view_in_use :: "WriteAccess \<Rightarrow> bool" where
  "view_in_use a = (case direct_view a of None \<Rightarrow> False | Some v \<Rightarrow> \<not> released v \<and> consumers v \<noteq> 0)"

text \<open>The last view over the export is gone.\<close>

definition drop_derived :: "WriteAccess \<Rightarrow> nat \<Rightarrow> WriteAccess" where
  "drop_derived a remaining =
     (if remaining = 0 \<and> \<not> live_view a then a\<lparr>native_access := map_option (releasebuffer True) (native_access a)\<rparr> else a)"

inductive context_step :: "(cpp_error + buffer_info \<Rightarrow> int) \<Rightarrow> 'b context_session \<Rightarrow> 'b context_session \<Rightarrow> bool"
  for original where
  enter: "enter_access original cast_ok (context_access s) = (r, a) \<Longrightarrow>
    context_step original s (s\<lparr>context_access := a\<rparr>)"
| close: "close_context (derived_views s) (context_access s) (context_world s) = (r, a, w) \<Longrightarrow>
    context_step original s (s\<lparr>context_access := a, context_world := w\<rparr>)"
| derive: "live_view (context_access s) \<or> derived_views s > 0 \<Longrightarrow>
    context_step original s (s\<lparr>derived_views := Suc (derived_views s)\<rparr>)"
| drop: "derived_views s = Suc n \<Longrightarrow>
    context_step original s (s\<lparr>derived_views := n, context_access := drop_derived (context_access s) n\<rparr>)"
| use_view: "direct_view (context_access s) = Some v \<Longrightarrow> \<not> released v \<Longrightarrow>
    context_step original s (s\<lparr>context_access := (context_access s)\<lparr>direct_view := Some (v\<lparr>consumers := n\<rparr>)\<rparr>\<rparr>)"
| world: "context_step original s (s\<lparr>context_world := w\<rparr>)"

text \<open>The native access has one export while any view is alive, and none otherwise.\<close>

definition context_inv :: "NativeWriteAccess \<Rightarrow> WriteAccess \<Rightarrow> nat \<Rightarrow> bool" where
  "context_inv wa0 a d \<longleftrightarrow>
     (case native_access a of
        None \<Rightarrow> d = 0 \<and> direct_view a = None
      | Some wa \<Rightarrow> \<not> wa_closed wa \<and> wa_handle wa = wa_handle wa0 \<and> wa_byte_count wa = wa_byte_count wa0 \<and>
          wa_exports wa = (if live_view a \<or> d > 0 then 1 else 0) \<and> (d > 0 \<longrightarrow> direct_view a \<noteq> None))"

lemma enter_inv:
  assumes "enter_access original cast_ok a = (r, a')" and "context_inv wa0 a d"
  shows "context_inv wa0 a' d"
proof -
  consider "a' = a" | wa wa' rc where "native_access a = Some wa" "direct_view a = None" "getbuffer original cast_ok wa = (rc, wa')"
      "a' = a\<lparr>native_access := Some wa', direct_view := Some \<lparr>released = False, consumers = 0\<rparr>\<rparr> \<and> rc = 0 \<or>
       a' = a\<lparr>native_access := Some wa'\<rparr> \<and> rc \<noteq> 0"
    using assms by (auto simp: enter_access_def context_inv_def write_buffer_info_def
        split: option.splits if_splits prod.splits sum.splits)
  then show ?thesis
  proof cases
    case 1
    with assms(2) show ?thesis by simp
  next
    case 2
    from getbuffer_cases [OF 2(3)] 2 assms(2) show ?thesis
      by (auto simp: context_inv_def live_view_def add_export_def split: if_splits)
  qed
qed

lemma close_context_cases:
  assumes "context_inv wa0 a d"
  shows "close_context d a w =
     (case native_access a of
        None \<Rightarrow> (Inr (), a, w)
      | Some wa \<Rightarrow>
          (if view_in_use a then (Inl (Py_buffer_error ''memoryview has exported buffers''), a, w)
           else if d > 0
           then (Inl (Py_buffer_error ''cannot close write access while exported views are alive''),
             a\<lparr>direct_view := map_option (\<lambda>v. v\<lparr>released := True\<rparr>) (direct_view a)\<rparr>, w)
           else (Inr (), \<lparr>native_access = None, direct_view = None\<rparr>, snd (release_write_handle (wa_handle wa0) w))))"
  using assms
  by (cases a) (auto simp: context_inv_def close_context_def view_in_use_def live_view_def release_view_def close_access_cases
      releasebuffer_def remove_export_def Let_def split: option.splits if_splits)

lemma context_step_inv:
  assumes "context_step original s t" and "context_inv wa0 (context_access s) (derived_views s)"
  shows "context_inv wa0 (context_access t) (derived_views t)"
  using assms
proof (induction rule: context_step.induct)
  case (enter cast_ok s r a)
  with enter_inv show ?case by simp
next
  case (close s r a w)
  with close_context_cases [OF close(2), of "context_world s"] show ?case
    by (auto simp: context_inv_def live_view_def view_in_use_def split: option.splits if_splits)
next
  case (drop s n)
  then show ?case
    by (auto simp: context_inv_def drop_derived_def live_view_def releasebuffer_def remove_export_def
        split: option.splits if_splits)
qed (auto simp: context_inv_def live_view_def split: option.splits if_splits)

lemma context_run_inv:
  "rtranclp (context_step original) s t \<Longrightarrow> context_inv wa0 (context_access s) (derived_views s) \<Longrightarrow>
     context_inv wa0 (context_access t) (derived_views t)"
  by (induction rule: rtranclp_induct) (auto intro: context_step_inv)

lemma closed_context:
  "close_context d \<lparr>native_access = None, direct_view = v\<rparr> w = (Inr (), \<lparr>native_access = None, direct_view = v\<rparr>, w)"
  "\<exists>e. enter_access original cast_ok \<lparr>native_access = None, direct_view = v\<rparr> =
     (Inl e, \<lparr>native_access = None, direct_view = v\<rparr>)"
  by (simp_all add: close_context_def enter_access_def)

section \<open>Property\<close>

text \<open>
  C25: leaving the context ends the write, or changes nothing.  However views were made and dropped, closing
  succeeds exactly if the access is closed already or no view is in use; then the write is
  final, the access cannot be entered again, and closing again does nothing.  Otherwise the
  access stays open, with its native access and the process as they were, so that closing succeeds once the
  views are gone.
\<close>

theorem leaving_the_context_ends_the_write:
  assumes "write_buffer env obj s0 = (Inr a0, s1)"
    and "rtranclp (context_step original) \<lparr>context_access = a0, derived_views = 0, context_world = proc s1\<rparr> s"
  shows "\<exists>wa t. native_access a0 = Some wa \<and> write_state (wa_handle wa) = Some t \<and>
    (let before = context_access s; (r, a, w) = close_context (derived_views s) before (context_world s) in
      (r = Inr () \<longleftrightarrow> access_closed before \<or> \<not> view_in_use before \<and> derived_views s = 0) \<and>
      (if r = Inr ()
       then access_closed a \<and> (\<exists>e. enter_access original cast_ok a = (Inl e, a)) \<and> close_context 0 a w = (Inr (), a, w) \<and>
         (\<not> access_closed before \<longrightarrow> access (states w t) = Finalized)
       else \<not> access_closed a \<and> native_access a = native_access before \<and> w = context_world s))"
proof -
  from assms(1) obtain wa where wa: "new_write_access env obj s0 = (Inr wa, s1)" "a0 = \<lparr>native_access = Some wa, direct_view = None\<rparr>"
    by (auto simp: write_buffer_def split: sum.splits prod.splits)
  note h = new_write_access_handle [OF wa(1)]
  then obtain t where t: "write_state (wa_handle wa) = Some t" by blast
  have "context_inv wa a0 0"
    using new_write_access_inv [OF wa(1)] h(4) by (simp add: wa(2) context_inv_def access_inv_def live_view_def unat_eq_0)
  with context_run_inv [OF assms(2)] have inv: "context_inv wa (context_access s) (derived_views s)" by simp
  have fin: "access (states (snd (release_write_handle (wa_handle wa) w)) t) = Finalized" for w :: "'a world"
    by (simp add: release_write_handle_result [OF t h(3)] update_state_def)
  show ?thesis
  proof (cases "native_access (context_access s)")
    case None
    with inv have "context_access s = \<lparr>native_access = None, direct_view = None\<rparr>" "derived_views s = 0"
      by (auto simp: context_inv_def intro: WriteAccess.equality)
    with t show ?thesis by (simp add: wa(2) closed_context access_closed_def Let_def)
  next
    case (Some wa')
    with inv have "\<not> wa_closed wa'" by (simp add: context_inv_def)
    with Some t fin show ?thesis
      by (simp add: wa(2) close_context_cases [OF inv] closed_context access_closed_def Let_def)
  qed
qed

theorem leaving_the_context_ends_the_write_witness:
  "\<exists>a0 s1 a w wa t. write_buffer sample_py_env 7 sample_py = (Inr a0, s1) \<and> close_context 0 a0 (proc s1) = (Inr (), a, w) \<and>
     access_closed a \<and> native_access a0 = Some wa \<and> write_state (wa_handle wa) = Some t \<and> access (states w t) = Finalized"
proof -
  obtain wa s1 where wa: "new_write_access sample_py_env 7 sample_py = (Inr wa, s1)" "\<not> wa_closed wa"
    using sample_py_access by blast
  let ?a = "\<lparr>native_access = Some wa, direct_view = None\<rparr>"
  have w: "write_buffer sample_py_env 7 sample_py = (Inr ?a, s1)" by (simp add: write_buffer_def wa(1))
  obtain r a w' where c: "close_context 0 ?a (proc s1) = (r, a, w')" by (metis prod.exhaust)
  from leaving_the_context_ends_the_write [where original = "\<lambda>_. 0" and cast_ok = True, OF w rtranclp.rtrancl_refl] w c wa(2) show ?thesis
    by (auto simp: Let_def access_closed_def view_in_use_def)
qed

end
