(* ===== verification/Handle_Lifetime.thy ===== *)
theory Handle_Lifetime
  imports Buffer_Correct
begin

text \<open>
  What becomes of a handle whose buffer is destroyed or cleared before it.  The buffer gives its
  block back to the pool.  A read handle's lease keeps the pool from handing the block out, so
  the bytes stay; a write handle holds nothing that would.
\<close>

section \<open>What may happen meanwhile\<close>

text \<open>
  Buffers are allocated, destroyed, written and published, and readers of any block come and go.
  Readers give back only their own leases, so one of the header \<open>c\<close> always remains: that of the
  handle.
\<close>

inductive activity :: "oid \<Rightarrow> linux_broker world \<Rightarrow> linux_broker world \<Rightarrow> bool" for c where
  allocating: "linux_good env (kern w) (kSharedBufferPayloadOffset + sz) \<Longrightarrow>
    allocate (linux_create_platform_mapping env) sz (pool w) (kern w) = (r, p, k) \<Longrightarrow>
    activity c w (w\<lparr>pool := p, kern := k\<rparr>)"
| destroying: "owns sb j w \<Longrightarrow> activity c w (snd (reset_buffer sb w))"
| storing: "owns sb j w \<Longrightarrow> length bs \<le> unat (buffer_size sb) \<Longrightarrow> activity c w (write_memory (data_ptr sb) bs w)"
| publishing: "owns sb j w \<Longrightarrow> activity c w (w\<lparr>kern := mark_published (Some j) (pool w) (kern w)\<rparr>)"
| refreshing: "activity c w (w\<lparr>kern := refresh_publish_timestamp (Some d) (kern w)\<rparr>)"
| leasing: "try_acquire_shared_buffer_reader (Some d) (hdr (kern w)) = (ok, m) \<Longrightarrow>
    activity c w (w\<lparr>kern := (kern w)\<lparr>hdr := m\<rparr>\<rparr>)"
| returning: "reader_lock_of (reader_state (hdr (kern w) d)) = Readers (Suc n) \<Longrightarrow> (d = c \<longrightarrow> n > 0) \<Longrightarrow>
    activity c w (w\<lparr>kern := (kern w)\<lparr>hdr := release_shared_buffer_reader (Some d) (hdr (kern w))\<rparr>\<rparr>)"
| passing: "activity c w (w\<lparr>kern := (kern w)\<lparr>clock := cl\<rparr>\<rparr>)"

text \<open>A block in the pool that somebody still reads.\<close>

definition pinned :: "nat \<Rightarrow> oid \<Rightarrow> u64 \<Rightarrow> linux_broker world \<Rightarrow> bool" where
  "pinned i c a w \<longleftrightarrow> pool_inv (pool w) (kern w) \<and> i < length (all_blocks (pool w)) \<and> \<not> in_use (all_blocks (pool w) ! i) \<and>
     control (all_blocks (pool w) ! i) = Some c \<and> mapping (all_blocks (pool w) ! i) = a \<and> reader_state (hdr (kern w) c) \<noteq> 0"

lemma pinned_not_owned:
  assumes "pinned i c a w" and "owns sb j w"
  shows "i \<noteq> j" "control (all_blocks (pool w) ! j) \<noteq> Some c" "object_at (kern w) (data_ptr sb) \<noteq> Some c"
proof -
  show ij: "i \<noteq> j" using assms by (auto simp: pinned_def owns_def)
  have "blocks_disjoint (all_blocks (pool w))" using assms(1) by (simp add: pinned_def pool_inv_def pool_inv_except_def)
  with ij assms show "control (all_blocks (pool w) ! j) \<noteq> Some c" unfolding pinned_def owns_def blocks_disjoint_def
    by metis
  with owns_block [OF assms(2)] show "object_at (kern w) (data_ptr sb) \<noteq> Some c" by auto
qed

lemma pinned_object: "pinned i c a w \<Longrightarrow> object_at (kern w) (a + kSharedBufferPayloadOffset) = Some c"
  using pool_inv_block [of "pool w" "kern w" i] by (auto simp: pinned_def block_ok_def object_at_def)

lemma allocate_pinned:
  assumes "pinned i c a w" and "linux_good env (kern w) (kSharedBufferPayloadOffset + sz)"
    and "allocate (linux_create_platform_mapping env) sz (pool w) (kern w) = (r, p, k)"
  shows "pinned i c a (w\<lparr>pool := p, kern := k\<rparr>) \<and> pay k c = pay (kern w) c \<and> r \<noteq> Inr i"
proof -
  have inv: "pool_inv (pool w) (kern w)" and i: "i < length (all_blocks (pool w))" "\<not> in_use (all_blocks (pool w) ! i)"
      "control (all_blocks (pool w) ! i) = Some c" "mapping (all_blocks (pool w) ! i) = a" "reader_state (hdr (kern w) c) \<noteq> 0"
    using assms(1) by (simp_all add: pinned_def)
  have c: "c < next_oid (kern w)" using pool_inv_block [OF inv i(1)] i(3) by (simp add: block_ok_def)
  show ?thesis
  proof (cases r)
    case (Inl e)
    from linux.allocate_failure [OF inv assms(2) assms(3) [unfolded Inl]] i c Inl show ?thesis
      by (simp add: pinned_def objects_kept_def)
  next
    case (Inr j)
    note al = linux.allocate_success [OF inv assms(2) assms(3) [unfolded Inr]]
    then have "i \<noteq> j" using i by auto
    then have same: "all_blocks p ! i = all_blocks (pool w) ! i" "i < length (all_blocks p)" "j < length (all_blocks p)"
      using al i(1) by auto
    have "blocks_disjoint (all_blocks p)" using al by (simp add: pool_inv_def pool_inv_except_def)
    with same \<open>i \<noteq> j\<close> i(3) have "control (all_blocks p ! j) \<noteq> Some c" unfolding blocks_disjoint_def by metis
    with al c have "pay k c = pay (kern w) c" "hdr k c = hdr (kern w) c" by blast+
    with same al i \<open>i \<noteq> j\<close> Inr show ?thesis by (simp add: pinned_def)
  qed
qed

lemma pinned_kernel:
  assumes "pinned i c a w" and "pool_step (pool w, kern w) (pool w, k)" and "reader_state (hdr k c) \<noteq> 0"
  shows "pinned i c a (w\<lparr>kern := k\<rparr>)"
  using assms pool_step_inv [OF assms(2)] by (simp add: pinned_def)

lemma activity_pinned:
  assumes "activity c w w'" and "pinned i c a w"
  shows "pinned i c a w' \<and> pay (kern w') c = pay (kern w) c"
  using assms
proof (induction rule: activity.induct)
  case (allocating env w sz r p k)
  then show ?case using allocate_pinned by fastforce
next
  case (destroying sb j w)
  have "j < length (all_blocks (pool w))" "in_use (all_blocks (pool w) ! j)" using destroying(1) by (simp_all add: owns_def)
  then show ?case using pinned_not_owned(1) [OF destroying(2,1)] destroying owns_free_inv [OF destroying(1)]
    by (simp add: reset_owned pinned_def pool_free_used)
next
  case (storing sb j w bs)
  obtain d where d: "object_at (kern w) (data_ptr sb) = Some d" using owns_block [OF storing(1)] by blast
  then have dc: "d \<noteq> c" using pinned_not_owned(3) [OF storing(3,1)] by auto
  have k: "kern (write_memory (data_ptr sb) bs w) = store_bytes (data_ptr sb) bs (kern w)"
      "pool (write_memory (data_ptr sb) bs w) = pool w" by (simp_all add: write_memory_def)
  have "owns sb j (write_memory (data_ptr sb) bs w)"
    using owns_store [OF storing(1,2) k] storing(1) by blast
  then have "pool_inv (pool w) (store_bytes (data_ptr sb) bs (kern w))" unfolding owns_def k by blast
  with storing(3) dc d show ?case by (simp add: pinned_def k store_bytes_def)
next
  case (publishing sb j w)
  obtain d where d: "control (all_blocks (pool w) ! j) = Some d" using owns_block [OF publishing(1)] by blast
  have "j < length (all_blocks (pool w))" using publishing(1) by (simp add: owns_def)
  then have "pool_step (pool w, kern w) (pool w, mark_published (Some j) (pool w) (kern w))" by (rule step_publish)
  moreover have "hdr (mark_published (Some j) (pool w) (kern w)) c = hdr (kern w) c"
    using pinned_not_owned(2) [OF publishing(2,1)] by (simp add: mark_published_header [OF d] d)
  moreover have "pay (mark_published (Some j) (pool w) (kern w)) = pay (kern w)"
    by (simp add: mark_published_def Let_def refresh_publish_timestamp_def monotonic_time_us_def update_control_def
        split: option.splits)
  ultimately show ?case using pinned_kernel [OF publishing(2)] publishing(2) by (simp add: pinned_def)
next
  case (refreshing w d)
  have "pool_step (pool w, kern w) (pool w, refresh_publish_timestamp (Some d) (kern w))" by (rule step_refresh)
  moreover have "reader_state (hdr (refresh_publish_timestamp (Some d) (kern w)) c) = reader_state (hdr (kern w) c)"
    "pay (refresh_publish_timestamp (Some d) (kern w)) = pay (kern w)"
    by (simp_all add: refresh_publish_timestamp_def monotonic_time_us_def update_control_def)
  ultimately show ?case using pinned_kernel [OF refreshing] refreshing by (simp add: pinned_def)
next
  case (leasing d w ok m)
  have m: "m = snd (try_acquire_shared_buffer_reader (Some d) (hdr (kern w)))" using leasing(1) by simp
  have "reader_state (m c) \<noteq> 0"
  proof (cases "d = c \<and> ok")
    case True
    with leasing(1) header.acquire_iff [of c "hdr (kern w)"] obtain n where
      "reader_lock_of (reader_state (hdr (kern w) c)) = Readers n" "n < max_readers" by auto
    from header.acquired [of "hdr (kern w)" c, OF this] m True show ?thesis by (auto simp: reader_simps)
  next
    case False
    have "m = hdr (kern w)" if "\<not> ok"
      using that leasing(1) header.failed_acquire [of d "hdr (kern w)"] by simp
    with False leasing(2) m show ?thesis by (cases "d = c") (auto simp: pinned_def)
  qed
  with pinned_kernel [OF leasing(2) step_reader [OF leasing(1)]] show ?case by simp
next
  case (returning w d n)
  have "reader_state (release_shared_buffer_reader (Some d) (hdr (kern w)) c) \<noteq> 0"
  proof (cases "d = c")
    case True
    with header.release_reader [of "hdr (kern w)" d n, OF returning(1)]
    have "unat (reader_state (release_shared_buffer_reader (Some d) (hdr (kern w)) c)) = n" by (simp add: reader_lock_of_Readers)
    moreover have "n \<noteq> 0" using True returning(2) by simp
    ultimately show ?thesis by (metis unat_0)
  next
    case False
    with returning(3) show ?thesis by (simp add: pinned_def)
  qed
  with pinned_kernel [OF returning(3) step_reader_done [OF returning(1)]] show ?case by simp
next
  case (passing w cl)
  have "pool_step (pool w, kern w) (pool w, kern w\<lparr>clock := cl\<rparr>)" by (rule step_time)
  with pinned_kernel [OF passing] passing show ?case by (simp add: pinned_def)
qed

lemma activity_run_pinned:
  "rtranclp (activity c) w w' \<Longrightarrow> pinned i c a w \<Longrightarrow> pinned i c a w' \<and> pay (kern w') c = pay (kern w) c"
  by (induction rule: rtranclp_induct) (auto dest: activity_pinned)

section \<open>Read handles\<close>

lemma get_read_handle_lease:
  fixes w :: "linux_broker world"
  assumes "get_read_handle sb w = (Inr rh, sb1, w1)" and "owns sb i w"
  shows "\<exists>c. buffer_control sb = Some c \<and> reader_lease rh = Some c \<and> read_ptr rh = data_ptr sb \<and>
    reader_state (hdr (kern w1) c) \<noteq> 0 \<and> pool w1 = pool w \<and> pay (kern w1) = pay (kern w) \<and> owns sb1 i w1 \<and>
    buffer_control sb1 = Some c \<and> data_ptr sb1 = data_ptr sb"
proof -
  obtain c where c: "buffer_control sb = Some c" using owns_block [OF assms(2)] by blast
  obtain t sb0 w0 where e: "ensure_state sb w = (t, sb0, w0)" by (metis prod.exhaust)
  then have k0: "kern w0 = kern w" "pool w0 = pool w" "\<exists>st. sb0 = sb\<lparr>handle_state := st\<rparr>"
    by (auto simp: ensure_state_def Let_def intro: exI [of _ "handle_state sb"] split: option.splits)
  have r: "fst (try_acquire_shared_buffer_reader (Some c) (hdr (kern w)))" "sb1 = sb0" "read_ptr rh = data_ptr sb"
      "reader_lease rh = Some c"
      "kern w1 = (kern w)\<lparr>hdr := snd (try_acquire_shared_buffer_reader (Some c) (hdr (kern w)))\<rparr>" "pool w1 = pool w"
    using assms(1) e k0 c
    by (auto simp: get_read_handle_def make_lease_def update_state_def Let_def split: if_splits prod.splits sum.splits)
  then obtain n where "reader_lock_of (reader_state (hdr (kern w) c)) = Readers n" "n < max_readers"
    using header.acquire_iff [of c "hdr (kern w)"] by blast
  from header.acquired [of "hdr (kern w)" c, OF this] have "reader_state (hdr (kern w1) c) \<noteq> 0"
    by (auto simp: r(5) reader_simps)
  moreover have "pool_step (pool w, kern w) (pool w, kern w1)"
    unfolding r(5) by (rule step_reader) (rule prod.collapse [symmetric])
  from pool_step_inv [OF this] have "owns sb1 i w1" using assms(2) k0 r by (auto simp: owns_def)
  ultimately show ?thesis using c k0 r by auto
qed

text \<open>
  C20: a read handle outlives its buffer.  When the buffer is destroyed, the handle's lease keeps the
  block out of the pool's hands: whatever is allocated, written, published, read or destroyed afterwards, the
  handle still shows the bytes it was acquired for, and no allocation returns that block.
\<close>

theorem read_handle_outlives_its_buffer:
  assumes "owns sb i w" and "get_read_handle sb w = (Inr rh, sb1, w1)" and "reader_lease rh = Some c"
    and "rtranclp (activity c) (snd (reset_buffer sb1 w1)) w2"
  shows "load_bytes (kern w2) (read_ptr rh) (buffer_size sb) = payload sb w \<and>
    (\<forall>env sz j p k. linux_good env (kern w2) (kSharedBufferPayloadOffset + sz) \<longrightarrow>
       allocate (linux_create_platform_mapping env) sz (pool w2) (kern w2) = (Inr j, p, k) \<longrightarrow> j \<noteq> i)"
proof -
  from get_read_handle_lease [OF assms(2,1)] assms(3) have
    r: "buffer_control sb = Some c" "read_ptr rh = data_ptr sb" "reader_state (hdr (kern w1) c) \<noteq> 0" "pool w1 = pool w"
      "pay (kern w1) = pay (kern w)" "owns sb1 i w1" "buffer_control sb1 = Some c" by auto
  let ?a = "mapping (all_blocks (pool w) ! i)"
  have a: "data_ptr sb = ?a + kSharedBufferPayloadOffset" using assms(1) by (simp add: owns_def)
  have "control (all_blocks (pool w1) ! i) = Some c" "i < length (all_blocks (pool w1))" "in_use (all_blocks (pool w1) ! i)"
    using r(6,7) by (simp_all add: owns_def)
  then have "pinned i c ?a (snd (reset_buffer sb1 w1))"
    using r(3,4) owns_free_inv [OF r(6)] by (simp add: reset_owned [OF r(6)] pinned_def pool_free_used)
  from activity_run_pinned [OF assms(4) this] have p: "pinned i c ?a w2" "pay (kern w2) c = pay (kern w1) c"
    by (simp_all add: reset_owned [OF r(6)])
  from owns_block [OF assms(1)] r(1) have "payload sb w = pay (kern w) c" "length (pay (kern w) c) = unat (buffer_size sb)"
    by auto
  then have "load_bytes (kern w2) (read_ptr rh) (buffer_size sb) = payload sb w"
    using pinned_object [OF p(1)] p(2) r(2,5) by (simp add: load_bytes_def a)
  moreover have "j \<noteq> i" if "linux_good env (kern w2) (kSharedBufferPayloadOffset + sz)"
    "allocate (linux_create_platform_mapping env) sz (pool w2) (kern w2) = (Inr j, q, k)" for env sz j q k
    using allocate_pinned [OF p(1) that] by blast
  ultimately show ?thesis by blast
qed

theorem read_handle_outlives_its_buffer_witness:
  "\<exists>rh sb1 w1 r p k. get_read_handle sample_buffer sample_world = (Inr rh, sb1, w1) \<and>
     allocate (linux_create_platform_mapping sample_env2) 4 (pool (snd (reset_buffer sb1 w1))) (kern (snd (reset_buffer sb1 w1))) =
       (r, p, k) \<and>
     load_bytes k (read_ptr rh) 4 = payload sample_buffer sample_world \<and> r \<noteq> Inr 0"
proof -
  obtain t rh w1 where r: "get_read_handle sample_buffer sample_world = (Inr rh, sample_buffer\<lparr>handle_state := Some t\<rparr>, w1)"
      "reader_lease rh = buffer_control sample_buffer" "kern w1 = leased sample_buffer (kern sample_world)"
    using get_read_handle_idle [OF sample_idle sample_lease] by blast
  let ?sb1 = "sample_buffer\<lparr>handle_state := Some t\<rparr>"
  have c: "buffer_control sample_buffer = Some 0" "buffer_size sample_buffer = 4" by (simp_all add: sample_buffer_def)
  then have lease: "reader_lease rh = Some 0" using r(2) by simp
  let ?w2 = "snd (reset_buffer ?sb1 w1)"
  have "owns ?sb1 0 w1" using get_read_handle_lease [OF r(1) sample_owns] by blast
  then have k2: "kern ?w2 = leased sample_buffer (kern sample_world)" by (simp add: reset_owned r(3))
  have good: "linux_good sample_env2 (kern ?w2) (kSharedBufferPayloadOffset + 4)"
    using sample_good2 [of 68]
    by (simp add: k2 leased_def c linux_good_def range_free_def kSharedBufferPayloadOffset_def)
  obtain res p k where al: "allocate (linux_create_platform_mapping sample_env2) 4 (pool ?w2) (kern ?w2) = (res, p, k)"
    by (metis prod.exhaust)
  have step: "rtranclp (activity 0) ?w2 (?w2\<lparr>pool := p, kern := k\<rparr>)"
    using activity.allocating [OF good al, of 0] by simp
  have "load_bytes k (read_ptr rh) 4 = payload sample_buffer sample_world"
    using read_handle_outlives_its_buffer [OF sample_owns r(1) lease step] c(2) by simp
  moreover have "res \<noteq> Inr 0"
    using read_handle_outlives_its_buffer [OF sample_owns r(1) lease rtranclp.rtrancl_refl] good al by fastforce
  ultimately show ?thesis using r(1) al by (intro exI [of _ rh] exI [of _ ?sb1] exI [of _ w1]) auto
qed

section \<open>Write handles\<close>

text \<open>
  A write handle does not: once its buffer is cleared, an allocation of the same size may return
  the block to a new owner, and both write to the same bytes.
\<close>

theorem write_handle_does_not_keep_the_block:
  assumes own: "owns (impl_buffer im) i w" and fresh: "handle_state (impl_buffer im) = None"
    and c: "buffer_control (impl_buffer im) = Some c" "reader_state (hdr (kern w) c) = 0" "publish_timestamp_us (hdr (kern w) c) = 0"
    and empty: "bucket (pool w) (buffer_size (impl_buffer im)) = []"
    and good: "linux_good env (kern w) (kSharedBufferPayloadOffset + buffer_size (impl_buffer im))"
    and len: "length bytes = unat (buffer_size (impl_buffer im))"
  shows "\<exists>wh sb w1 im' w2 other w3. get_write_handle (impl_buffer im) w = (Inr wh, sb, w1) \<and>
    clear_impl (im\<lparr>impl_buffer := sb\<rparr>) w1 = (im', w2) \<and>
    new_impl (linux_create_platform_mapping env) 1 (buffer_size (impl_buffer im)) w2 = (Inr other, w3) \<and>
    payload (impl_buffer other) (write_memory (write_ptr wh) bytes w3) = bytes"
proof -
  let ?sb = "impl_buffer im" and ?create = "linux_create_platform_mapping env"
  note ob = owns_block [OF own]
  have nd: "data_ptr ?sb \<noteq> 0" "buffer_size ?sb \<noteq> 0" "writable ?sb" using ob own by (auto simp: owns_def)
  from get_write_handle_fresh [OF fresh nd(3,1,2), of w] obtain wh w1 where
    wr: "get_write_handle ?sb w = (Inr wh, ?sb\<lparr>handle_state := Some (next_state w)\<rparr>, w1)" "write_ptr wh = data_ptr ?sb"
      "pool w1 = pool w" "kern w1 = kern w" by fastforce
  let ?sb1 = "?sb\<lparr>handle_state := Some (next_state w)\<rparr>"
  have own1: "owns ?sb1 i w1" using own owns_same [OF wr(3,4)] by simp
  let ?w2 = "w1\<lparr>pool := pool_free (Some i) (pool w1)\<rparr>"
  obtain im' where cl: "clear_impl (im\<lparr>impl_buffer := ?sb1\<rparr>) w1 = (im', ?w2)"
    using reset_owned [OF own1] by (cases "reset_buffer ?sb1 w1")
      (simp add: clear_impl_def assign_buffer_def move_assign_buffer_def move_buffer_def Let_def)
  have i: "i < length (all_blocks (pool w))" "in_use (all_blocks (pool w) ! i)" "control (all_blocks (pool w) ! i) = Some c"
      "block_payload_size (all_blocks (pool w) ! i) = buffer_size ?sb"
    using own c by (simp_all add: owns_def)
  have b: "bucket (pool ?w2) (buffer_size ?sb) = [i]" "control (all_blocks (pool ?w2) ! i) = Some c" "kern ?w2 = kern w"
    using i empty by (simp_all add: wr pool_free_used bucket_def)
  have m: "mapping (all_blocks (pool ?w2) ! i) = mapping (all_blocks (pool w) ! i)"
    using i by (simp add: wr pool_free_used)
  from allocate_single_candidate [where create = ?create and k = "kern w", OF nd(2) b(1,2) c(2,3)] obtain p k where
    al: "allocate ?create (buffer_size ?sb) (pool ?w2) (kern ?w2) = (Inr i, p, k)"
      "mapping (all_blocks p ! i) = mapping (all_blocks (pool w) ! i)"
    unfolding b(3) m by blast
  have bc: "byte_count 1 (buffer_size ?sb) = Inr (buffer_size ?sb)" using unsigned_less [of "buffer_size ?sb"] by (simp add: byte_count_iff)
  have ptr: "mapping (all_blocks p ! i) + kSharedBufferPayloadOffset = data_ptr ?sb" using own al(2) by (simp add: owns_def)
  obtain other where raw: "allocate_raw ?create 1 (buffer_size ?sb) ?w2 = (Inr other, ?w2\<lparr>pool := p, kern := k\<rparr>)"
      "data_ptr other = data_ptr ?sb"
    using al bc ptr nd by (auto simp: allocate_raw_def shared_buffer_def Let_def)
  let ?w3 = "?w2\<lparr>pool := p, kern := k\<rparr>"
  have ni: "new_impl ?create 1 (buffer_size ?sb) ?w2 = (Inr \<lparr>impl_size = buffer_size ?sb, impl_buffer = other\<rparr>, ?w3)"
    using raw nd by (simp add: new_impl_positive word_gt_0)
  have "pool_inv (pool ?w2) (kern ?w2)" using owns_free_inv [OF own1] by simp
  from linux.allocate_raw_success [OF this _ raw(1)] good b(3) obtain j where
    o: "owns other j ?w3" "buffer_size other = buffer_size ?sb" by auto
  let ?w4 = "write_memory (write_ptr wh) bytes ?w3"
  have k4: "kern ?w4 = store_bytes (data_ptr other) bytes (kern ?w3)" "pool ?w4 = pool ?w3"
    by (simp_all add: write_memory_def wr(2) raw(2))
  have "length bytes \<le> unat (buffer_size other)" using len o(2) by simp
  from owns_store [OF o(1) this k4] have "payload other ?w4 = bytes @ drop (length bytes) (payload other ?w3)" by blast
  moreover have "length (payload other ?w3) = length bytes" using owns_block [OF o(1)] len o(2) by auto
  ultimately have "payload other ?w4 = bytes" by simp
  with wr(1) cl ni show ?thesis by (metis SharedBufferImpl.select_convs(2))
qed

end
