(* ===== verification/Transport.thy ===== *)
theory Transport
  imports Backend_Correct
begin

text \<open>
  The whole transport: one publisher process with its pool, any number of subscriber processes
  with their import caches, and the operations of \<^verbatim>\<open>shared_buffer_api.hpp\<close>, \<^verbatim>\<open>SharedBufferImpl\<close> and
  the backend plugin composed in any order.  The messages themselves are not trusted: a
  subscriber may be handed any descriptor, and the system call that receives the memory may
  deliver any object there is.

  This theory holds the state, the steps of single calls, and what each operation leaves alone;
  \<open>Transport_Correct\<close> holds the invariant, \<open>Transport_Run\<close> the operations made of several calls,
  \<open>Transport_End\<close> the end-to-end theorems.
\<close>

section \<open>State\<close>

text \<open>
  \<open>buffers\<close>: the publisher's live buffers, \<open>writers\<close>: their write handles (a buffer never has two).
  \<open>received\<close>: the buffers subscribers obtained, each with its descriptor.  \<open>readers\<close>: the live read
  handles; one on a received buffer is tagged with the descriptor.  \<open>history\<close> records for each
  published UID the payload at that moment and whether it was sealed: no write handle alive
  and none obtainable.  \<open>lost\<close>: the leases of processes that ended without giving them back.
  Neither influences a step.
\<close>

record transport =
  node :: "linux_broker world"
  buffers :: "nat \<Rightarrow> SharedBufferImpl option"
  writers :: "nat \<Rightarrow> WriteHandle option"
  caches :: "nat \<Rightarrow> import_cache"
  received :: "(SharedBufferDescriptor \<times> SharedBufferImpl) multiset"
  readers :: "(SharedBufferDescriptor option \<times> ReadHandle) multiset"
  history :: "u64 \<Rightarrow> (u8 list \<times> bool) option"
  lost :: "oid option multiset"

definition is_finalized :: "SharedBuffer \<Rightarrow> 'b world \<Rightarrow> bool" where
  "is_finalized sb w \<longleftrightarrow> (case handle_state sb of None \<Rightarrow> False | Some t \<Rightarrow> access (states w t) = Finalized)"

text \<open>
  The one assumption about the random numbers: the UID of a new generation is neither held by
  a block nor was it ever published.
\<close>

definition unused_uid :: "transport \<Rightarrow> u64 \<Rightarrow> bool" where
  "unused_uid s u \<longleftrightarrow> history s u = None \<and> (\<forall>b \<in> set (all_blocks (pool (node s))). current_uid b \<noteq> u)"

definition record_publication ::
  "bool \<Rightarrow> SharedBuffer \<Rightarrow> SharedBufferDescriptor option \<Rightarrow> 'b world \<Rightarrow> (u64 \<Rightarrow> (u8 list \<times> bool) option) \<Rightarrow>
     u64 \<Rightarrow> (u8 list \<times> bool) option" where
  "record_publication writing sb dd w h =
     (case dd of
        None \<Rightarrow> h
      | Some d \<Rightarrow> h(desc_ipc_uid d \<mapsto> (payload sb w, \<not> writing \<and> is_finalized sb w)))"

abbreviation receive_linux ::
  "linux_import_env \<Rightarrow> string \<Rightarrow> SharedBufferDescriptor option \<Rightarrow> import_cache \<Rightarrow> kernel \<Rightarrow>
     (cpp_error + SharedBufferImpl) \<times> import_cache \<times> kernel" where
  "receive_linux ienv \<equiv> from_descriptor_with_endpoint (linux_import_platform_mapping ienv) linux_destroy_platform_mapping"

section \<open>Steps\<close>

definition leases_of :: "(SharedBufferDescriptor \<times> SharedBufferImpl) multiset \<Rightarrow>
    (SharedBufferDescriptor option \<times> ReadHandle) multiset \<Rightarrow> oid option multiset" where
  "leases_of R D = image_mset (\<lambda>x. buffer_control (impl_buffer (snd x))) R + image_mset (\<lambda>x. reader_lease (snd x)) D"

text \<open>
  Single calls of the library.  \<open>moving\<close> is a move of the pointer that holds a buffer.  \<open>ending\<close>: the
  subscriber process \<open>q\<close> is killed; no destructor runs, so its buffers \<open>R\<close> and handles \<open>D\<close> take
  their leases with them.
\<close>

inductive basic_step :: "transport \<Rightarrow> transport \<Rightarrow> bool" where
  making: "buffers s x = None \<Longrightarrow> n > 0 \<Longrightarrow> esz \<noteq> 0 \<Longrightarrow>
    linux_good env (kern (node s)) (kSharedBufferPayloadOffset + n * esz) \<Longrightarrow>
    new_impl (linux_create_platform_mapping env) esz n (node s) = (Inr im, w) \<Longrightarrow>
    deleter (impl_buffer im) = Free_block (Some i) \<Longrightarrow> unused_uid s (current_uid (all_blocks (pool w) ! i)) \<Longrightarrow>
    basic_step s (s\<lparr>node := w, buffers := (buffers s)(x \<mapsto> im)\<rparr>)"
| making_failed: "n > 0 \<Longrightarrow> esz \<noteq> 0 \<Longrightarrow> linux_good env (kern (node s)) (kSharedBufferPayloadOffset + n * esz) \<Longrightarrow>
    new_impl (linux_create_platform_mapping env) esz n (node s) = (Inl e, w) \<Longrightarrow> basic_step s (s\<lparr>node := w\<rparr>)"
| writing: "buffers s x = Some im \<Longrightarrow> from_output_buffer (Shared_impl im) (node s) = (Inr wh, Shared_impl im', w) \<Longrightarrow>
    basic_step s (s\<lparr>node := w, buffers := (buffers s)(x \<mapsto> im'), writers := (writers s)(x \<mapsto> wh)\<rparr>)"
| writing_refused: "buffers s x = Some im \<Longrightarrow> from_output_buffer (Shared_impl im) (node s) = (Inl e, Shared_impl im', w) \<Longrightarrow>
    basic_step s (s\<lparr>node := w, buffers := (buffers s)(x \<mapsto> im')\<rparr>)"
| storing: "buffers s x = Some im \<Longrightarrow> writers s x = Some wh \<Longrightarrow> length bs \<le> unat (buffer_size (impl_buffer im)) \<Longrightarrow>
    basic_step s (s\<lparr>node := write_memory (write_ptr wh) bs (node s)\<rparr>)"
| writing_done: "writers s x = Some wh \<Longrightarrow> release_write_handle wh (node s) = (wh', w) \<Longrightarrow>
    basic_step s (s\<lparr>node := w, writers := (writers s)(x := None)\<rparr>)"
| publishing: "buffers s x = Some im \<Longrightarrow> broker_good benv (kern (node s)) \<Longrightarrow>
    create_descriptor_with_endpoint (linux_register_block benv) gsz pid type_name be gid (Shared_impl im) (node s) = (dd, w) \<Longrightarrow>
    basic_step s (s\<lparr>node := w,
      history := record_publication (writers s x \<noteq> None) (impl_buffer im) dd w (history s)\<rparr>)"
| destroying: "buffers s x = Some im \<Longrightarrow> writers s x = None \<Longrightarrow>
    basic_step s (s\<lparr>node := destroy_impl im (node s), buffers := (buffers s)(x := None)\<rparr>)"
| accepting: "linux_good_import ienv (kern (node s)) (shared_buffer_block_size d) \<Longrightarrow>
    receive_linux ienv type_name (Some d) (caches s q) (kern (node s)) = (Inr im, cache, k) \<Longrightarrow>
    basic_step s (s\<lparr>node := (node s)\<lparr>kern := k\<rparr>, caches := (caches s)(q := cache),
      received := add_mset (d, im) (received s)\<rparr>)"
| rejecting: "linux_good_import ienv (kern (node s)) (shared_buffer_block_size d) \<Longrightarrow>
    receive_linux ienv type_name (Some d) (caches s q) (kern (node s)) = (Inl e, cache, k) \<Longrightarrow>
    basic_step s (s\<lparr>node := (node s)\<lparr>kern := k\<rparr>, caches := (caches s)(q := cache)\<rparr>)"
| relaying: "(d, im) \<in># received s \<Longrightarrow>
    create_descriptor_with_endpoint (linux_register_block benv) gsz pid type_name be gid (Shared_impl im) (node s) = (dd, w) \<Longrightarrow>
    basic_step s (s\<lparr>node := w\<rparr>)"
| reading: "received s = add_mset (d, im) rest \<Longrightarrow>
    from_input_buffer create esz (Shared_impl im) (node s) = (Inr rh, Shared_impl im', w) \<Longrightarrow>
    basic_step s (s\<lparr>node := w, received := add_mset (d, im') rest, readers := add_mset (Some d, rh) (readers s)\<rparr>)"
| reading_own: "buffers s x = Some im \<Longrightarrow>
    from_input_buffer create esz (Shared_impl im) (node s) = (Inr rh, Shared_impl im', w) \<Longrightarrow>
    basic_step s (s\<lparr>node := w, buffers := (buffers s)(x \<mapsto> im'), readers := add_mset (None, rh) (readers s)\<rparr>)"
| reading_refused: "received s = add_mset (d, im) rest \<Longrightarrow>
    from_input_buffer create esz (Shared_impl im) (node s) = (Inl e, Shared_impl im', w) \<Longrightarrow>
    basic_step s (s\<lparr>node := w, received := add_mset (d, im') rest\<rparr>)"
| reading_own_refused: "buffers s x = Some im \<Longrightarrow>
    from_input_buffer create esz (Shared_impl im) (node s) = (Inl e, Shared_impl im', w) \<Longrightarrow>
    basic_step s (s\<lparr>node := w, buffers := (buffers s)(x \<mapsto> im')\<rparr>)"
| reading_done: "readers s = add_mset (dd, rh) rest \<Longrightarrow> release_read_handle rh (node s) = (rh', w) \<Longrightarrow>
    basic_step s (s\<lparr>node := w, readers := rest\<rparr>)"
| dropping: "received s = add_mset (d, im) rest \<Longrightarrow>
    basic_step s (s\<lparr>node := destroy_impl im (node s), received := rest\<rparr>)"
| passing: "basic_step s (s\<lparr>node := (node s)\<lparr>kern := (kern (node s))\<lparr>clock := cl\<rparr>\<rparr>\<rparr>)"
| moving: "buffers s x = Some im \<Longrightarrow> buffers s y = None \<Longrightarrow>
    basic_step s (s\<lparr>buffers := (buffers s)(x := None, y \<mapsto> im), writers := (writers s)(x := None, y := writers s x)\<rparr>)"
| ending: "received s = R + received' \<Longrightarrow> readers s = D + readers' \<Longrightarrow> \<forall>x \<in># D. fst x \<noteq> None \<Longrightarrow>
    basic_step s (s\<lparr>caches := (caches s)(q := (\<lambda>_. None)), received := received', readers := readers',
      lost := lost s + leases_of R D\<rparr>)"

text \<open>Nothing exists at the start, whatever the pool, the broker and the kernel look like otherwise.\<close>

definition transport_start :: "(nat \<Rightarrow> u64) \<Rightarrow> linux_broker \<Rightarrow> kernel \<Rightarrow> transport" where
  "transport_start rng br k =
     \<lparr>node = \<lparr>kern = k\<lparr>next_oid := 0\<rparr>, pool = new_pool rng br, states = (\<lambda>_. \<lparr>access = Unset, active_readers = 0\<rparr>),
        next_state = 0\<rparr>,
      buffers = (\<lambda>_. None), writers = (\<lambda>_. None), caches = (\<lambda>_ _. None), received = {#}, readers = {#},
      history = (\<lambda>_. None), lost = {#}\<rparr>"

section \<open>What the operations leave alone\<close>

text \<open>Mappings and descriptors are added; none that exists is taken away or redirected.\<close>

definition space_grows :: "kernel \<Rightarrow> kernel \<Rightarrow> bool" where
  "space_grows k k' \<longleftrightarrow> (\<forall>a c. vm k a = Some c \<longrightarrow> vm k' a = Some c) \<and> (\<forall>x. fds k x \<noteq> None \<longrightarrow> fds k' x \<noteq> None)"

lemma space_grows_refl [simp]: "vm k' = vm k \<Longrightarrow> fds k' = fds k \<Longrightarrow> space_grows k k'"
  by (simp add: space_grows_def)

lemma space_grows_trans [trans]: "space_grows k k' \<Longrightarrow> space_grows k' k'' \<Longrightarrow> space_grows k k''"
  by (simp add: space_grows_def)

lemma cache_ok_grows:
  assumes "cache_ok cache k" and "space_grows k k'" and "next_oid k \<le> next_oid k'"
    and "\<forall>c < next_oid k. osize k' c = osize k c"
  shows "cache_ok cache k'"
proof -
  have "imported_ok k' b" if "imported_ok k b" for b
    using that assms(2-4) unfolding imported_ok_def space_grows_def by (metis order_less_le_trans)
  with assms(1) show ?thesis by (auto simp: cache_ok_def)
qed

text \<open>Objects that appear carry no UID: nobody can import them before they are published.\<close>

definition new_unpublished :: "kernel \<Rightarrow> kernel \<Rightarrow> bool" where
  "new_unpublished k k' \<longleftrightarrow> (\<forall>c. next_oid k \<le> c \<longrightarrow> c < next_oid k' \<longrightarrow> ipc_uid (hdr k' c) = 0)"

lemma linux_create_new: "linux_create_platform_mapping env sz i n k = (r, k') \<Longrightarrow> new_unpublished k k'"
  by (auto simp: linux_create_platform_mapping_def Let_def new_unpublished_def sys_map_def set_object_size_def
      sys_new_object_def zero_header_def split: if_splits option.splits)

lemma create_block_new:
  assumes "create_block (linux_create_platform_mapping env) sz p k = (r, p', k')"
  shows "new_unpublished k k'"
proof (cases "sz > - 1 - kSharedBufferPayloadOffset")
  case True
  with assms show ?thesis by (simp add: create_block_def new_unpublished_def)
next
  case False
  obtain r1 k1 where c: "linux_create_platform_mapping env (kSharedBufferPayloadOffset + sz) (next_block_id p) (uid_rng p 0) k = (r1, k1)"
    by (metis prod.exhaust)
  with assms False have "next_oid k' = next_oid k1 \<and> (\<forall>d. ipc_uid (hdr k' d) = ipc_uid (hdr k1 d) \<or> ipc_uid (hdr k' d) = 0)"
    by (cases r1) (auto simp: create_block_def Let_def draw_uid_eq default_control_header_def update_control_def
        split: option.splits)
  with linux_create_new [OF c] show ?thesis unfolding new_unpublished_def by metis
qed

lemma reserve_block_new: "reserve_block i p k = (p', k') \<Longrightarrow> new_unpublished k0 k \<Longrightarrow> new_unpublished k0 k'"
  by (auto simp: reserve_block_def Let_def draw_uid_eq new_unpublished_def update_control_def
      release_shared_buffer_reuse_claim_def split: option.splits)

lemma reserve_block_space:
  "reserve_block i p k = (p', k') \<Longrightarrow> vm k' = vm k \<and> fds k' = fds k \<and> osize k' = osize k \<and> next_oid k' = next_oid k"
  by (auto simp: reserve_block_def Let_def draw_uid_eq update_control_def split: option.splits)

lemma reserve_block_control:
  "reserve_block i p k = (p', k') \<Longrightarrow> control (all_blocks p' ! j) = control (all_blocks p ! j)"
  by (cases "i < length (all_blocks p)"; cases "i = j")
    (auto simp: reserve_block_def Let_def draw_uid_eq update_block_def list_update_beyond)

lemma create_block_space:
  assumes "create_block (linux_create_platform_mapping env) sz p k = (Inr i, p', k')"
    and "linux_good env k (kSharedBufferPayloadOffset + sz)"
  shows "space_grows k k'"
proof -
  from assms(1) obtain pm k1 where
    c: "linux_create_platform_mapping env (kSharedBufferPayloadOffset + sz) (next_block_id p) (uid_rng p 0) k = (Inr pm, k1)"
    and k': "\<exists>c f. k' = update_control c f k1"
    by (auto simp: create_block_def Let_def draw_uid_eq split: if_splits prod.splits sum.splits)
  from linux.create_success [OF c assms(2)] k' show ?thesis
    by (auto simp: space_grows_def range_free_def update_control_def split: option.splits)
qed

lemma claim_candidate_space:
  "claim_candidate p bs i k = (f, k') \<Longrightarrow> same_layout k k' \<and> (\<forall>c. ipc_uid (hdr k' c) = ipc_uid (hdr k c))"
proof (induction bs arbitrary: i k)
  case Nil
  then show ?case by simp
next
  case (Cons b bs)
  obtain ok k1 where c: "try_claim_block (Some b) p k = (ok, k1)" by (cases "try_claim_block (Some b) p k")
  have "same_layout k k1 \<and> (\<forall>c. ipc_uid (hdr k1 c) = ipc_uid (hdr k c))"
  proof (cases "control (all_blocks p ! b)")
    case None
    with c show ?thesis by (simp add: try_claim_block_def)
  next
    case (Some d)
    from try_claim_block_result [where ?k = k, OF this] c show ?thesis
      by (auto simp: same_layout_def claim_header_def passed_time_def split: if_splits)
  qed
  with Cons c show ?case by (fastforce split: if_splits intro: same_layout_trans)
qed

text \<open>Allocation on Linux: what \<open>allocate_success\<close> and \<open>allocate_failure\<close> do not say.\<close>

lemma allocate_space:
  assumes "allocate (linux_create_platform_mapping env) sz p k = (r, p', k')" and "pool_inv p k"
    and good: "linux_good env k (kSharedBufferPayloadOffset + sz)"
  shows "space_grows k k' \<and> new_unpublished k k' \<and> next_oid k \<le> next_oid k' \<and> (\<forall>c < next_oid k. osize k' c = osize k c) \<and>
    (\<forall>i c. r = Inr i \<longrightarrow> i = length (all_blocks p) \<longrightarrow> control (all_blocks p' ! i) = Some c \<longrightarrow> next_oid k \<le> c) \<and>
    (\<forall>j < length (all_blocks p). control (all_blocks p' ! j) = control (all_blocks p ! j))"
proof (cases "sz = 0")
  case True
  with assms(1) show ?thesis by (auto simp: allocate_zero new_unpublished_def)
next
  case False
  obtain f k1 where cl: "claim_candidate p (bucket p sz) 0 k = (f, k1)" by (cases "claim_candidate p (bucket p sz) 0 k")
  note k1 = claim_candidate_space [OF cl]
  have fo: "free_ok {} p" using assms(2) by (simp add: pool_inv_def pool_inv_except_def)
  show ?thesis
  proof (cases f)
    case (Some j)
    let ?i = "bucket p sz ! j"
    obtain p2 k2 where rb: "reserve_block ?i (take_candidate sz (bucket p sz) j p) k1 = (p2, k2)"
      by (cases "reserve_block ?i (take_candidate sz (bucket p sz) j p) k1")
    with allocate_claimed [OF False cl [unfolded Some] rb] assms(1) have r: "r = Inr ?i" "p' = p2" "k' = k2" by simp_all
    have "\<forall>b \<in> set (bucket p sz). \<exists>c. control (all_blocks p ! b) = Some c"
      using free_ok_bucket [OF fo] pool_inv_block [OF assms(2)] block_ok_control by blast
    from claim_candidate_Some [OF cl [unfolded Some] this] have "?i \<in> set (bucket p sz)" by simp
    then have "?i < length (all_blocks p)" using free_ok_bucket [OF fo] by blast
    moreover have "new_unpublished k k1" using k1 by (simp add: new_unpublished_def same_layout_def)
    ultimately show ?thesis using r k1 reserve_block_space [OF rb] reserve_block_new [OF rb] reserve_block_control [OF rb]
      by (simp add: same_layout_def)
  next
    case None
    have good1: "linux_good env k1 (kSharedBufferPayloadOffset + sz)" using k1 good linux.good_layout by blast
    have inv1: "pool_inv p k1"
    proof -
      have "\<forall>b \<in> set (bucket p sz). \<exists>c. control (all_blocks p ! b) = Some c"
        using free_ok_bucket [OF fo] pool_inv_block [OF assms(2)] block_ok_control by blast
      from claim_candidate_None [OF cl [unfolded None] this] obtain m where "k1 = passed_time m k" by blast
      then show ?thesis using pool_inv_passed_time [OF assms(2)] by simp
    qed
    obtain r1 p1 k2 where cb: "create_block (linux_create_platform_mapping env) sz p k1 = (r1, p1, k2)" by (metis prod.exhaust)
    have new2: "new_unpublished k k2" using create_block_new [OF cb] k1 by (simp add: new_unpublished_def same_layout_def)
    show ?thesis
    proof (cases r1)
      case (Inl e)
      with allocate_not_created [OF False cl [unfolded None]] cb assms(1) have "r = Inl e" "k' = k2" "p' = p1" by auto
      with linux.create_block_failure [OF inv1 good1] cb Inl new2 k1 show ?thesis
        by (auto simp: objects_kept_def same_layout_def)
    next
      case (Inr i)
      obtain p2 k3 where rb: "reserve_block i p1 k2 = (p2, k3)" by (cases "reserve_block i p1 k2")
      with allocate_created [OF False cl [unfolded None]] cb Inr assms(1) have r: "r = Inr i" "p' = p2" "k' = k3" by auto
      have "0 < sz" using False by (simp add: word_gt_0)
      note cs = linux.create_block_success [OF inv1 good1 this cb [unfolded Inr]]
      then obtain b where b: "i = length (all_blocks p)" "all_blocks p1 = all_blocks p @ [b]" "control b = Some (next_oid k1)"
        "pool_inv_except {i} p1 k2" "objects_kept k1 k2" by blast
      have "control (all_blocks p2 ! i) = Some (next_oid k)"
        using reserve_block_inv [OF b(4) _ rb] b k1 by (simp add: same_layout_def)
      then show ?thesis
        using r reserve_block_space [OF rb] reserve_block_new [OF rb new2] create_block_space [OF cb [unfolded Inr] good1]
          reserve_block_control [OF rb] b k1
        by (auto simp: objects_kept_def same_layout_def space_grows_def nth_append)
    qed
  qed
qed

text \<open>Importing: the caches of all processes stay valid.\<close>

lemma linux_destroy_next:
  "next_oid (linux_destroy_platform_mapping h b sz k) = next_oid k \<and> osize (linux_destroy_platform_mapping h b sz k) = osize k"
  by (simp add: linux_destroy_platform_mapping_def Let_def)

lemma import_block_space:
  assumes "import_block (linux_import_platform_mapping ienv) linux_destroy_platform_mapping name pid blk msize psize uid cache k =
      (r, cache', k')"
    and "cache_ok cache k" and "linux_good_import ienv k msize"
  shows "space_grows k k' \<and> next_oid k' = next_oid k \<and> osize k' = osize k"
proof -
  let ?key = "\<lparr>key_pid = pid, key_block_id = blk, key_ipc_name = name\<rparr>"
  show ?thesis
  proof (cases "name = '''' \<or> msize < kSharedBufferPayloadOffset \<or> msize > - 1 \<or> cache ?key \<noteq> None")
    case True
    with assms(1) have "k' = k" by (auto simp: import_block_def split: sum.splits if_splits)
    then show ?thesis by simp
  next
    case False
    obtain r1 k1 where im: "linux_import_platform_mapping ienv name msize k = (r1, k1)"
      by (cases "linux_import_platform_mapping ienv name msize k")
    note o = linux_import.import_objects [OF im]
    show ?thesis
    proof (cases r)
      case (Inl e)
      with linux_import.import_block_failure [OF assms(1) [unfolded Inl] assms(2,3)] have "space_grows k k'" by simp
      moreover from assms(1) False im have "next_oid k' = next_oid k1 \<and> osize k' = osize k1"
        by (cases r1) (auto simp: import_block_def Let_def destroy_imported_def linux_destroy_next split: sum.splits)
      ultimately show ?thesis using o by simp
    next
      case (Inr b)
      with assms(1) False im obtain pm where "r1 = Inr pm" "k' = k1"
        by (cases r1) (auto simp: import_block_def Let_def split: sum.splits)
      with linux_import.import_success [OF im [unfolded \<open>r1 = Inr pm\<close>] assms(3)] o show ?thesis
        by (auto simp: space_grows_def range_free_def)
    qed
  qed
qed

lemma receive_space:
  assumes "receive_linux ienv type_name (Some d) cache k = (r, cache', k')"
    and "cache_ok cache k" and "linux_good_import ienv k (shared_buffer_block_size d)"
  shows "space_grows k k' \<and> next_oid k' = next_oid k \<and> osize k' = osize k"
proof (cases "k' = k")
  case True
  then show ?thesis by simp
next
  case False
  let ?imp = "import_block (linux_import_platform_mapping ienv) linux_destroy_platform_mapping (shared_buffer_socket_path d)
    (shared_buffer_pid d) (shared_buffer_block_id d) (shared_buffer_block_size d) (desc_size d) (desc_ipc_uid d) cache k"
  obtain r1 cache1 k1 where im: "?imp = (r1, cache1, k1)" by (metis prod.exhaust)
  from assms(1) False im have "vm k' = vm k1 \<and> fds k' = fds k1 \<and> next_oid k' = next_oid k1 \<and> osize k' = osize k1"
    by (auto simp: from_descriptor_with_endpoint_def acquire_reader_def release_reader_def
        split: if_splits sum.splits option.splits prod.splits)
  with import_block_space [OF im assms(2,3)] show ?thesis by (simp add: space_grows_def)
qed

text \<open>Registering a block opens two descriptors at most.\<close>

lemma linux_register_fds:
  assumes "linux_register_block env b br k = (r, b', br', k')" and "broker_good env k" and "fds k x \<noteq> None"
  shows "fds k' x \<noteq> None"
proof -
  from assms(2,3) have x: "x \<noteq> server_result env" "x \<noteq> dup_result env" by (auto simp: broker_good_def)
  have s: "fds k2 x = fds k1 x" "s < 0 \<or> s = server_result env"
    if "create_fd_server_socket env path k1 = (s, k2)" for path k1 s k2
    using that x by (auto simp: create_fd_server_socket_def Let_def sys_unlink_def sys_open_socket_def split: if_splits)
  have a: "fds k2 x = fds k1 x" if "add_socket env s fd d k1 = (ok, d', k2)" for s fd d k1 ok d' k2
    using that x by (auto simp: add_socket_def sys_dup_def Let_def sys_open_object_def
        split: if_splits option.splits fd_entry.splits)
  have "fds k' x = fds k x"
  proof (cases "\<exists>d. dispatcher br = Some d \<and> \<not> native_handle b < 0 \<and> map_of (registered_blocks br) (block_id b) = None")
    case False
    with assms(1) show ?thesis by (auto simp: linux_register_block_def split: if_splits option.splits)
  next
    case True
    then obtain d where d: "dispatcher br = Some d" "\<not> native_handle b < 0" "map_of (registered_blocks br) (block_id b) = None"
      by blast
    let ?path = "broker_path env (block_id b) (native_handle b)"
    obtain t k1 where cs: "create_fd_server_socket env ?path k = (t, k1)" by (cases "create_fd_server_socket env ?path k")
    obtain ok d1 k2 where as: "add_socket env t (native_handle b) d k1 = (ok, d1, k2)"
      by (cases "add_socket env t (native_handle b) d k1")
    from assms(1) d cs as have "t < 0 \<and> k' = sys_unlink ?path k1 \<or> \<not> t < 0 \<and> k' \<in> {k2, sys_unlink ?path (sys_close t k2)}"
      by (auto simp: linux_register_block_def Let_def split: if_splits)
    with s [OF cs] a [OF as] x show ?thesis by (auto simp: sys_unlink_def)
  qed
  with assms(3) show ?thesis by simp
qed

end
