(* ===== verification/Transport_Inv.thy ===== *)
theory Transport_Inv
  imports Transport
begin

text \<open>
  The invariant of the transport.  A world moves \<open>calmly\<close> when the objects keep their bytes and
  their UIDs, mappings are only added and no local state is reopened.  The invariant takes the
  number of leases per object as an argument; it is kept by calm moves that account for the
  leases, and by changes of the registries.
\<close>

section \<open>Calm moves\<close>

definition calm :: "'b world \<Rightarrow> 'b world \<Rightarrow> bool" where
  "calm w w' \<longleftrightarrow>
     length (all_blocks (pool w')) = length (all_blocks (pool w)) \<and>
     (\<forall>i < length (all_blocks (pool w)). \<exists>p. all_blocks (pool w') ! i = (all_blocks (pool w) ! i)\<lparr>socket_path := p\<rparr>) \<and>
     space_grows (kern w) (kern w') \<and> next_oid (kern w') = next_oid (kern w) \<and>
     (\<forall>c < next_oid (kern w). osize (kern w') c = osize (kern w) c \<and> pay (kern w') c = pay (kern w) c \<and>
        magic (hdr (kern w') c) = magic (hdr (kern w) c) \<and> abi_version (hdr (kern w') c) = abi_version (hdr (kern w) c) \<and>
        payload_size (hdr (kern w') c) = payload_size (hdr (kern w) c) \<and> ipc_uid (hdr (kern w') c) = ipc_uid (hdr (kern w) c)) \<and>
     next_state w \<le> next_state w' \<and>
     (\<forall>t < next_state w. (access (states w t) = Finalized \<longrightarrow> access (states w' t) = Finalized) \<and>
        (access (states w t) \<noteq> Unset \<longrightarrow> access (states w' t) \<noteq> Unset))"

lemma calm_refl [simp]: "calm w w"
  by (simp add: calm_def block_socket_path_self)

lemma calm_trans [trans]: "calm w w1 \<Longrightarrow> calm w1 w2 \<Longrightarrow> calm w w2"
proof -
  assume a: "calm w w1" and b: "calm w1 w2"
  have "\<exists>p. all_blocks (pool w2) ! i = (all_blocks (pool w) ! i)\<lparr>socket_path := p\<rparr>" if i: "i < length (all_blocks (pool w))" for i
  proof -
    from a i obtain p where p: "all_blocks (pool w1) ! i = (all_blocks (pool w) ! i)\<lparr>socket_path := p\<rparr>" by (auto simp: calm_def)
    moreover from a b i obtain q where "all_blocks (pool w2) ! i = (all_blocks (pool w1) ! i)\<lparr>socket_path := q\<rparr>"
      by (auto simp: calm_def)
    ultimately show ?thesis by auto
  qed
  moreover have "space_grows (kern w) (kern w2)" using a b by (auto simp: calm_def intro: space_grows_trans)
  ultimately show "calm w w2" using a b by (simp add: calm_def)
qed

lemma calm_block:
  assumes "calm w w'" and "i < length (all_blocks (pool w))"
  shows "i < length (all_blocks (pool w'))" "control (all_blocks (pool w') ! i) = control (all_blocks (pool w) ! i)"
    "current_uid (all_blocks (pool w') ! i) = current_uid (all_blocks (pool w) ! i)"
    "mapping (all_blocks (pool w') ! i) = mapping (all_blocks (pool w) ! i)"
    "in_use (all_blocks (pool w') ! i) = in_use (all_blocks (pool w) ! i)"
    "block_payload_size (all_blocks (pool w') ! i) = block_payload_size (all_blocks (pool w) ! i)"
proof -
  from assms obtain p where "all_blocks (pool w') ! i = (all_blocks (pool w) ! i)\<lparr>socket_path := p\<rparr>"
    by (auto simp: calm_def)
  then show "control (all_blocks (pool w') ! i) = control (all_blocks (pool w) ! i)"
    "current_uid (all_blocks (pool w') ! i) = current_uid (all_blocks (pool w) ! i)"
    "mapping (all_blocks (pool w') ! i) = mapping (all_blocks (pool w) ! i)"
    "in_use (all_blocks (pool w') ! i) = in_use (all_blocks (pool w) ! i)"
    "block_payload_size (all_blocks (pool w') ! i) = block_payload_size (all_blocks (pool w) ! i)" by simp_all
  show "i < length (all_blocks (pool w'))" using assms by (simp add: calm_def)
qed

lemma calm_length: "calm w w' \<Longrightarrow> length (all_blocks (pool w')) = length (all_blocks (pool w))"
  by (simp add: calm_def)

lemma calm_states:
  assumes "kern w' = kern w" and "pool w' = pool w" and "next_state w \<le> next_state w'"
    and "\<And>t. t < next_state w \<Longrightarrow> access (states w t) = Finalized \<Longrightarrow> access (states w' t) = Finalized"
    and "\<And>t. t < next_state w \<Longrightarrow> access (states w t) \<noteq> Unset \<Longrightarrow> access (states w' t) \<noteq> Unset"
  shows "calm w w'"
  using assms by (simp add: calm_def block_socket_path_self)

lemma calm_header:
  assumes "kern w' = (kern w)\<lparr>hdr := m, clock := cl\<rparr>" and "pool w' = pool w" and "states w' = states w" "next_state w' = next_state w"
    and "\<And>c. magic (m c) = magic (hdr (kern w) c) \<and> abi_version (m c) = abi_version (hdr (kern w) c) \<and>
      payload_size (m c) = payload_size (hdr (kern w) c) \<and> ipc_uid (m c) = ipc_uid (hdr (kern w) c)"
  shows "calm w w'"
  using assms by (simp add: calm_def block_socket_path_self)

lemma calm_ensure_state:
  assumes "ensure_state sb w = (t, sb', w')"
  shows "calm w w'"
  using ensure_state_cases [OF assms] by (intro calm_states) (auto split: option.splits)

lemma calm_update_state:
  "(\<And>h. access h = Finalized \<Longrightarrow> access (f h) = Finalized) \<Longrightarrow> (\<And>h. access h \<noteq> Unset \<Longrightarrow> access (f h) \<noteq> Unset) \<Longrightarrow>
   calm w (update_state t f w)"
  by (intro calm_states) (auto simp: buffer_simps)

lemma calm_drop_lease: "calm w (drop_lease l w)"
  by (rule calm_header [where m = "release_shared_buffer_reader l (hdr (kern w))" and cl = "clock (kern w)"])
    (simp_all add: drop_lease_def)

lemma calm_make_lease:
  assumes "make_lease l w = (r, w')"
  shows "calm w w'"
proof (cases l)
  case None
  with assms show ?thesis by simp
next
  case (Some c)
  have "calm w (w\<lparr>kern := (kern w)\<lparr>hdr := snd (try_acquire_shared_buffer_reader (Some c) (hdr (kern w)))\<rparr>\<rparr>)"
    by (rule calm_header [where m = "snd (try_acquire_shared_buffer_reader (Some c) (hdr (kern w)))" and cl = "clock (kern w)"])
      simp_all
  with assms Some show ?thesis by (auto simp: make_lease_Some split: if_splits)
qed

lemma calm_finalize: "calm w (finalize_write_handle sb w)"
  by (auto simp: finalize_write_handle_def intro!: calm_update_state split: option.splits if_splits)

lemma calm_refresh: "calm w (w\<lparr>kern := refresh_publish_timestamp (Some c) (kern w)\<rparr>)"
  by (rule calm_header [where cl = "\<lambda>n. clock (kern w) (Suc n)" and
        m = "(hdr (kern w))(c := (hdr (kern w) c)\<lparr>publish_timestamp_us := clock (kern w) 0\<rparr>)"])
    (auto simp: refresh_publish_timestamp_def monotonic_time_us_def update_control_def)

lemma owns_calm: "owns sb i w \<Longrightarrow> calm w w' \<Longrightarrow> pool_inv (pool w') (kern w') \<Longrightarrow> owns sb i w'"
  using calm_block [of w w' i] by (simp add: owns_def)

lemma calm_object: "calm w w' \<Longrightarrow> object_at (kern w) a = Some c \<Longrightarrow> object_at (kern w') a = Some c"
  by (simp add: calm_def object_at_def space_grows_def)

section \<open>The invariant\<close>

definition is_block :: "oid \<Rightarrow> 'b world \<Rightarrow> bool" where
  "is_block c w \<longleftrightarrow> (\<exists>i < length (all_blocks (pool w)). control (all_blocks (pool w) ! i) = Some c)"

definition buffer_ok :: "SharedBufferImpl \<Rightarrow> 'b world \<Rightarrow> bool" where
  "buffer_ok im w \<longleftrightarrow> (\<exists>i. owns (impl_buffer im) i w) \<and> ipc_pid (impl_buffer im) = 0 \<and>
     (\<forall>t. handle_state (impl_buffer im) = Some t \<longrightarrow> t < next_state w)"

definition writer_ok :: "WriteHandle \<Rightarrow> SharedBufferImpl \<Rightarrow> 'b world \<Rightarrow> bool" where
  "writer_ok wh im w \<longleftrightarrow> write_ptr wh = data_ptr (impl_buffer im) \<and> write_promoted wh = None \<and>
     (\<exists>t. write_state wh = Some t \<and> handle_state (impl_buffer im) = Some t \<and> access (states w t) \<noteq> Unset)"

text \<open>A pointer into the object \<open>c\<close>, which still carries the UID of the descriptor.\<close>

definition source_ok :: "SharedBufferDescriptor \<Rightarrow> u64 \<Rightarrow> oid \<Rightarrow> 'b world \<Rightarrow> bool" where
  "source_ok d ptr c w \<longleftrightarrow> object_at (kern w) ptr = Some c \<and> desc_ipc_uid d \<noteq> 0 \<and>
     ipc_uid (hdr (kern w) c) = desc_ipc_uid d \<and> payload_size (hdr (kern w) c) = desc_size d"

definition received_ok :: "SharedBufferDescriptor \<times> SharedBufferImpl \<Rightarrow> 'b world \<Rightarrow> bool" where
  "received_ok x w \<longleftrightarrow> (\<exists>d im c. x = (d, im) \<and> buffer_control (impl_buffer im) = Some c \<and> is_block c w \<and>
     source_ok d (data_ptr (impl_buffer im)) c w \<and> data_ptr (impl_buffer im) \<noteq> 0 \<and>
     deleter (impl_buffer im) = Release_reader (Some c) \<and> held_reader_lease (impl_buffer im) = None \<and>
     buffer_size (impl_buffer im) = desc_size d \<and> has_ipc_descriptor (impl_buffer im))"

definition reader_ok :: "SharedBufferDescriptor option \<times> ReadHandle \<Rightarrow> 'b world \<Rightarrow> bool" where
  "reader_ok x w \<longleftrightarrow> (\<exists>dd rh c. x = (dd, rh) \<and> reader_lease rh = Some c \<and> is_block c w \<and> read_promoted rh = None \<and>
     (\<forall>d. dd = Some d \<longrightarrow> source_ok d (read_ptr rh) c w))"

text \<open>Every lease in every header belongs to somebody.\<close>

definition leases_on :: "transport \<Rightarrow> oid \<Rightarrow> nat" where
  "leases_on s c = size {# x \<in># received s. buffer_control (impl_buffer (snd x)) = Some c #} +
     size {# x \<in># readers s. reader_lease (snd x) = Some c #} + count (lost s) (Some c)"

definition counts_ok :: "(oid \<Rightarrow> nat) \<Rightarrow> 'b world \<Rightarrow> bool" where
  "counts_ok L w \<longleftrightarrow> (\<forall>c. is_block c w \<longrightarrow> reader_lock_of (reader_state (hdr (kern w) c)) = Readers (L c))"

text \<open>
  A header with a UID belongs to a block of that generation, and the UID was published.  No two
  blocks are of the same generation.
\<close>

definition generations_ok :: "(u64 \<Rightarrow> (u8 list \<times> bool) option) \<Rightarrow> 'b world \<Rightarrow> bool" where
  "generations_ok h w \<longleftrightarrow>
     (\<forall>i < length (all_blocks (pool w)). current_uid (all_blocks (pool w) ! i) \<noteq> 0 \<and>
        (\<forall>j < length (all_blocks (pool w)). current_uid (all_blocks (pool w) ! i) = current_uid (all_blocks (pool w) ! j) \<longrightarrow> i = j)) \<and>
     (\<forall>c < next_oid (kern w). ipc_uid (hdr (kern w) c) \<noteq> 0 \<longrightarrow> h (ipc_uid (hdr (kern w) c)) \<noteq> None \<and>
        (\<exists>i < length (all_blocks (pool w)). control (all_blocks (pool w) ! i) = Some c \<and>
           current_uid (all_blocks (pool w) ! i) = ipc_uid (hdr (kern w) c)))"

text \<open>A sealed generation keeps its bytes, and nobody can write them any more.\<close>

definition seals_ok ::
  "(nat \<Rightarrow> SharedBufferImpl option) \<Rightarrow> (nat \<Rightarrow> WriteHandle option) \<Rightarrow> (u64 \<Rightarrow> (u8 list \<times> bool) option) \<Rightarrow> 'b world \<Rightarrow> bool" where
  "seals_ok bufs ws h w \<longleftrightarrow>
     (\<forall>i < length (all_blocks (pool w)). \<forall>bytes c. h (current_uid (all_blocks (pool w) ! i)) = Some (bytes, True) \<longrightarrow>
        control (all_blocks (pool w) ! i) = Some c \<longrightarrow> pay (kern w) c = bytes \<and>
        (\<forall>x im. bufs x = Some im \<longrightarrow> deleter (impl_buffer im) = Free_block (Some i) \<longrightarrow>
           ws x = None \<and> is_finalized (impl_buffer im) w))"

definition separate :: "(nat \<Rightarrow> SharedBufferImpl option) \<Rightarrow> bool" where
  "separate bufs \<longleftrightarrow> (\<forall>x y im im'. bufs x = Some im \<longrightarrow> bufs y = Some im' \<longrightarrow>
     deleter (impl_buffer im) = deleter (impl_buffer im') \<longrightarrow> x = y)"

definition transport_inv :: "(oid \<Rightarrow> nat) \<Rightarrow> transport \<Rightarrow> bool" where
  "transport_inv L s \<longleftrightarrow> pool_inv (pool (node s)) (kern (node s)) \<and> (\<forall>q. cache_ok (caches s q) (kern (node s))) \<and>
     (\<forall>x im. buffers s x = Some im \<longrightarrow> buffer_ok im (node s)) \<and> separate (buffers s) \<and>
     (\<forall>x wh. writers s x = Some wh \<longrightarrow> (\<exists>im. buffers s x = Some im \<and> writer_ok wh im (node s))) \<and>
     (\<forall>x \<in># received s. received_ok x (node s)) \<and> (\<forall>x \<in># readers s. reader_ok x (node s)) \<and>
     counts_ok L (node s) \<and> generations_ok (history s) (node s) \<and>
     seals_ok (buffers s) (writers s) (history s) (node s) \<and> (\<forall>c. Some c \<in># lost s \<longrightarrow> is_block c (node s))"

lemma transport_invD:
  assumes "transport_inv L s"
  shows "pool_inv (pool (node s)) (kern (node s))" "cache_ok (caches s q) (kern (node s))"
    "buffers s x = Some im \<Longrightarrow> buffer_ok im (node s)" "separate (buffers s)"
    "writers s x = Some wh \<Longrightarrow> \<exists>im. buffers s x = Some im \<and> writer_ok wh im (node s)"
    "y \<in># received s \<Longrightarrow> received_ok y (node s)" "z \<in># readers s \<Longrightarrow> reader_ok z (node s)"
    "counts_ok L (node s)" "generations_ok (history s) (node s)" "seals_ok (buffers s) (writers s) (history s) (node s)"
    "Some c \<in># lost s \<Longrightarrow> is_block c (node s)"
  using assms by (simp_all add: transport_inv_def)

lemma is_block_object: "pool_inv (pool w) (kern w) \<Longrightarrow> is_block c w \<Longrightarrow> c < next_oid (kern w)"
  using pool_inv_block by (fastforce simp: is_block_def block_ok_def)

lemma calm_is_block: "calm w w' \<Longrightarrow> is_block c w' = is_block c w"
  using calm_block [of w w'] by (auto simp: is_block_def calm_length)

lemma calm_source: "calm w w' \<Longrightarrow> c < next_oid (kern w) \<Longrightarrow> source_ok d a c w \<Longrightarrow> source_ok d a c w'"
  using calm_object [of w w' a c] by (simp add: source_ok_def) (simp add: calm_def)

text \<open>A calm move that only touches headers keeps the pool's invariant if no block ends up claimed.\<close>

lemma pool_inv_calm:
  assumes "calm w w'" and "pool w' = pool w" and "pool_inv (pool w) (kern w)" and "counts_ok L w'"
  shows "pool_inv (pool w') (kern w')"
proof -
  have "block_ok (kern w') b" if "block_ok (kern w) b" for b
    using that assms(1) by (auto simp: block_ok_def calm_def space_grows_def split: option.splits)
  moreover have "block_lock (kern w') (all_blocks (pool w) ! i) \<noteq> Claimed" if "i < length (all_blocks (pool w))" for i
  proof -
    from pool_inv_block [OF assms(3) that] obtain c where c: "control (all_blocks (pool w) ! i) = Some c"
      using block_ok_control by blast
    with that assms(2) have "is_block c w'" by (auto simp: is_block_def)
    with assms(4) c show ?thesis by (simp add: counts_ok_def block_lock_def)
  qed
  ultimately show ?thesis using assms(2,3) by (simp add: pool_inv_def pool_inv_except_def)
qed

lemma calm_inv:
  assumes inv: "transport_inv L s" and calm: "calm (node s) w'" and p: "pool_inv (pool w') (kern w')" and L: "counts_ok L' w'"
  shows "transport_inv L' (s\<lparr>node := w'\<rparr>)"
proof -
  let ?w = "node s"
  note invD = transport_invD [OF inv]
  have ob: "c < next_oid (kern ?w)" if "is_block c ?w" for c using that is_block_object [OF invD(1)] by blast
  have n: "next_oid (kern w') = next_oid (kern ?w)" and st: "next_state ?w \<le> next_state w'"
    using calm by (simp_all add: calm_def)
  have "cache_ok (caches s q) (kern w')" for q
    using calm by (intro cache_ok_grows [OF invD(2)]) (simp_all add: calm_def)
  moreover have buf: "buffer_ok im w'" if "buffers s x = Some im" for x im
    using invD(3) [OF that] owns_calm [OF _ calm p] st unfolding buffer_ok_def by (meson order_less_le_trans)
  moreover have "writer_ok wh im w'" if "buffers s x = Some im" "writer_ok wh im ?w" for x im wh
    using invD(3) [OF that(1)] that(2) calm unfolding buffer_ok_def writer_ok_def calm_def by metis
  then have "\<forall>x wh. writers s x = Some wh \<longrightarrow> (\<exists>im. buffers s x = Some im \<and> writer_ok wh im w')"
    using invD(5) by blast
  moreover have "received_ok x w'" if "received_ok x ?w" for x
    using that ob calm_source [OF calm] calm_is_block [OF calm] unfolding received_ok_def by metis
  moreover have "reader_ok x w'" if "reader_ok x ?w" for x
    using that ob calm_source [OF calm] calm_is_block [OF calm] unfolding reader_ok_def by metis
  moreover have "generations_ok (history s) w'"
  proof -
    have u: "ipc_uid (hdr (kern w') c) = ipc_uid (hdr (kern ?w) c)" if "c < next_oid (kern ?w)" for c
      using calm that by (simp add: calm_def)
    show ?thesis using invD(9)
      u calm_block(2,3) [OF calm] by (simp add: generations_ok_def calm_length [OF calm] n) metis
  qed
  moreover have "seals_ok (buffers s) (writers s) (history s) w'"
  proof -
    have "is_finalized (impl_buffer im) w'" if "buffers s x = Some im" "is_finalized (impl_buffer im) ?w" for x im
      using invD(3) [OF that(1)] that(2) calm by (auto simp: buffer_ok_def is_finalized_def calm_def split: option.splits)
    moreover have "pay (kern w') c = pay (kern ?w) c" if "i < length (all_blocks (pool ?w))" "control (all_blocks (pool ?w) ! i) = Some c" for i c
      using that ob [of c] calm by (auto simp: is_block_def calm_def)
    ultimately show ?thesis
      using invD(10) calm_block [OF calm] unfolding seals_ok_def calm_length [OF calm] by metis
  qed
  moreover have "\<forall>c. Some c \<in># lost s \<longrightarrow> is_block c w'" using invD(11) calm_is_block [OF calm] by simp
  ultimately show ?thesis using invD p L by (simp add: transport_inv_def)
qed

section \<open>Leases taken and given back\<close>

lemma counts_hdr:
  assumes "counts_ok L w" and "pool w' = pool w" and "hdr (kern w') = hdr (kern w)"
  shows "counts_ok L w'"
  using assms by (simp add: counts_ok_def is_block_def)

lemma counts_acquired:
  assumes "counts_ok L w" and "pool w' = pool w" and "hdr (kern w') = snd (try_acquire_shared_buffer_reader (Some c) (hdr (kern w)))"
    and "fst (try_acquire_shared_buffer_reader (Some c) (hdr (kern w)))"
  shows "counts_ok (L(c := Suc (L c))) w'"
proof -
  have "reader_lock_of (reader_state (hdr (kern w') c)) = Readers (Suc (L c))" if "is_block c w"
  proof -
    have l: "reader_lock_of (reader_state (hdr (kern w) c)) = Readers (L c)" using assms(1) that by (simp add: counts_ok_def)
    with assms(4) header.acquire_iff [of c "hdr (kern w)"] have "L c < max_readers" by auto
    from header.acquired [of "hdr (kern w)" c, OF l this] show ?thesis by (simp add: assms(3))
  qed
  then show ?thesis using assms(1-3) by (auto simp: counts_ok_def is_block_def)
qed

lemma counts_released:
  assumes "counts_ok L w" and "L c = Suc n" and "pool w' = pool w"
    and "hdr (kern w') = release_shared_buffer_reader (Some c) (hdr (kern w))"
  shows "counts_ok (L(c := n)) w'"
proof -
  have "reader_lock_of (reader_state (hdr (kern w') c)) = Readers n" if "is_block c w"
    using assms(1,2) that header.release_reader [of "hdr (kern w)" c n] by (simp add: counts_ok_def assms(4))
  then show ?thesis using assms by (auto simp: counts_ok_def is_block_def)
qed

lemma leases_on_received:
  "buffer_control (impl_buffer (snd x)) = Some c \<Longrightarrow>
   leases_on (s\<lparr>received := add_mset x m\<rparr>) = (leases_on (s\<lparr>received := m\<rparr>))(c := Suc (leases_on (s\<lparr>received := m\<rparr>) c))"
  by (rule ext) (auto simp: leases_on_def)

lemma leases_on_readers:
  "reader_lease (snd x) = Some c \<Longrightarrow>
   leases_on (s\<lparr>readers := add_mset x m\<rparr>) = (leases_on (s\<lparr>readers := m\<rparr>))(c := Suc (leases_on (s\<lparr>readers := m\<rparr>) c))"
  by (rule ext) (auto simp: leases_on_def)

lemma leases_on_frame [simp]:
  "leases_on (s\<lparr>node := w\<rparr>) = leases_on s" "leases_on (s\<lparr>buffers := b\<rparr>) = leases_on s"
  "leases_on (s\<lparr>writers := ws\<rparr>) = leases_on s" "leases_on (s\<lparr>caches := cs\<rparr>) = leases_on s"
  "leases_on (s\<lparr>history := h\<rparr>) = leases_on s"
  by (simp_all add: leases_on_def fun_eq_iff)

section \<open>Changes of the registries\<close>

lemma inv_received:
  assumes "transport_inv L s" and "\<And>x. x \<in># m \<Longrightarrow> x \<in># received s \<or> received_ok x (node s)"
  shows "transport_inv L (s\<lparr>received := m\<rparr>)"
proof -
  have "\<forall>x \<in># m. received_ok x (node s)" using assms transport_invD(6) [OF assms(1)] by blast
  then show ?thesis using assms(1) by (simp add: transport_inv_def)
qed

lemma inv_readers:
  assumes "transport_inv L s" and "\<And>x. x \<in># m \<Longrightarrow> x \<in># readers s \<or> reader_ok x (node s)"
  shows "transport_inv L (s\<lparr>readers := m\<rparr>)"
proof -
  have "\<forall>x \<in># m. reader_ok x (node s)" using assms transport_invD(7) [OF assms(1)] by blast
  then show ?thesis using assms(1) by (simp add: transport_inv_def)
qed

lemma inv_caches:
  assumes "transport_inv L s" and "cache_ok cache (kern (node s))"
  shows "transport_inv L (s\<lparr>caches := (caches s)(q := cache)\<rparr>)"
  using assms by (auto simp: transport_inv_def)

text \<open>The first handle gives a buffer its \<^verbatim>\<open>HandleState\<close>.\<close>

definition opens_state :: "SharedBuffer \<Rightarrow> SharedBuffer \<Rightarrow> 'b world \<Rightarrow> bool" where
  "opens_state sb sb' w \<longleftrightarrow> sb' = sb \<or> handle_state sb = None \<and> (\<exists>t < next_state w. sb' = sb\<lparr>handle_state := Some t\<rparr>)"

lemma opens_ensure_state:
  assumes "ensure_state sb w = (t, sb', w')" and "next_state w' \<le> next_state w''"
  shows "opens_state sb sb' w''"
proof (cases "handle_state sb")
  case None
  with ensure_state_cases [OF assms(1)] assms(2) have "sb' = sb\<lparr>handle_state := Some t\<rparr>" "t < next_state w''" by simp_all
  with None show ?thesis unfolding opens_state_def by blast
next
  case (Some u)
  with ensure_state_cases [OF assms(1)] have "sb' = sb" by (cases sb) simp
  then show ?thesis by (simp add: opens_state_def)
qed

lemma inv_buffer_state:
  assumes inv: "transport_inv L s" and x: "buffers s x = Some im" and st: "opens_state (impl_buffer im) sb (node s)"
  shows "transport_inv L (s\<lparr>buffers := (buffers s)(x \<mapsto> im\<lparr>impl_buffer := sb\<rparr>)\<rparr>)"
proof (cases "sb = impl_buffer im")
  case True
  then have "im\<lparr>impl_buffer := sb\<rparr> = im" by simp
  with x inv show ?thesis by (simp add: fun_upd_idem)
next
  case False
  with st obtain t where t: "handle_state (impl_buffer im) = None" "t < next_state (node s)"
    "sb = (impl_buffer im)\<lparr>handle_state := Some t\<rparr>" by (auto simp: opens_state_def)
  note invD = transport_invD [OF inv]
  let ?im = "im\<lparr>impl_buffer := sb\<rparr>" and ?b = "(buffers s)(x \<mapsto> im\<lparr>impl_buffer := sb\<rparr>)"
  have w: "writers s x = None"
  proof (rule ccontr)
    assume "writers s x \<noteq> None"
    then obtain wh where "writers s x = Some wh" by auto
    with invD(5) x t(1) show False by (fastforce simp: writer_ok_def)
  qed
  have "buffer_ok ?im (node s)" using invD(3) [OF x] t by (simp add: buffer_ok_def)
  then have "\<forall>y i. ?b y = Some i \<longrightarrow> buffer_ok i (node s)" using invD(3) by simp
  moreover have "separate ?b"
  proof -
    have "\<exists>i'. buffers s y = Some i' \<and> deleter (impl_buffer i) = deleter (impl_buffer i')" if "?b y = Some i" for y i
      using that x t(3) by (cases "y = x") auto
    with invD(4) show ?thesis unfolding separate_def by metis
  qed
  moreover have "\<forall>y wh. writers s y = Some wh \<longrightarrow> (\<exists>i. ?b y = Some i \<and> writer_ok wh i (node s))"
    using invD(5) w by (metis fun_upd_apply option.distinct(1))
  moreover have "seals_ok ?b (writers s) (history s) (node s)"
  proof -
    have "\<not> is_finalized (impl_buffer im) (node s)" using t(1) by (simp add: is_finalized_def)
    moreover have "deleter sb = deleter (impl_buffer im)" by (simp add: t(3))
    ultimately show ?thesis using invD(10) x unfolding seals_ok_def by (auto split: if_splits)
  qed
  ultimately show ?thesis using inv by (simp add: transport_inv_def)
qed

lemma inv_add_writer:
  assumes inv: "transport_inv L s" and x: "buffers s x = Some im" and wh: "writer_ok wh im (node s)"
    and unsealed: "\<not> is_finalized (impl_buffer im) (node s)"
  shows "transport_inv L (s\<lparr>writers := (writers s)(x \<mapsto> wh)\<rparr>)"
proof -
  have "seals_ok (buffers s) ((writers s)(x \<mapsto> wh)) (history s) (node s)"
    using transport_invD(10) [OF inv] x unsealed unfolding seals_ok_def by (auto split: if_splits)
  then show ?thesis using inv x wh by (auto simp: transport_inv_def)
qed

lemma inv_remove_writer:
  assumes inv: "transport_inv L s"
  shows "transport_inv L (s\<lparr>writers := (writers s)(x := None)\<rparr>)"
proof -
  have "seals_ok (buffers s) ((writers s)(x := None)) (history s) (node s)"
    using transport_invD(10) [OF inv] unfolding seals_ok_def by auto
  then show ?thesis using inv by (auto simp: transport_inv_def)
qed

end
