(* ===== verification/Transport_Correct.thy ===== *)
theory Transport_Correct
  imports Transport_Inv
begin

text \<open>
  Every single call keeps the invariant.  Most calls move calmly and differ only in the leases
  they take or give back, so they are one lemma each; allocation, stores, publication and
  destruction are treated on their own.
\<close>

section \<open>Operations that move calmly\<close>

lemma get_read_handle_calm:
  assumes "get_read_handle sb w = (r, sb', w')"
  shows "calm w w' \<and> pool w' = pool w \<and> opens_state sb sb' w' \<and> (case r of
      Inl e \<Rightarrow> hdr (kern w') = hdr (kern w)
    | Inr rh \<Rightarrow> reader_lease rh = buffer_control sb \<and> read_ptr rh = data_ptr sb \<and> read_promoted rh = None \<and>
        (\<forall>c. buffer_control sb = Some c \<longrightarrow> fst (try_acquire_shared_buffer_reader (Some c) (hdr (kern w))) \<and>
           hdr (kern w') = snd (try_acquire_shared_buffer_reader (Some c) (hdr (kern w)))))"
proof (cases r)
  case (Inl e)
  from get_read_handle_failure [OF assms [unfolded Inl]] obtain t where t: "ensure_state sb w = (t, sb', w')" by blast
  with ensure_state_cases [OF t] calm_ensure_state [OF t] opens_ensure_state [OF t order_refl] Inl show ?thesis by simp
next
  case (Inr rh)
  from get_read_handle_success [OF assms [unfolded Inr]] obtain t w1 where t: "ensure_state sb w = (t, sb', w1)"
    "make_lease (buffer_control sb') (update_state t (\<lambda>h. h\<lparr>active_readers := active_readers h + 1\<rparr>) w1) = (Inr (reader_lease rh), w')"
    "read_ptr rh = data_ptr sb'" "read_promoted rh = None" by blast
  note e = ensure_state_cases [OF t(1)] and m = make_lease_cases [OF t(2)]
  have "calm w w1" by (rule calm_ensure_state [OF t(1)])
  also have "calm w1 (update_state t (\<lambda>h. h\<lparr>active_readers := active_readers h + 1\<rparr>) w1)" by (rule calm_update_state) auto
  also have "calm \<dots> w'" by (rule calm_make_lease [OF t(2)])
  finally have "calm w w'" .
  moreover have "opens_state sb sb' w'" using m by (intro opens_ensure_state [OF t(1)]) (simp add: buffer_simps)
  moreover have "fst (try_acquire_shared_buffer_reader (Some c) (hdr (kern w))) \<and>
      hdr (kern w') = snd (try_acquire_shared_buffer_reader (Some c) (hdr (kern w)))" if "buffer_control sb = Some c" for c
    using t(2) e that by (auto simp: make_lease_Some buffer_simps split: if_splits)
  ultimately show ?thesis using e m t(3,4) Inr by (simp add: buffer_simps)
qed

lemma from_input_shared:
  assumes "from_input_buffer create esz (Shared_impl im) w = (r, Shared_impl im', w')"
  shows "(\<exists>sb. get_read_handle (impl_buffer im) w = (r, sb, w') \<and> im' = im\<lparr>impl_buffer := sb\<rparr>) \<or>
    (\<exists>e. r = Inl e) \<and> im' = im \<and> w' = w"
  using assms by (auto simp: from_input_buffer_def split: if_splits prod.splits)

lemma get_write_handle_calm:
  assumes "get_write_handle sb w = (r, sb', w')"
  shows "calm w w' \<and> pool w' = pool w \<and> kern w' = kern w \<and> opens_state sb sb' w' \<and> (case r of
      Inl e \<Rightarrow> True
    | Inr wh \<Rightarrow> writer_ok wh (im\<lparr>impl_buffer := sb'\<rparr>) w' \<and> \<not> is_finalized sb' w')"
proof (cases r)
  case (Inl e)
  from get_write_handle_failure [OF assms [unfolded Inl]] consider "sb' = sb" "w' = w" | t where "ensure_state sb w = (t, sb', w')"
    by blast
  then show ?thesis
  proof cases
    case 1
    with Inl show ?thesis by (simp add: opens_state_def)
  next
    case (2 t)
    with ensure_state_cases [OF 2] calm_ensure_state [OF 2] opens_ensure_state [OF 2 order_refl] Inl show ?thesis by simp
  qed
next
  case (Inr wh)
  from get_write_handle_success [OF assms [unfolded Inr]] obtain t w1 where t: "ensure_state sb w = (t, sb', w1)"
    "access (states w1 t) = Unset" "w' = update_state t (\<lambda>h. h\<lparr>access := InUse\<rparr>) w1"
    "write_ptr wh = data_ptr sb'" "write_state wh = Some t" "write_promoted wh = None" by blast
  note e = ensure_state_cases [OF t(1)]
  have "calm w w1" by (rule calm_ensure_state [OF t(1)])
  also have "calm w1 w'" unfolding t(3) using t(2) by (intro calm_states) (auto simp: buffer_simps)
  finally have "calm w w'" .
  moreover have "opens_state sb sb' w'" by (rule opens_ensure_state [OF t(1)]) (simp add: t(3) buffer_simps)
  moreover have "handle_state sb' = Some t" "access (states w' t) = InUse" using e t(3) by (simp_all add: buffer_simps)
  ultimately show ?thesis using e t Inr by (simp add: writer_ok_def is_finalized_def buffer_simps)
qed

lemma from_output_shared:
  assumes "from_output_buffer (Shared_impl im) w = (r, Shared_impl im', w')"
  shows "(\<exists>sb. get_write_handle (impl_buffer im) w = (r, sb, w') \<and> im' = im\<lparr>impl_buffer := sb\<rparr>) \<or>
    (\<exists>e. r = Inl e) \<and> im' = im \<and> w' = w"
  using assms by (auto simp: from_output_buffer_def split: if_splits prod.splits)

lemma release_write_handle_calm:
  assumes "release_write_handle wh w = (wh', w')" and "write_promoted wh = None"
  shows "calm w w' \<and> pool w' = pool w \<and> kern w' = kern w"
proof (cases "write_state wh")
  case None
  with assms show ?thesis by (auto simp: release_write_handle_def drop_promoted_def)
next
  case (Some t)
  have "w' = update_state t (\<lambda>h. h\<lparr>access := Finalized\<rparr>) w"
    using release_write_handle_result [OF Some assms(2), of w] assms(1) by simp
  then show ?thesis using calm_update_state [of "\<lambda>h. h\<lparr>access := Finalized\<rparr>" w t] by (simp add: buffer_simps)
qed

lemma release_read_handle_calm:
  assumes "release_read_handle rh w = (rh', w')" and "read_promoted rh = None" and "reader_lease rh = Some c"
  shows "calm w w' \<and> pool w' = pool w \<and> hdr (kern w') = release_shared_buffer_reader (Some c) (hdr (kern w))"
proof -
  let ?w1 = "case read_state rh of None \<Rightarrow> w | Some s \<Rightarrow> update_state s leave_reader w"
  have w': "w' = drop_lease (Some c) ?w1" using assms by (simp add: release_read_handle_def drop_promoted_def)
  have "calm w ?w1" by (auto simp: leave_reader_def intro!: calm_update_state split: option.splits if_splits)
  also have "calm ?w1 w'" unfolding w' by (rule calm_drop_lease)
  finally show ?thesis by (simp add: w' buffer_simps split: option.splits)
qed

lemma destroy_received_calm:
  assumes "received_ok (d, im) w" and "buffer_control (impl_buffer im) = Some c"
  shows "calm w (destroy_impl im w) \<and> pool (destroy_impl im w) = pool w \<and>
    hdr (kern (destroy_impl im w)) = release_shared_buffer_reader (Some c) (hdr (kern w))"
proof -
  have "destroy_impl im w = drop_lease (Some c) w"
    using assms by (auto simp: received_ok_def destroy_impl_def reset_buffer_def run_deleter_def Let_def)
  then show ?thesis using calm_drop_lease [of w "Some c"] by (simp add: buffer_simps)
qed

lemma relay_calm:
  assumes "create_descriptor_with_endpoint register gsz pid type_name be gid (Shared_impl im) w = (dd, w')"
    and "received_ok (d, im) w"
  shows "calm w w' \<and> pool w' = pool w \<and> (\<forall>c. reader_state (hdr (kern w') c) = reader_state (hdr (kern w) c))"
proof -
  let ?sb = "impl_buffer im" and ?w1 = "finalize_write_handle (impl_buffer im) w"
  have f: "pool ?w1 = pool w" "kern ?w1 = kern w" by (simp_all add: finalize_write_handle_def buffer_simps split: option.splits)
  obtain c where c: "buffer_control ?sb = Some c" "has_ipc_descriptor ?sb" using assms(2) by (auto simp: received_ok_def)
  from assms(1) c consider "w' = w" | "w' = ?w1" | "w' = ?w1\<lparr>kern := refresh_publish_timestamp (Some c) (kern ?w1)\<rparr>"
    by (auto simp: create_descriptor_with_endpoint_def forward_descriptor_def Let_def split: if_splits)
  then show ?thesis
  proof cases
    case 1
    then show ?thesis by simp
  next
    case 2
    then show ?thesis using calm_finalize [of w ?sb] f by simp
  next
    case 3
    have "calm w w'" unfolding 3 by (rule calm_trans [OF calm_finalize calm_refresh])
    then show ?thesis unfolding 3
      by (simp add: f refresh_publish_timestamp_def monotonic_time_us_def update_control_def)
  qed
qed

section \<open>Calm steps keep the invariant\<close>

lemma inv_calm_step:
  assumes "transport_inv L s" and "calm (node s) w'" and "pool w' = pool (node s)" and "counts_ok L' w'"
  shows "transport_inv L' (s\<lparr>node := w'\<rparr>)"
  using calm_inv [OF assms(1,2) _ assms(4)] pool_inv_calm [OF assms(2,3) transport_invD(1) [OF assms(1)] assms(4)] by blast

lemma inv_quiet_step:
  assumes "transport_inv L s" and "calm (node s) w'" and "pool w' = pool (node s)" and "hdr (kern w') = hdr (kern (node s))"
  shows "transport_inv L (s\<lparr>node := w'\<rparr>)"
  using assms counts_hdr [OF transport_invD(8) [OF assms(1)] assms(3,4)] by (intro inv_calm_step)

lemma inv_writing:
  assumes inv: "transport_inv L s" and x: "buffers s x = Some im"
    and get: "from_output_buffer (Shared_impl im) (node s) = (r, Shared_impl im', w)"
  shows "transport_inv L (s\<lparr>node := w, buffers := (buffers s)(x \<mapsto> im')\<rparr>) \<and>
    (\<forall>wh. r = Inr wh \<longrightarrow> transport_inv L (s\<lparr>node := w, buffers := (buffers s)(x \<mapsto> im'), writers := (writers s)(x \<mapsto> wh)\<rparr>))"
proof (cases "(\<exists>e. r = Inl e) \<and> im' = im \<and> w = node s")
  case True
  with inv x show ?thesis by (auto simp: fun_upd_idem)
next
  case False
  with from_output_shared [OF get] obtain sb where g: "get_write_handle (impl_buffer im) (node s) = (r, sb, w)" and
    im': "im' = im\<lparr>impl_buffer := sb\<rparr>" by blast
  note c = get_write_handle_calm [OF g, of im]
  have "transport_inv L (s\<lparr>node := w\<rparr>)" using inv c by (intro inv_quiet_step) simp_all
  from inv_buffer_state [OF this, of x im sb] x c
  have inv1: "transport_inv L (s\<lparr>node := w, buffers := (buffers s)(x \<mapsto> im')\<rparr>)" by (simp add: im')
  then show ?thesis using c inv_add_writer [OF inv1, of x im'] by (auto simp: im')
qed

lemma inv_writing_done:
  assumes inv: "transport_inv L s" and x: "writers s x = Some wh" and rel: "release_write_handle wh (node s) = (wh', w)"
  shows "transport_inv L (s\<lparr>node := w, writers := (writers s)(x := None)\<rparr>)"
proof -
  have "write_promoted wh = None" using transport_invD(5) [OF inv x] by (auto simp: writer_ok_def)
  note c = release_write_handle_calm [OF rel this]
  have "transport_inv L (s\<lparr>node := w\<rparr>)" using inv c by (intro inv_quiet_step) simp_all
  from inv_remove_writer [OF this] show ?thesis by simp
qed

lemma inv_reading:
  assumes inv: "transport_inv (leases_on s) s" and m: "received s = add_mset (d, im) rest"
    and get: "from_input_buffer create esz (Shared_impl im) (node s) = (r, Shared_impl im', w)"
  shows "let s' = (case r of Inl e \<Rightarrow> s\<lparr>node := w, received := add_mset (d, im') rest\<rparr>
      | Inr rh \<Rightarrow> s\<lparr>node := w, received := add_mset (d, im') rest, readers := add_mset (Some d, rh) (readers s)\<rparr>)
    in transport_inv (leases_on s') s'"
proof (cases "(\<exists>e. r = Inl e) \<and> im' = im \<and> w = node s")
  case True
  then have "s\<lparr>node := w, received := add_mset (d, im') rest\<rparr> = s" using m by simp
  with True inv show ?thesis by auto
next
  case False
  with from_input_shared [OF get] obtain sb where g: "get_read_handle (impl_buffer im) (node s) = (r, sb, w)" and
    im': "im' = im\<lparr>impl_buffer := sb\<rparr>" by blast
  note c = get_read_handle_calm [OF g]
  have ok: "received_ok (d, im) (node s)" using transport_invD(6) [OF inv, of "(d, im)"] m by simp
  then obtain cc where cc: "buffer_control (impl_buffer im) = Some cc" "is_block cc (node s)"
    "source_ok d (data_ptr (impl_buffer im)) cc (node s)" by (auto simp: received_ok_def)
  have sb: "\<exists>st. sb = (impl_buffer im)\<lparr>handle_state := st\<rparr>"
  proof (cases "sb = impl_buffer im")
    case True
    then have "sb = (impl_buffer im)\<lparr>handle_state := handle_state (impl_buffer im)\<rparr>" by simp
    then show ?thesis by blast
  next
    case False
    with c show ?thesis by (auto simp: opens_state_def)
  qed
  let ?s1 = "s\<lparr>node := w\<rparr>" and ?s2 = "s\<lparr>node := w, received := add_mset (d, im') rest\<rparr>"
  have L2: "leases_on ?s2 = leases_on s" using m sb by (auto simp: leases_on_def fun_eq_iff im')
  have step: "transport_inv L ?s2" if i: "transport_inv L ?s1" for L
  proof -
    have "received_ok (d, im) w" using transport_invD(6) [OF i, of "(d, im)"] m by simp
    then have "received_ok (d, im') w" using sb by (auto simp: received_ok_def im' has_ipc_descriptor_def)
    then show ?thesis using inv_received [OF i, of "add_mset (d, im') rest"] m by auto
  qed
  show ?thesis
  proof (cases r)
    case (Inl e)
    have "transport_inv (leases_on s) ?s1" using inv c Inl by (intro inv_quiet_step) simp_all
    with step L2 Inl show ?thesis by simp
  next
    case (Inr rh)
    let ?L = "(leases_on s)(cc := Suc (leases_on s cc))"
    have "counts_ok ?L w" using c cc(1) Inr by (intro counts_acquired [OF transport_invD(8) [OF inv]]) simp_all
    then have i1: "transport_inv ?L ?s1" using inv c by (intro inv_calm_step) simp_all
    have "source_ok d (data_ptr (impl_buffer im)) cc w"
      using calm_source [OF _ is_block_object [OF transport_invD(1) [OF inv] cc(2)] cc(3)] c by blast
    then have "reader_ok (Some d, rh) w"
      using c cc Inr calm_is_block [of "node s" w] by (auto simp: reader_ok_def)
    with inv_readers [OF step [OF i1], of "add_mset (Some d, rh) (readers s)"]
    have "transport_inv ?L (?s2\<lparr>readers := add_mset (Some d, rh) (readers s)\<rparr>)" by auto
    moreover have "leases_on (?s2\<lparr>readers := add_mset (Some d, rh) (readers s)\<rparr>) = ?L"
      using leases_on_readers [of "(Some d, rh)" cc "readers s" ?s2] c cc(1) Inr L2 by simp
    ultimately show ?thesis using Inr by simp
  qed
qed

lemma inv_reading_own:
  assumes inv: "transport_inv (leases_on s) s" and x: "buffers s x = Some im"
    and get: "from_input_buffer create esz (Shared_impl im) (node s) = (r, Shared_impl im', w)"
  shows "let s' = (case r of Inl e \<Rightarrow> s\<lparr>node := w, buffers := (buffers s)(x \<mapsto> im')\<rparr>
      | Inr rh \<Rightarrow> s\<lparr>node := w, buffers := (buffers s)(x \<mapsto> im'), readers := add_mset (None, rh) (readers s)\<rparr>)
    in transport_inv (leases_on s') s'"
proof (cases "(\<exists>e. r = Inl e) \<and> im' = im \<and> w = node s")
  case True
  with inv x show ?thesis by (auto simp: fun_upd_idem)
next
  case False
  with from_input_shared [OF get] obtain sb where g: "get_read_handle (impl_buffer im) (node s) = (r, sb, w)" and
    im': "im' = im\<lparr>impl_buffer := sb\<rparr>" by blast
  note c = get_read_handle_calm [OF g]
  let ?s1 = "s\<lparr>node := w\<rparr>" and ?s2 = "s\<lparr>node := w, buffers := (buffers s)(x \<mapsto> im')\<rparr>"
  have step: "transport_inv L ?s2" if "transport_inv L ?s1" for L
    using inv_buffer_state [OF that, of x im sb] x c by (simp add: im')
  show ?thesis
  proof (cases r)
    case (Inl e)
    have "transport_inv (leases_on s) ?s1" using inv c Inl by (intro inv_quiet_step) simp_all
    with step Inl show ?thesis by simp
  next
    case (Inr rh)
    from transport_invD(3) [OF inv x] obtain i where own: "owns (impl_buffer im) i (node s)" by (auto simp: buffer_ok_def)
    from owns_block [OF own] obtain cc where cc: "buffer_control (impl_buffer im) = Some cc"
      "control (all_blocks (pool (node s)) ! i) = Some cc" by blast
    then have blk: "is_block cc (node s)" using own by (auto simp: is_block_def owns_def)
    let ?L = "(leases_on s)(cc := Suc (leases_on s cc))"
    have "counts_ok ?L w" using c cc(1) Inr by (intro counts_acquired [OF transport_invD(8) [OF inv]]) simp_all
    then have "transport_inv ?L ?s1" using inv c by (intro inv_calm_step) simp_all
    note i2 = step [OF this]
    have "reader_ok (None, rh) w" using c cc blk Inr calm_is_block [of "node s" w] by (auto simp: reader_ok_def)
    with inv_readers [OF i2, of "add_mset (None, rh) (readers s)"]
    have "transport_inv ?L (?s2\<lparr>readers := add_mset (None, rh) (readers s)\<rparr>)" by auto
    moreover have "leases_on (?s2\<lparr>readers := add_mset (None, rh) (readers s)\<rparr>) = ?L"
      using leases_on_readers [of "(None, rh)" cc "readers s" ?s2] c cc(1) Inr by (simp add: leases_on_def fun_eq_iff)
    ultimately show ?thesis using Inr by simp
  qed
qed

text \<open>A lease given back: by a read handle or by a received buffer.\<close>

lemma inv_release:
  assumes inv: "transport_inv L s" and L: "L = L'(c := Suc (L' c))" and calm: "calm (node s) w" and p: "pool w = pool (node s)"
    and h: "hdr (kern w) = release_shared_buffer_reader (Some c) (hdr (kern (node s)))"
  shows "transport_inv L' (s\<lparr>node := w\<rparr>)"
proof -
  have "counts_ok (L(c := L' c)) w" using L p h by (intro counts_released [OF transport_invD(8) [OF inv]]) simp_all
  then have "counts_ok L' w" by (simp add: L)
  then show ?thesis by (rule inv_calm_step [OF inv calm p])
qed

lemma inv_reading_done:
  assumes inv: "transport_inv (leases_on s) s" and m: "readers s = add_mset (dd, rh) rest"
    and rel: "release_read_handle rh (node s) = (rh', w)"
  shows "transport_inv (leases_on (s\<lparr>node := w, readers := rest\<rparr>)) (s\<lparr>node := w, readers := rest\<rparr>)"
proof -
  let ?s1 = "s\<lparr>node := w, readers := rest\<rparr>"
  from transport_invD(7) [OF inv, of "(dd, rh)"] m obtain c where c: "reader_lease rh = Some c" "read_promoted rh = None"
    by (auto simp: reader_ok_def)
  note cl = release_read_handle_calm [OF rel c(2,1)]
  have "s = s\<lparr>readers := add_mset (dd, rh) rest\<rparr>" using m by simp
  then have "leases_on s = (leases_on (s\<lparr>readers := rest\<rparr>))(c := Suc (leases_on (s\<lparr>readers := rest\<rparr>) c))"
    using leases_on_readers [of "(dd, rh)" c rest s] c(1) by simp
  moreover have "leases_on (s\<lparr>readers := rest\<rparr>) = leases_on ?s1" by (simp add: leases_on_def fun_eq_iff)
  ultimately have "leases_on s = (leases_on ?s1)(c := Suc (leases_on ?s1 c))" by simp
  from inv_release [OF inv this, of w] cl have "transport_inv (leases_on ?s1) (s\<lparr>node := w\<rparr>)" by blast
  from inv_readers [OF this, of rest] m show ?thesis by simp
qed

lemma inv_dropping:
  assumes inv: "transport_inv (leases_on s) s" and m: "received s = add_mset (d, im) rest"
  shows "transport_inv (leases_on (s\<lparr>node := destroy_impl im (node s), received := rest\<rparr>))
    (s\<lparr>node := destroy_impl im (node s), received := rest\<rparr>)"
proof -
  let ?w = "destroy_impl im (node s)" and ?s1 = "s\<lparr>node := destroy_impl im (node s), received := rest\<rparr>"
  have ok: "received_ok (d, im) (node s)" using transport_invD(6) [OF inv, of "(d, im)"] m by simp
  then obtain c where c: "buffer_control (impl_buffer im) = Some c" by (auto simp: received_ok_def)
  note cl = destroy_received_calm [OF ok c]
  have "s = s\<lparr>received := add_mset (d, im) rest\<rparr>" using m by simp
  then have "leases_on s = (leases_on (s\<lparr>received := rest\<rparr>))(c := Suc (leases_on (s\<lparr>received := rest\<rparr>) c))"
    using leases_on_received [of "(d, im)" c rest s] c by simp
  moreover have "leases_on (s\<lparr>received := rest\<rparr>) = leases_on ?s1" by (simp add: leases_on_def fun_eq_iff)
  ultimately have "leases_on s = (leases_on ?s1)(c := Suc (leases_on ?s1 c))" by simp
  from inv_release [OF inv this, of ?w] cl have "transport_inv (leases_on ?s1) (s\<lparr>node := ?w\<rparr>)" by blast
  from inv_received [OF this, of rest] m show ?thesis by simp
qed

lemma inv_relaying:
  assumes inv: "transport_inv L s" and m: "(d, im) \<in># received s"
    and cd: "create_descriptor_with_endpoint register gsz pid type_name be gid (Shared_impl im) (node s) = (dd, w)"
  shows "transport_inv L (s\<lparr>node := w\<rparr>)"
proof -
  note c = relay_calm [OF cd transport_invD(6) [OF inv m]]
  have "counts_ok L w" using transport_invD(8) [OF inv] c by (simp add: counts_ok_def is_block_def)
  with inv c show ?thesis by (intro inv_calm_step) simp_all
qed

lemma inv_passing:
  assumes "transport_inv L s"
  shows "transport_inv L (s\<lparr>node := (node s)\<lparr>kern := (kern (node s))\<lparr>clock := cl\<rparr>\<rparr>\<rparr>)"
proof (rule inv_quiet_step [OF assms])
  show "calm (node s) ((node s)\<lparr>kern := (kern (node s))\<lparr>clock := cl\<rparr>\<rparr>)"
    by (rule calm_header [where m = "hdr (kern (node s))" and cl = cl]) simp_all
qed simp_all

section \<open>Receiving\<close>

lemma receive_calm:
  assumes r: "receive_linux ienv type_name (Some d) cache (kern w) = (r, cache', k')" and c: "cache_ok cache (kern w)"
    and good: "linux_good_import ienv (kern w) (shared_buffer_block_size d)"
  shows "calm w (w\<lparr>kern := k'\<rparr>) \<and> cache_ok cache' k'"
proof -
  note sp = receive_space [OF r c good]
  show ?thesis
  proof (cases r)
    case (Inl e)
    with linux_import.receive_failure [OF r [unfolded Inl] c] good sp show ?thesis
      by (simp add: calm_def block_socket_path_self objects_kept_def)
  next
    case (Inr im)
    note ok = linux_import.receive_success [OF r [unfolded Inr] c good]
    then have "\<exists>c. hdr k' = one_more_reader c (hdr (kern w))" "cache_ok cache' k'" "pay k' = pay (kern w)" by auto
    with sp show ?thesis by (auto simp: calm_def block_socket_path_self one_more_reader_def)
  qed
qed

lemma inv_rejecting:
  assumes inv: "transport_inv L s" and good: "linux_good_import ienv (kern (node s)) (shared_buffer_block_size d)"
    and r: "receive_linux ienv type_name (Some d) (caches s q) (kern (node s)) = (Inl e, cache, k)"
  shows "transport_inv L (s\<lparr>node := (node s)\<lparr>kern := k\<rparr>, caches := (caches s)(q := cache)\<rparr>)"
proof -
  note invD = transport_invD [OF inv]
  note c = receive_calm [OF r invD(2) good]
  have "objects_kept (kern (node s)) k"
    using linux_import.receive_failure [OF r invD(2)] good by simp
  then have "counts_ok L ((node s)\<lparr>kern := k\<rparr>)"
    using invD(8) is_block_object [OF invD(1)] by (simp add: counts_ok_def is_block_def objects_kept_def)
  then have "transport_inv L (s\<lparr>node := (node s)\<lparr>kern := k\<rparr>\<rparr>)" using inv c by (intro inv_calm_step) simp_all
  from inv_caches [OF this] c show ?thesis by simp
qed

text \<open>Whatever object the descriptor led to, it is a block of the publisher's pool.\<close>

lemma published_is_block:
  "generations_ok h w \<Longrightarrow> c < next_oid (kern w) \<Longrightarrow> ipc_uid (hdr (kern w) c) \<noteq> 0 \<Longrightarrow> is_block c w"
  by (auto simp: generations_ok_def is_block_def)

lemma inv_accepting:
  assumes inv: "transport_inv (leases_on s) s" and good: "linux_good_import ienv (kern (node s)) (shared_buffer_block_size d)"
    and r: "receive_linux ienv type_name (Some d) (caches s q) (kern (node s)) = (Inr im, cache, k)"
  shows "let s' = s\<lparr>node := (node s)\<lparr>kern := k\<rparr>, caches := (caches s)(q := cache), received := add_mset (d, im) (received s)\<rparr>
    in transport_inv (leases_on s') s'"
proof -
  let ?w = "(node s)\<lparr>kern := k\<rparr>"
  note invD = transport_invD [OF inv]
  note cl = receive_calm [OF r invD(2) good]
  from linux_import.receive_success [OF r invD(2) good] obtain b c where
    b: "imported_ok k b" "ib_control b = Some c" and
    im: "impl_buffer im = \<lparr>data_ptr = ib_mapping b + kSharedBufferPayloadOffset, buffer_size = desc_size d, deleter = Release_reader (Some c),
      buffer_control = Some c, owner = Some c, held_reader_lease = None, handle_state = None,
      buffer_block_id = shared_buffer_block_id d, buffer_mapped_size = shared_buffer_block_size d, writable = False,
      ipc_pid = shared_buffer_pid d, ipc_name = shared_buffer_socket_path d, buffer_ipc_uid = desc_ipc_uid d\<rparr>" and
    d: "shared_buffer_pid d > 0" "shared_buffer_socket_path d \<noteq> ''''"
      "unat kSharedBufferPayloadOffset + unat (desc_size d) \<le> unat (ib_mapped_size b)" and
    h: "header_matches (kern (node s)) c (desc_size d) (desc_ipc_uid d)" "\<not> acquire_refused (reader_state (hdr (kern (node s)) c))"
      "hdr k = one_more_reader c (hdr (kern (node s)))" by blast
  have b': "c < next_oid (kern ?w)" "vm k (ib_mapping b) = Some c" "unat (ib_mapping b) + unat (ib_mapped_size b) < 2 ^ 64"
    using b by (auto simp: imported_ok_def)
  have "c < next_oid (kern (node s))" using b'(1) cl by (simp add: calm_def)
  then have blk: "is_block c (node s)" using published_is_block [OF invD(9)] h(1) by (simp add: header_matches_def)
  have "snd (try_acquire_shared_buffer_reader (Some c) (hdr (kern (node s)))) = hdr k"
    "fst (try_acquire_shared_buffer_reader (Some c) (hdr (kern (node s))))"
    using h(2,3) by (simp_all add: try_acquire_shared_buffer_reader_def one_more_reader_def Let_def)
  then have "counts_ok ((leases_on s)(c := Suc (leases_on s c))) ?w" by (intro counts_acquired [OF invD(8)]) simp_all
  then have "transport_inv ((leases_on s)(c := Suc (leases_on s c))) (s\<lparr>node := ?w\<rparr>)"
    using inv cl by (intro inv_calm_step) simp_all
  from inv_caches [OF this, of cache q] cl
  have i1: "transport_inv ((leases_on s)(c := Suc (leases_on s c))) (s\<lparr>node := ?w, caches := (caches s)(q := cache)\<rparr>)" by simp
  have "unat (ib_mapping b + 64) = unat (ib_mapping b) + 64"
    using b'(3) d(3) by (simp add: unat_word_ariths kSharedBufferPayloadOffset_def)
  then have "ib_mapping b + kSharedBufferPayloadOffset \<noteq> 0"
    by (metis add_is_0 kSharedBufferPayloadOffset_def unat_0 zero_neq_numeral)
  then have "received_ok (d, im) ?w"
    using blk b' d h by (simp add: received_ok_def im source_ok_def is_block_def object_at_def header_matches_def
        one_more_reader_def has_ipc_descriptor_def)
  with inv_received [OF i1, of "add_mset (d, im) (received s)"]
  have "transport_inv ((leases_on s)(c := Suc (leases_on s c)))
      (s\<lparr>node := ?w, caches := (caches s)(q := cache), received := add_mset (d, im) (received s)\<rparr>)" by auto
  moreover have "leases_on (s\<lparr>node := ?w, caches := (caches s)(q := cache), received := add_mset (d, im) (received s)\<rparr>) =
      (leases_on s)(c := Suc (leases_on s c))"
    by (simp add: leases_on_def fun_eq_iff im)
  ultimately show ?thesis by (simp only: Let_def)
qed

section \<open>Storing, destroying\<close>

lemma inv_storing:
  assumes inv: "transport_inv L s" and x: "buffers s x = Some im" "writers s x = Some wh"
    and len: "length bs \<le> unat (buffer_size (impl_buffer im))"
  shows "transport_inv L (s\<lparr>node := write_memory (write_ptr wh) bs (node s)\<rparr>)"
proof -
  note invD = transport_invD [OF inv]
  let ?w = "node s" and ?w' = "write_memory (write_ptr wh) bs (node s)" and ?sb = "impl_buffer im"
  from invD(3) [OF x(1)] obtain i where own: "owns ?sb i ?w" by (auto simp: buffer_ok_def)
  from invD(5) [OF x(2)] x(1) have wh: "write_ptr wh = data_ptr ?sb" by (auto simp: writer_ok_def)
  from owns_block [OF own] obtain c where c: "object_at (kern ?w) (data_ptr ?sb) = Some c"
    "control (all_blocks (pool ?w) ! i) = Some c" by blast
  have k: "kern ?w' = store_bytes (data_ptr ?sb) bs (kern ?w)" "pool ?w' = pool ?w"
    by (simp_all add: write_memory_def wh)
  note st = owns_store [OF own len k]
  have fr: "states ?w' = states ?w" "next_state ?w' = next_state ?w" by (simp_all add: write_memory_def)
  have kf: "hdr (kern ?w') = hdr (kern ?w)" "vm (kern ?w') = vm (kern ?w)" "fds (kern ?w') = fds (kern ?w)"
    "osize (kern ?w') = osize (kern ?w)" "next_oid (kern ?w') = next_oid (kern ?w)" by (simp_all add: k)
  have "owns ?sb i ?w'" using st own by blast
  then have p: "pool_inv (pool ?w') (kern ?w')" by (simp add: owns_def)
  have "cache_ok (caches s q) (kern ?w')" for q
    by (rule cache_ok_grows [OF invD(2)]) (simp_all add: kf)
  moreover have "buffer_ok im' ?w'" if "buffer_ok im' ?w" for im'
  proof -
    from that obtain j where "owns (impl_buffer im') j ?w" by (auto simp: buffer_ok_def)
    then have "owns (impl_buffer im') j ?w'" using p by (simp add: owns_def k(2))
    with that show ?thesis by (auto simp: buffer_ok_def fr)
  qed
  moreover have "writer_ok wh' im' ?w' = writer_ok wh' im' ?w" "is_finalized sb ?w' = is_finalized sb ?w"
    "received_ok y ?w' = received_ok y ?w" "reader_ok z ?w' = reader_ok z ?w" "counts_ok L ?w' = counts_ok L ?w"
    "generations_ok (history s) ?w' = generations_ok (history s) ?w" for wh' im' sb y z
    by (simp_all add: writer_ok_def is_finalized_def fr received_ok_def reader_ok_def source_ok_def is_block_def counts_ok_def
        generations_ok_def k(2) kf object_at_def split: option.split)
  moreover have "seals_ok (buffers s) (writers s) (history s) ?w'"
  proof -
    have other: "pay (kern ?w') c' = pay (kern ?w) c'" if "c' \<noteq> c" for c' using that c by (simp add: k store_bytes_def)
    have "deleter ?sb = Free_block (Some i)" using own by (simp add: owns_def)
    then have unsealed: "\<forall>bytes. history s (current_uid (all_blocks (pool ?w) ! i)) \<noteq> Some (bytes, True)"
      using invD(10) x own c(2) unfolding seals_ok_def owns_def by fastforce
    have "blocks_disjoint (all_blocks (pool ?w))" using invD(1) by (simp add: pool_inv_def pool_inv_except_def)
    then have "j = i" if "j < length (all_blocks (pool ?w))" "control (all_blocks (pool ?w) ! j) = Some c" for j
      using that own c(2) distinct_controls [of "all_blocks (pool ?w)" j i] by (simp add: owns_def)
    then show ?thesis using invD(10) unsealed other unfolding seals_ok_def k(2) is_finalized_def fr by metis
  qed
  moreover have "is_block c' ?w' = is_block c' ?w" for c' by (simp add: is_block_def k(2))
  ultimately show ?thesis using invD p by (simp add: transport_inv_def)
qed

lemma inv_destroying:
  assumes inv: "transport_inv L s" and x: "buffers s x = Some im" "writers s x = None"
  shows "transport_inv L (s\<lparr>node := destroy_impl im (node s), buffers := (buffers s)(x := None)\<rparr>)"
proof -
  note invD = transport_invD [OF inv]
  let ?w = "node s" and ?w' = "destroy_impl im (node s)" and ?sb = "impl_buffer im" and ?b = "(buffers s)(x := None)"
  from invD(3) [OF x(1)] obtain i where own: "owns ?sb i ?w" by (auto simp: buffer_ok_def)
  have w': "?w' = ?w\<lparr>pool := pool_free (Some i) (pool ?w)\<rparr>" by (simp add: destroy_impl_def reset_owned [OF own])
  have kw: "kern ?w' = kern ?w" by (simp add: w')
  have used: "in_use (all_blocks (pool ?w) ! i)" using own by (simp add: owns_def)
  have len: "length (all_blocks (pool ?w')) = length (all_blocks (pool ?w))" by (simp add: w' pool_free_used [OF used])
  have blk: "control (all_blocks (pool ?w') ! j) = control (all_blocks (pool ?w) ! j)"
    "current_uid (all_blocks (pool ?w') ! j) = current_uid (all_blocks (pool ?w) ! j)" if "j < length (all_blocks (pool ?w))" for j
    using that by (simp_all add: w' pool_free_used [OF used])
  have p: "pool_inv (pool ?w') (kern ?w')" using owns_free_inv [OF own] by (simp add: w')
  have del: "deleter ?sb = Free_block (Some i)" using own by (simp add: owns_def)
  have "buffer_ok im' ?w'" if "?b y = Some im'" for y im'
  proof -
    from that have y: "y \<noteq> x" "buffers s y = Some im'" by (auto split: if_splits)
    from invD(3) [OF y(2)] obtain j where j: "owns (impl_buffer im') j ?w" by (auto simp: buffer_ok_def)
    have "i \<noteq> j"
    proof
      assume "i = j"
      with j del have "deleter (impl_buffer im') = deleter ?sb" by (simp add: owns_def)
      with invD(4) y x(1) show False unfolding separate_def by blast
    qed
    from owns_after_free [OF own j this] invD(3) [OF y(2)] show ?thesis by (auto simp: buffer_ok_def w')
  qed
  moreover have "separate ?b" using invD(4) by (auto simp: separate_def)
  moreover have "\<exists>im'. ?b y = Some im' \<and> writer_ok wh im' ?w'" if "writers s y = Some wh" for y wh
    using invD(5) [OF that] that x(2) by (auto simp: writer_ok_def w')
  moreover have b: "is_block c ?w' = is_block c ?w" for c using blk len by (auto simp: is_block_def)
  then have "received_ok y ?w' = received_ok y ?w" "reader_ok z ?w' = reader_ok z ?w" "counts_ok L ?w' = counts_ok L ?w" for y z
    by (simp_all add: received_ok_def reader_ok_def source_ok_def counts_ok_def) (simp_all add: w')
  moreover have "generations_ok (history s) ?w'"
    using invD(9) blk by (simp add: generations_ok_def len kw) metis
  moreover have "seals_ok ?b (writers s) (history s) ?w'"
  proof -
    have "is_finalized sb ?w' = is_finalized sb ?w" for sb by (simp add: is_finalized_def w' split: option.split)
    with invD(10) blk show ?thesis unfolding seals_ok_def len kw by (metis fun_upd_apply option.distinct(1))
  qed
  moreover have "\<forall>c. Some c \<in># lost s \<longrightarrow> is_block c ?w'" using invD(11) b by simp
  ultimately show ?thesis using invD p by (simp add: transport_inv_def) (simp add: w')
qed

section \<open>Publishing\<close>

text \<open>Publication is a calm registration followed by the two stores to the header.\<close>

lemma publish_cases:
  assumes own: "owns sb i w" and uid: "current_uid (all_blocks (pool w) ! i) \<noteq> 0" and good: "broker_good benv (kern w)"
    and pub: "publish_descriptor (linux_register_block benv) pid type_name sz sb w = (dd, w')"
  shows "\<exists>w0. calm w w0 \<and> pool_inv (pool w0) (kern w0) \<and> hdr (kern w0) = hdr (kern w) \<and> (case dd of
      None \<Rightarrow> w' = w0
    | Some d \<Rightarrow> desc_ipc_uid d = current_uid (all_blocks (pool w) ! i) \<and>
        w' = w0\<lparr>kern := mark_published (Some i) (pool w0) (kern w0)\<rparr>)"
proof -
  from owns_block [OF own] obtain c where c: "control (all_blocks (pool w) ! i) = Some c" by blast
  have inv: "pool_inv (pool w) (kern w)" and i: "i < length (all_blocks (pool w))" using own by (simp_all add: owns_def)
  obtain r p1 k1 where reg: "register_block_for_ipc (linux_register_block benv) (Some i) (pool w) (kern w) = (r, p1, k1)"
    by (metis prod.exhaust)
  note rg = linux_broker.register_block_for_ipc_inv [OF inv i reg]
  let ?w0 = "w\<lparr>pool := p1, kern := k1\<rparr>"
  have "fds k1 x \<noteq> None" if "fds (kern w) x \<noteq> None" for x
  proof (cases "broker (pool w)")
    case None
    with reg that show ?thesis by (simp add: register_block_for_ipc_def)
  next
    case (Some br)
    obtain r' b' br' k' where "linux_register_block benv (all_blocks (pool w) ! i) br (kern w) = (r', b', br', k')"
      by (metis prod.exhaust)
    with linux_register_fds [OF this good that] Some reg show ?thesis by (simp add: register_block_for_ipc_def)
  qed
  then have calm: "calm w ?w0" using rg by (simp add: calm_def space_grows_def memory_kept_def)
  from rg i obtain q where q: "all_blocks p1 ! i = (all_blocks (pool w) ! i)\<lparr>socket_path := q\<rparr>" by blast
  have as: "assign_uid (Some i) p1 = (current_uid (all_blocks (pool w) ! i), p1)"
    using c uid by (simp add: assign_uid_def q)
  have "\<exists>w0. w0 = ?w0 \<and> (case dd of None \<Rightarrow> w' = w0
    | Some d \<Rightarrow> desc_ipc_uid d = current_uid (all_blocks (pool w) ! i) \<and>
        w' = w0\<lparr>kern := mark_published (Some i) (pool w0) (kern w0)\<rparr>)"
    using pub c reg as owned_found [OF own]
    by (cases r) (auto simp: publish_descriptor_def split: if_splits)
  with calm rg show ?thesis by (auto simp: memory_kept_def)
qed

lemma inv_mark:
  assumes inv: "transport_inv L s" and x: "buffers s x = Some im" and own: "owns (impl_buffer im) i (node s)"
    and sealed: "sealed \<Longrightarrow> writers s x = None \<and> is_finalized (impl_buffer im) (node s)"
  shows "transport_inv L (s\<lparr>node := (node s)\<lparr>kern := mark_published (Some i) (pool (node s)) (kern (node s))\<rparr>,
    history := (history s)(current_uid (all_blocks (pool (node s)) ! i) \<mapsto> (payload (impl_buffer im) (node s), sealed))\<rparr>)"
proof -
  note invD = transport_invD [OF inv]
  let ?w = "node s" and ?u = "current_uid (all_blocks (pool (node s)) ! i)"
  let ?k = "mark_published (Some i) (pool ?w) (kern ?w)"
  let ?w' = "?w\<lparr>kern := ?k\<rparr>" and ?h = "(history s)(?u \<mapsto> (payload (impl_buffer im) ?w, sealed))"
  from owns_block [OF own] obtain c where c: "control (all_blocks (pool ?w) ! i) = Some c" "c < next_oid (kern ?w)"
    "payload (impl_buffer im) ?w = pay (kern ?w) c" by blast
  have i: "i < length (all_blocks (pool ?w))" and del: "deleter (impl_buffer im) = Free_block (Some i)"
    using own by (simp_all add: owns_def)
  have lay: "same_layout (kern ?w) ?k" by (rule mark_published_layout)
  have h: "hdr ?k = (hdr (kern ?w))(c := (hdr (kern ?w) c)\<lparr>ipc_uid := ?u, publish_timestamp_us := clock (kern ?w) 0\<rparr>)"
    by (rule mark_published_header [OF c(1)])
  have p: "pool_inv (pool ?w') (kern ?w')" using mark_published_inv [OF invD(1)] by simp
  have disj: "blocks_disjoint (all_blocks (pool ?w))" using invD(1) by (simp add: pool_inv_def pool_inv_except_def)
  have u0: "?u \<noteq> 0" using invD(9) i by (simp add: generations_ok_def)
  have old: "ipc_uid (hdr (kern ?w) c) = ?u" if "ipc_uid (hdr (kern ?w) c) \<noteq> 0"
  proof -
    from invD(9) c(2) that obtain j where j: "j < length (all_blocks (pool ?w))" "control (all_blocks (pool ?w) ! j) = Some c"
      "current_uid (all_blocks (pool ?w) ! j) = ipc_uid (hdr (kern ?w) c)" by (auto simp: generations_ok_def)
    with distinct_controls [OF disj j(1) i] c(1) have "j = i" by simp
    with j show ?thesis by simp
  qed
  have src: "source_ok d a c' ?w'" if "source_ok d a c' ?w" for d a c'
    using that old lay by (auto simp: source_ok_def h object_at_def same_layout_def)
  have blk: "is_block c' ?w' = is_block c' ?w" for c' by (simp add: is_block_def)
  have pw: "pool ?w' = pool ?w" "kern ?w' = ?k" by simp_all
  have "cache_ok (caches s q) ?k" for q
    by (rule cache_ok_grows [OF invD(2)]) (use lay in \<open>simp_all add: same_layout_def\<close>)
  moreover have "buffer_ok im' ?w'" if "buffer_ok im' ?w" for im'
    using that p by (auto simp: buffer_ok_def owns_def)
  moreover have "writer_ok wh im' ?w' = writer_ok wh im' ?w" for wh im' by (simp add: writer_ok_def)
  moreover have "received_ok y ?w'" if "received_ok y ?w" for y
    using that src blk unfolding received_ok_def by metis
  moreover have "reader_ok z ?w'" if "reader_ok z ?w" for z
    using that src blk unfolding reader_ok_def by metis
  moreover have "counts_ok L ?w'" using invD(8) by (simp add: counts_ok_def blk h)
  moreover have "generations_ok ?h ?w'"
  proof -
    have "next_oid ?k = next_oid (kern ?w)" using lay by (simp add: same_layout_def)
    moreover have "?h v \<noteq> None" if "history s v \<noteq> None" for v using that by simp
    ultimately show ?thesis using invD(9) i c(1) by (auto simp: generations_ok_def h)
  qed
  moreover have "seals_ok (buffers s) (writers s) ?h ?w'"
    unfolding seals_ok_def pw
  proof (intro allI impI)
    fix j bytes c'
    assume j: "j < length (all_blocks (pool ?w))" and b: "?h (current_uid (all_blocks (pool ?w) ! j)) = Some (bytes, True)"
      and c': "control (all_blocks (pool ?w) ! j) = Some c'"
    have pay: "pay ?k = pay (kern ?w)" using lay by (simp add: same_layout_def)
    have f: "is_finalized sb ?w' = is_finalized sb ?w" for sb by (simp add: is_finalized_def split: option.split)
    show "pay ?k c' = bytes \<and> (\<forall>y im'. buffers s y = Some im' \<longrightarrow> deleter (impl_buffer im') = Free_block (Some j) \<longrightarrow>
        writers s y = None \<and> is_finalized (impl_buffer im') ?w')"
    proof (cases "j = i")
      case True
      with b have "sealed" "bytes = pay (kern ?w) c" by (simp_all add: c(3))
      moreover have "y = x" if "buffers s y = Some im'" "deleter (impl_buffer im') = Free_block (Some j)" for y im'
        using invD(4) x that del True unfolding separate_def by metis
      ultimately show ?thesis using sealed x c c' pay f True by fastforce
    next
      case False
      then have "current_uid (all_blocks (pool ?w) ! j) \<noteq> ?u" using invD(9) i j by (auto simp: generations_ok_def)
      with b have "history s (current_uid (all_blocks (pool ?w) ! j)) = Some (bytes, True)" by simp
      with invD(10) j c' show ?thesis unfolding pay f seals_ok_def by blast
    qed
  qed
  moreover have "\<forall>c. Some c \<in># lost s \<longrightarrow> is_block c ?w'" using invD(11) blk by simp
  ultimately show ?thesis using invD p by (simp add: transport_inv_def)
qed

lemma inv_publishing:
  assumes inv: "transport_inv L s" and x: "buffers s x = Some im" and good: "broker_good benv (kern (node s))"
    and cd: "create_descriptor_with_endpoint (linux_register_block benv) gsz pid type_name be gid (Shared_impl im) (node s) = (dd, w)"
  shows "transport_inv L (s\<lparr>node := w, history := record_publication (writers s x \<noteq> None) (impl_buffer im) dd w (history s)\<rparr>)"
proof (cases "compatibility_cache be (gid_key gsz gid) = Some False")
  case True
  with cd inv show ?thesis by (auto simp: create_descriptor_with_endpoint_def record_publication_def)
next
  case False
  let ?sb = "impl_buffer im" and ?w1 = "finalize_write_handle (impl_buffer im) (node s)"
  have f: "pool ?w1 = pool (node s)" "kern ?w1 = kern (node s)"
    by (simp_all add: finalize_write_handle_def buffer_simps split: option.splits)
  have i1: "transport_inv L (s\<lparr>node := ?w1\<rparr>)" by (rule inv_quiet_step [OF inv calm_finalize]) (simp_all add: f)
  note invD = transport_invD [OF i1, simplified]
  have bo: "buffer_ok im ?w1" using invD(3) x by simp
  then obtain i where own: "owns ?sb i ?w1" and "\<not> has_ipc_descriptor ?sb" by (auto simp: buffer_ok_def has_ipc_descriptor_def)
  with cd False have pub: "publish_descriptor (linux_register_block benv) pid type_name (impl_size im) ?sb ?w1 = (dd, w)"
    by (simp add: create_descriptor_with_endpoint_def Let_def)
  have uid: "current_uid (all_blocks (pool ?w1) ! i) \<noteq> 0" using invD(9) own by (simp add: generations_ok_def owns_def)
  from publish_cases [OF own uid _ pub] good f obtain w0 where
    w0: "calm ?w1 w0" "pool_inv (pool w0) (kern w0)" "hdr (kern w0) = hdr (kern ?w1)" and
    res: "case dd of None \<Rightarrow> w = w0 | Some d \<Rightarrow> desc_ipc_uid d = current_uid (all_blocks (pool ?w1) ! i) \<and>
        w = w0\<lparr>kern := mark_published (Some i) (pool w0) (kern w0)\<rparr>" by auto
  have i: "i < length (all_blocks (pool ?w1))" using own by (simp add: owns_def)
  have "counts_ok L w0" using invD(8) w0(3) calm_is_block [OF w0(1)] by (simp add: counts_ok_def)
  with calm_inv [OF i1, of w0 L] w0 have i2: "transport_inv L (s\<lparr>node := w0\<rparr>)" by simp
  show ?thesis
  proof (cases dd)
    case None
    with i2 res show ?thesis by (simp add: record_publication_def)
  next
    case (Some d)
    have own0: "owns ?sb i w0" by (rule owns_calm [OF own w0(1,2)])
    have w: "w = w0\<lparr>kern := mark_published (Some i) (pool w0) (kern w0)\<rparr>" and
      d: "desc_ipc_uid d = current_uid (all_blocks (pool w0) ! i)" using res Some calm_block(3) [OF w0(1) i] by simp_all
    have "payload ?sb w = payload ?sb w0"
      using mark_published_layout [of "kern w0" "Some i" "pool w0"]
      by (simp add: w payload_def load_bytes_def object_at_def same_layout_def split: option.split)
    moreover have "is_finalized ?sb w = is_finalized ?sb w0" by (simp add: w is_finalized_def split: option.split)
    ultimately show ?thesis
      using inv_mark [OF i2, of x im i "\<not> writers s x \<noteq> None \<and> is_finalized ?sb w0"] x own0 Some d
      by (simp add: record_publication_def w)
  qed
qed

section \<open>Allocating\<close>

lemma new_impl_cases:
  assumes "new_impl create esz n w = (r, w')" and "n > 0"
  shows "(\<exists>e. r = Inl e) \<and> w' = w \<or> (\<exists>r0 p k. byte_count esz n = Inr (n * esz) \<and>
    allocate create (n * esz) (pool w) (kern w) = (r0, p, k) \<and> w' = w\<lparr>pool := p, kern := k\<rparr> \<and>
    (\<forall>im. r = Inr im \<longrightarrow> allocate_raw create esz n w = (Inr (impl_buffer im), w') \<and> ipc_pid (impl_buffer im) = 0 \<and>
       (\<exists>i. r0 = Inr i \<and> deleter (impl_buffer im) = Free_block (Some i))))"
proof (cases "byte_count esz n")
  case (Inl e)
  with assms show ?thesis by (auto simp: new_impl_positive allocate_raw_def)
next
  case (Inr b)
  then have b: "byte_count esz n = Inr (n * esz)" by (auto simp: byte_count_def split: if_splits)
  obtain r0 p k where al: "allocate create (n * esz) (pool w) (kern w) = (r0, p, k)" by (metis prod.exhaust)
  obtain r1 w1 where ar: "allocate_raw create esz n w = (r1, w1)" by (cases "allocate_raw create esz n w")
  have w1: "w1 = w\<lparr>pool := p, kern := k\<rparr>" using ar al b by (cases r0) (simp_all add: allocate_raw_def Let_def)
  have res: "w' = w1 \<and> (\<forall>im. r = Inr im \<longrightarrow> r1 = Inr (impl_buffer im))"
    using assms ar by (cases r1) (auto simp: new_impl_positive)
  have "ipc_pid sb = 0 \<and> (\<exists>i. r0 = Inr i \<and> deleter sb = Free_block (Some i))" if "r1 = Inr sb" for sb
    using ar al b that by (cases r0) (auto simp: allocate_raw_def Let_def shared_buffer_def split: if_splits)
  with res ar al b w1 show ?thesis by blast
qed

text \<open>
  The block \<open>i\<close> is new or reused, free of leases and of a generation nobody has seen; everything
  else is as it was.  For a failing allocation \<open>i\<close> is past the end.
\<close>

definition reserved :: "nat \<Rightarrow> transport \<Rightarrow> linux_broker world \<Rightarrow> bool" where
  "reserved i s w \<longleftrightarrow>
     (\<forall>j < length (all_blocks (pool w)). j \<noteq> i \<longrightarrow> j < length (all_blocks (pool (node s))) \<and>
        all_blocks (pool w) ! j = all_blocks (pool (node s)) ! j) \<and>
     (\<forall>c < next_oid (kern (node s)). pay (kern w) c = pay (kern (node s)) c \<and> (hdr (kern w) c = hdr (kern (node s)) c \<or>
        i < length (all_blocks (pool w)) \<and> control (all_blocks (pool w) ! i) = Some c)) \<and>
     (i < length (all_blocks (pool w)) \<longrightarrow> unused_uid s (current_uid (all_blocks (pool w) ! i)) \<and>
        current_uid (all_blocks (pool w) ! i) \<noteq> 0 \<and>
        (\<forall>c. control (all_blocks (pool w) ! i) = Some c \<longrightarrow> ipc_uid (hdr (kern w) c) = 0 \<and> reader_state (hdr (kern w) c) = 0 \<and>
           leases_on s c = 0))"

lemma leases_on_pos:
  "(d, im) \<in># received s \<Longrightarrow> buffer_control (impl_buffer im) = Some c \<Longrightarrow> leases_on s c \<noteq> 0"
  "(dd, rh) \<in># readers s \<Longrightarrow> reader_lease rh = Some c \<Longrightarrow> leases_on s c \<noteq> 0"
  by (auto simp: leases_on_def)

lemma inv_allocation:
  assumes inv: "transport_inv (leases_on s) s" and p: "pool_inv (pool w) (kern w)"
    and sp: "space_grows (kern (node s)) (kern w)" "new_unpublished (kern (node s)) (kern w)"
      "next_oid (kern (node s)) \<le> next_oid (kern w)" "\<forall>c < next_oid (kern (node s)). osize (kern w) c = osize (kern (node s)) c"
    and st: "states w = states (node s)" "next_state w = next_state (node s)"
    and len: "length (all_blocks (pool (node s))) \<le> length (all_blocks (pool w))"
    and ctl: "\<forall>j < length (all_blocks (pool (node s))). control (all_blocks (pool w) ! j) = control (all_blocks (pool (node s)) ! j)"
    and own: "\<And>sb j. owns sb j (node s) \<Longrightarrow> owns sb j w" and res: "reserved i s w"
  shows "transport_inv (leases_on s) (s\<lparr>node := w\<rparr>)"
proof -
  let ?w = "node s"
  note invD = transport_invD [OF inv]
  have ob: "c < next_oid (kern ?w)" if "is_block c ?w" for c using that is_block_object [OF invD(1)] by blast
  have hc: "hdr (kern w) c = hdr (kern ?w) c" if "leases_on s c \<noteq> 0" "is_block c ?w" for c
    using res that(1) ob [OF that(2)] unfolding reserved_def by (metis (no_types))
  have blk: "is_block c w" if "is_block c ?w" for c
  proof -
    from that obtain j where "j < length (all_blocks (pool ?w))" "control (all_blocks (pool ?w) ! j) = Some c"
      by (auto simp: is_block_def)
    with ctl len have "j < length (all_blocks (pool w))" "control (all_blocks (pool w) ! j) = Some c" by simp_all
    then show ?thesis by (auto simp: is_block_def)
  qed
  have fin: "is_finalized sb w = is_finalized sb ?w" for sb by (simp add: is_finalized_def st split: option.split)
  have src: "source_ok d a c w" if "source_ok d a c ?w" "leases_on s c \<noteq> 0" "is_block c ?w" for d a c
    using that hc [OF that(2,3)] sp(1) by (simp add: source_ok_def object_at_def space_grows_def)
  have "cache_ok (caches s q) (kern w)" for q by (rule cache_ok_grows [OF invD(2) sp(1,3,4)])
  moreover have "buffer_ok im w" if "buffer_ok im ?w" for im using that own by (auto simp: buffer_ok_def st)
  moreover have "writer_ok wh im w = writer_ok wh im ?w" for wh im by (simp add: writer_ok_def st)
  moreover have "received_ok y w" if "y \<in># received s" for y
    using invD(6) [OF that] that src blk leases_on_pos(1) unfolding received_ok_def by metis
  moreover have "reader_ok z w" if "z \<in># readers s" for z
    using invD(7) [OF that] that src blk leases_on_pos(2) unfolding reader_ok_def by metis
  moreover have "counts_ok (leases_on s) w"
    unfolding counts_ok_def
  proof (intro allI impI)
    fix c assume "is_block c w"
    then obtain j where j: "j < length (all_blocks (pool w))" "control (all_blocks (pool w) ! j) = Some c" by (auto simp: is_block_def)
    show "reader_lock_of (reader_state (hdr (kern w) c)) = Readers (leases_on s c)"
    proof (cases "i < length (all_blocks (pool w)) \<and> control (all_blocks (pool w) ! i) = Some c")
      case True
      with res show ?thesis by (simp add: reserved_def reader_lock_of_def)
    next
      case False
      with j have "j \<noteq> i" by auto
      with res j have "is_block c ?w" unfolding reserved_def is_block_def by metis
      with invD(8) ob res False show ?thesis unfolding reserved_def counts_ok_def by metis
    qed
  qed
  moreover have "generations_ok (history s) w"
    unfolding generations_ok_def
  proof (intro conjI allI impI)
    fix j assume j: "j < length (all_blocks (pool w))"
    show "current_uid (all_blocks (pool w) ! j) \<noteq> 0"
      using res j invD(9) unfolding reserved_def generations_ok_def by metis
    fix l assume l: "l < length (all_blocks (pool w))" "current_uid (all_blocks (pool w) ! j) = current_uid (all_blocks (pool w) ! l)"
    have new: "current_uid (all_blocks (pool w) ! m) \<noteq> current_uid (all_blocks (pool w) ! i)"
      if "m < length (all_blocks (pool w))" "m \<noteq> i" "i < length (all_blocks (pool w))" for m
      using res that unfolding reserved_def unused_uid_def by (metis nth_mem)
    show "j = l"
    proof (cases "j = i \<or> l = i")
      case True
      with new j l show ?thesis by metis
    next
      case False
      with res j l invD(9) show ?thesis unfolding reserved_def generations_ok_def by metis
    qed
  next
    fix c assume c: "c < next_oid (kern w)" "ipc_uid (hdr (kern w) c) \<noteq> 0"
    then have c0: "c < next_oid (kern ?w)" using sp(2) unfolding new_unpublished_def by (metis not_le)
    with c(2) res have h: "hdr (kern w) c = hdr (kern ?w) c" "i < length (all_blocks (pool w)) \<longrightarrow> control (all_blocks (pool w) ! i) \<noteq> Some c"
      unfolding reserved_def by metis+
    with invD(9) c0 c(2) obtain j where j: "j < length (all_blocks (pool ?w))" "control (all_blocks (pool ?w) ! j) = Some c"
      "current_uid (all_blocks (pool ?w) ! j) = ipc_uid (hdr (kern ?w) c)" unfolding generations_ok_def by metis
    have jl: "j < length (all_blocks (pool w))" using j(1) len by simp
    moreover have "j \<noteq> i" using h(2) jl ctl j(1,2) by metis
    ultimately show "\<exists>j < length (all_blocks (pool w)). control (all_blocks (pool w) ! j) = Some c \<and>
        current_uid (all_blocks (pool w) ! j) = ipc_uid (hdr (kern w) c)"
      using res j h(1) unfolding reserved_def by metis
    show "history s (ipc_uid (hdr (kern w) c)) \<noteq> None" using invD(9) c0 c(2) h(1) unfolding generations_ok_def by metis
  qed
  moreover have "seals_ok (buffers s) (writers s) (history s) w"
    unfolding seals_ok_def fin
  proof (intro allI impI)
    fix j bytes c assume j: "j < length (all_blocks (pool w))" "history s (current_uid (all_blocks (pool w) ! j)) = Some (bytes, True)"
      "control (all_blocks (pool w) ! j) = Some c"
    have "j \<noteq> i" using res j(1,2) by (auto simp: reserved_def unused_uid_def)
    with res j have j0: "j < length (all_blocks (pool ?w))" "all_blocks (pool w) ! j = all_blocks (pool ?w) ! j"
      unfolding reserved_def by metis+
    moreover from this j(3) have "pay (kern w) c = pay (kern ?w) c" using res ob unfolding reserved_def is_block_def by metis
    ultimately show "pay (kern w) c = bytes \<and> (\<forall>x im. buffers s x = Some im \<longrightarrow> deleter (impl_buffer im) = Free_block (Some j) \<longrightarrow>
        writers s x = None \<and> is_finalized (impl_buffer im) ?w)"
      using invD(10) j(2,3) unfolding seals_ok_def by simp
  qed
  moreover have "\<forall>c. Some c \<in># lost s \<longrightarrow> is_block c w" using invD(11) blk by simp
  ultimately show ?thesis using invD p by (simp add: transport_inv_def)
qed

lemma leases_on_blocks:
  assumes "transport_inv L s" and "\<not> is_block c (node s)"
  shows "leases_on s c = 0"
proof -
  have "buffer_control (impl_buffer im) \<noteq> Some c" if "(d, im) \<in># received s" for d im
    using transport_invD(6) [OF assms(1) that] assms(2) by (auto simp: received_ok_def)
  moreover have "reader_lease rh \<noteq> Some c" if "(dd, rh) \<in># readers s" for dd rh
    using transport_invD(7) [OF assms(1) that] assms(2) by (auto simp: reader_ok_def)
  moreover have "Some c \<notin># lost s" using transport_invD(11) [OF assms(1)] assms(2) by blast
  ultimately show ?thesis by (auto simp: leases_on_def not_in_iff)
qed

lemma making_failed_cases:
  assumes inv: "transport_inv L s" and n: "n > 0"
    and good: "linux_good env (kern (node s)) (kSharedBufferPayloadOffset + n * esz)"
    and mk: "new_impl (linux_create_platform_mapping env) esz n (node s) = (Inl e, w)"
  shows "w = node s \<or> (\<exists>e p k. allocate (linux_create_platform_mapping env) (n * esz) (pool (node s)) (kern (node s)) = (Inl e, p, k) \<and>
    w = (node s)\<lparr>pool := p, kern := k\<rparr> \<and> all_blocks p = all_blocks (pool (node s)))"
proof -
  note invD = transport_invD [OF inv]
  let ?w = "node s"
  have ar: "allocate_raw (linux_create_platform_mapping env) esz n ?w = (Inl e, w)"
    using mk n by (auto simp: new_impl_positive split: prod.splits sum.splits)
  consider "w = ?w" | r0 p k where "allocate (linux_create_platform_mapping env) (n * esz) (pool ?w) (kern ?w) = (r0, p, k)"
      "w = ?w\<lparr>pool := p, kern := k\<rparr>" "byte_count esz n = Inr (n * esz)"
    using new_impl_cases [OF mk n] by metis
  then show ?thesis
  proof cases
    case 1
    then show ?thesis by simp
  next
    case (2 r0 p k)
    have "\<exists>e. r0 = Inl e"
    proof (cases r0)
      case (Inr i)
      note as = linux.allocate_success [OF invD(1) good 2(1) [unfolded Inr]]
      define sb where "sb = empty_buffer\<lparr>data_ptr := mapping (all_blocks p ! i) + kSharedBufferPayloadOffset,
        buffer_size := block_payload_size (all_blocks p ! i), deleter := Free_block (Some i),
        buffer_control := control (all_blocks p ! i)\<rparr>"
      have "owns sb i w" using as by (simp add: owns_def sb_def empty_buffer_def 2(2))
      from owns_block [OF this] have "mapping (all_blocks p ! i) + kSharedBufferPayloadOffset \<noteq> 0" by (auto simp: sb_def)
      with Inr 2 ar show ?thesis by (simp add: allocate_raw_def Let_def shared_buffer_def)
    qed simp
    then obtain e' where r0: "r0 = Inl e'" by blast
    from linux.allocate_failure [OF invD(1) good 2(1) [unfolded r0]] 2 r0 show ?thesis by blast
  qed
qed

lemma inv_making_failed:
  assumes inv: "transport_inv (leases_on s) s" and n: "n > 0"
    and good: "linux_good env (kern (node s)) (kSharedBufferPayloadOffset + n * esz)"
    and mk: "new_impl (linux_create_platform_mapping env) esz n (node s) = (Inl e, w)"
  shows "transport_inv (leases_on s) (s\<lparr>node := w\<rparr>)"
proof (cases "w = node s")
  case True
  with inv show ?thesis by simp
next
  case False
  note invD = transport_invD [OF inv]
  let ?w = "node s"
  have ar: "allocate_raw (linux_create_platform_mapping env) esz n ?w = (Inl e, w)"
    using mk n by (auto simp: new_impl_positive split: prod.splits sum.splits)
  note raw = linux.allocate_raw_failure [OF invD(1) good ar]
  from making_failed_cases [OF inv n good mk] False obtain e' p k where
    al: "allocate (linux_create_platform_mapping env) (n * esz) (pool ?w) (kern ?w) = (Inl e', p, k)"
    and w: "w = ?w\<lparr>pool := p, kern := k\<rparr>" by blast
  note af = linux.allocate_failure [OF invD(1) good al] and sp = allocate_space [OF al invD(1) good]
  show ?thesis
  proof (rule inv_allocation [OF inv, where i = "length (all_blocks (pool w))"])
    show "reserved (length (all_blocks (pool w))) s w" using af by (simp add: reserved_def w objects_kept_def)
  qed (use af sp raw w in simp_all)
qed

lemma inv_making:
  assumes inv: "transport_inv (leases_on s) s" and x: "buffers s x = None" and n: "n > 0"
    and good: "linux_good env (kern (node s)) (kSharedBufferPayloadOffset + n * esz)"
    and mk: "new_impl (linux_create_platform_mapping env) esz n (node s) = (Inr im, w)"
    and del: "deleter (impl_buffer im) = Free_block (Some i)" and unused: "unused_uid s (current_uid (all_blocks (pool w) ! i))"
  shows "transport_inv (leases_on s) (s\<lparr>node := w, buffers := (buffers s)(x \<mapsto> im)\<rparr>)"
proof -
  note invD = transport_invD [OF inv]
  let ?w = "node s"
  from new_impl_cases [OF mk n] del obtain p k where
    al: "allocate (linux_create_platform_mapping env) (n * esz) (pool ?w) (kern ?w) = (Inr i, p, k)"
    and w: "w = ?w\<lparr>pool := p, kern := k\<rparr>" and raw: "allocate_raw (linux_create_platform_mapping env) esz n ?w = (Inr (impl_buffer im), w)"
    and pid: "ipc_pid (impl_buffer im) = 0" by auto
  note as = linux.allocate_success [OF invD(1) good al] and sp = allocate_space [OF al invD(1) good]
  from linux.allocate_raw_success [OF invD(1) good raw] obtain i' where ar: "owns (impl_buffer im) i' w"
    "handle_state (impl_buffer im) = None" "\<And>other j. owns other j ?w \<Longrightarrow> j \<noteq> i' \<and> owns other j w" by blast
  have i': "i' = i" using ar(1) del by (simp add: owns_def)
  have zero: "leases_on s c = 0" if c: "control (all_blocks p ! i) = Some c" for c
  proof (cases "i < length (all_blocks (pool ?w))")
    case True
    with sp c have "control (all_blocks (pool ?w) ! i) = Some c" by simp
    moreover from this True as have "reader_state (hdr (kern ?w) c) = 0" by auto
    ultimately show ?thesis using invD(8) True by (auto simp: counts_ok_def is_block_def reader_lock_of_def)
  next
    case False
    with as have "i = length (all_blocks (pool ?w))" by blast
    with sp c have "next_oid (kern ?w) \<le> c" by blast
    then have "\<not> is_block c ?w" using is_block_object [OF invD(1)] by (metis not_le)
    then show ?thesis by (rule leases_on_blocks [OF inv])
  qed
  have i1: "transport_inv (leases_on s) (s\<lparr>node := w\<rparr>)"
  proof (rule inv_allocation [OF inv, where i = i])
    have "j < length (all_blocks (pool ?w)) \<and> all_blocks p ! j = all_blocks (pool ?w) ! j" if "j < length (all_blocks p)" "j \<noteq> i" for j
      using as that by (metis less_SucE)
    moreover have "\<forall>c < next_oid (kern ?w). pay k c = pay (kern ?w) c \<and> (hdr k c = hdr (kern ?w) c \<or> control (all_blocks p ! i) = Some c)"
      using as by blast
    ultimately show "reserved i s w" using as zero unused by (auto simp: reserved_def w)
    show "length (all_blocks (pool ?w)) \<le> length (all_blocks (pool w))" using as by (auto simp: w)
  qed (use as sp ar(3) w in simp_all)
  have distinct: "deleter (impl_buffer im') \<noteq> Free_block (Some i)" if y: "buffers s y = Some im'" for y im'
  proof -
    from invD(3) [OF y] obtain j where "owns (impl_buffer im') j ?w" by (auto simp: buffer_ok_def)
    with ar(3) [OF this] i' show ?thesis by (simp add: owns_def)
  qed
  have "buffer_ok im w" using ar(1,2) pid by (auto simp: buffer_ok_def)
  moreover have "separate ((buffers s)(x \<mapsto> im))"
    using invD(4) distinct del unfolding separate_def by (metis fun_upd_apply option.inject)
  moreover have "\<exists>im'. ((buffers s)(x \<mapsto> im)) y = Some im' \<and> writer_ok wh im' w" if "writers s y = Some wh" for y wh
    using transport_invD(5) [OF i1, of y wh] that x by auto
  moreover have "seals_ok ((buffers s)(x \<mapsto> im)) (writers s) (history s) w"
  proof -
    have "history s (current_uid (all_blocks (pool w) ! i)) = None" using unused by (simp add: unused_uid_def)
    with transport_invD(10) [OF i1] del show ?thesis unfolding seals_ok_def by (auto split: if_splits)
  qed
  ultimately show ?thesis using i1 by (simp add: transport_inv_def)
qed

section \<open>Moving a buffer, ending a process\<close>

lemma inv_moving:
  assumes inv: "transport_inv L s" and x: "buffers s x = Some im" "buffers s y = None"
  shows "transport_inv L (s\<lparr>buffers := (buffers s)(x := None, y \<mapsto> im), writers := (writers s)(x := None, y := writers s x)\<rparr>)"
proof -
  note invD = transport_invD [OF inv]
  let ?b = "(buffers s)(x := None, y \<mapsto> im)" and ?ws = "(writers s)(x := None, y := writers s x)"
  let ?f = "\<lambda>z. if z = y then x else z"
  have b: "buffers s (?f z) = Some i \<and> (z = y \<or> z \<noteq> x)" if "?b z = Some i" for z i
    using that x by (auto split: if_splits)
  have ws: "?ws z = writers s (?f z)" if "?b z \<noteq> None" for z using that by auto
  have "writers s y = None" using invD(5) x(2) by (metis option.distinct(1) not_None_eq)
  then have w: "writers s (?f z) = Some wh \<and> (z = y \<or> z \<noteq> x)" if "?ws z = Some wh" for z wh
    using that by (auto split: if_splits)
  have "\<forall>z i. ?b z = Some i \<longrightarrow> buffer_ok i (node s)" using b invD(3) by blast
  moreover have "separate ?b" using invD(4) b unfolding separate_def by (metis (full_types))
  moreover have "\<exists>i. ?b z = Some i \<and> writer_ok wh i (node s)" if "?ws z = Some wh" for z wh
  proof -
    from w [OF that] invD(5) obtain i where "buffers s (?f z) = Some i" "writer_ok wh i (node s)" by blast
    moreover from this(1) w [OF that] x(1) have "?b z = Some i" by (auto split: if_splits)
    ultimately show ?thesis by blast
  qed
  moreover have "seals_ok ?b ?ws (history s) (node s)"
    unfolding seals_ok_def
  proof (intro allI impI)
    fix i bytes c
    assume a: "i < length (all_blocks (pool (node s)))" "history s (current_uid (all_blocks (pool (node s)) ! i)) = Some (bytes, True)"
      "control (all_blocks (pool (node s)) ! i) = Some c"
    have "?ws z = None \<and> is_finalized (impl_buffer im') (node s)"
      if "?b z = Some im'" "deleter (impl_buffer im') = Free_block (Some i)" for z im'
      using invD(10) a b [OF that(1)] that(2) ws [of z] that(1) unfolding seals_ok_def by (metis option.distinct(1))
    with invD(10) a show "pay (kern (node s)) c = bytes \<and> (\<forall>z im'. ?b z = Some im' \<longrightarrow>
        deleter (impl_buffer im') = Free_block (Some i) \<longrightarrow> ?ws z = None \<and> is_finalized (impl_buffer im') (node s))"
      unfolding seals_ok_def by blast
  qed
  ultimately show ?thesis using inv by (simp add: transport_inv_def)
qed

text \<open>The leases of a process that ends only change from held to lost.\<close>

lemma count_lease: "count (image_mset f M) y = size {# x \<in># M. f x = y #}"
  by (induction M) auto

lemma inv_ending:
  assumes inv: "transport_inv (leases_on s) s" and m: "received s = R + received'" "readers s = D + readers'"
  shows "let s' = s\<lparr>caches := (caches s)(q := (\<lambda>_. None)), received := received', readers := readers', lost := lost s + leases_of R D\<rparr>
    in transport_inv (leases_on s') s'"
proof -
  let ?s = "s\<lparr>caches := (caches s)(q := (\<lambda>_. None)), received := received', readers := readers', lost := lost s + leases_of R D\<rparr>"
  note invD = transport_invD [OF inv]
  have L: "leases_on ?s = leases_on s" by (simp add: leases_on_def m leases_of_def count_lease fun_eq_iff)
  have "is_block c (node s)" if l: "Some c \<in># lost s + leases_of R D" for c
  proof -
    have "is_block c (node s)" if "(d, im) \<in># R" "Some c = buffer_control (impl_buffer im)" for d im
      using invD(6) [of "(d, im)"] that m(1) by (auto simp: received_ok_def)
    moreover have "is_block c (node s)" if "(dd, rh) \<in># D" "Some c = reader_lease rh" for dd rh
      using invD(7) [of "(dd, rh)"] that m(2) by (auto simp: reader_ok_def)
    ultimately show ?thesis using l invD(11) by (auto simp: leases_of_def)
  qed
  moreover have "\<forall>p. cache_ok (((caches s)(q := (\<lambda>_. None))) p) (kern (node s))" using invD(2) by (auto simp: cache_ok_def)
  moreover have "\<forall>x \<in># received'. received_ok x (node s)" "\<forall>x \<in># readers'. reader_ok x (node s)"
    using invD(6,7) m by auto
  ultimately have "transport_inv (leases_on s) ?s" using inv by (simp add: transport_inv_def)
  then show ?thesis by (simp only: Let_def L)
qed

section \<open>Every step\<close>

lemma basic_step_inv:
  assumes "basic_step s t" and "transport_inv (leases_on s) s"
  shows "transport_inv (leases_on t) t"
  using assms
proof (induction rule: basic_step.induct)
  case (making s x n esz env im w i)
  from inv_making [OF making(8,1,2,4-7)] show ?case by simp
next
  case (making_failed n esz env s e w)
  from inv_making_failed [OF making_failed(5,1,3,4)] show ?case by simp
next
  case (writing s x im wh im' w)
  from inv_writing [OF writing(3,1,2)] show ?case by simp
next
  case (writing_refused s x im e im' w)
  from inv_writing [OF writing_refused(3,1,2)] show ?case by simp
next
  case (storing s x im wh bs)
  from inv_storing [OF storing(4,1-3)] show ?case by simp
next
  case (writing_done s x wh wh' w)
  from inv_writing_done [OF writing_done(3,1,2)] show ?case by simp
next
  case (publishing s x im benv gsz pid type_name be gid dd w)
  from inv_publishing [OF publishing(4,1-3)] show ?case by simp
next
  case (destroying s x im)
  from inv_destroying [OF destroying(3,1,2)] show ?case by simp
next
  case (accepting ienv s d type_name q im cache k)
  from inv_accepting [OF accepting(3,1,2)] show ?case by (simp only: Let_def)
next
  case (rejecting ienv s d type_name q e cache k)
  from inv_rejecting [OF rejecting(3,1,2)] show ?case by simp
next
  case (relaying d im s benv gsz pid type_name be gid dd w)
  from inv_relaying [OF relaying(3,1,2)] show ?case by simp
next
  case (reading s d im rest create esz rh im' w)
  from inv_reading [OF reading(3,1,2)] show ?case by (simp add: Let_def)
next
  case (reading_own s x im create esz rh im' w)
  from inv_reading_own [OF reading_own(3,1,2)] show ?case by (simp add: Let_def)
next
  case (reading_refused s d im rest create esz e im' w)
  from inv_reading [OF reading_refused(3,1,2)] show ?case by (simp add: Let_def)
next
  case (reading_own_refused s x im create esz e im' w)
  from inv_reading_own [OF reading_own_refused(3,1,2)] show ?case by (simp add: Let_def)
next
  case (reading_done s dd rh rest rh' w)
  from inv_reading_done [OF reading_done(3,1,2)] show ?case by simp
next
  case (dropping s d im rest)
  from inv_dropping [OF dropping(2,1)] show ?case by simp
next
  case (passing s cl)
  from inv_passing [OF passing] show ?case by simp
next
  case (moving s x im y)
  have "leases_on (s\<lparr>buffers := (buffers s)(x := None, y \<mapsto> im), writers := (writers s)(x := None, y := writers s x)\<rparr>) = leases_on s"
    by (simp add: leases_on_def fun_eq_iff)
  with inv_moving [OF moving(3,1,2)] show ?case by simp
next
  case (ending s R received' D readers' q)
  from inv_ending [OF ending(4,1,2)] show ?case by (simp only: Let_def)
qed

lemma transport_start_inv: "transport_inv (leases_on (transport_start rng br k)) (transport_start rng br k)"
proof -
  have "pool_inv (new_pool rng br) (k\<lparr>next_oid := 0\<rparr>)" by (rule pool_inv_new)
  then show ?thesis
    by (simp add: transport_inv_def transport_start_def cache_ok_def separate_def counts_ok_def is_block_def
        generations_ok_def seals_ok_def new_pool_def)
qed

lemma basic_steps_inv: "basic_step\<^sup>*\<^sup>* s t \<Longrightarrow> transport_inv (leases_on s) s \<Longrightarrow> transport_inv (leases_on t) t"
  by (induction rule: rtranclp_induct) (simp_all add: basic_step_inv)

end
