(* ===== verification/Transport_Run.thy ===== *)
theory Transport_Run
  imports Transport_Correct
begin

text \<open>
  The operations of the library that are made of several calls (resizing, cloning, copying out,
  promotion), as steps of the transport, and its reachable states.  Each of them is a run of
  single calls through a temporary buffer, so they keep the invariant for free.
\<close>

section \<open>Steps\<close>

text \<open>
  What an allocation of \<open>n\<close> elements may rely on: the system calls behave, and the UID it draws
  is unused.
\<close>

definition fair_allocation :: "linux_create_env \<Rightarrow> u64 \<Rightarrow> u64 \<Rightarrow> transport \<Rightarrow> bool" where
  "fair_allocation env esz n s \<longleftrightarrow> n > 0 \<and> esz \<noteq> 0 \<and> linux_good env (kern (node s)) (kSharedBufferPayloadOffset + n * esz) \<and>
     (case allocate_raw (linux_create_platform_mapping env) esz n (node s) of
        (Inl _, _) \<Rightarrow> True
      | (Inr fresh, w) \<Rightarrow>
          (case deleter fresh of
             Free_block (Some i) \<Rightarrow> unused_uid s (current_uid (all_blocks (pool w) ! i))
           | _ \<Rightarrow> True))"

text \<open>The element size is the one the buffer was made with.\<close>

definition of_type :: "u64 \<Rightarrow> SharedBufferImpl \<Rightarrow> bool" where
  "of_type esz im \<longleftrightarrow> byte_count esz (impl_size im) = Inr (buffer_size (impl_buffer im))"

abbreviation linux_create :: "linux_create_env \<Rightarrow> create_mapping" where
  "linux_create \<equiv> linux_create_platform_mapping"

text \<open>
  Resizing to zero is clearing.  An empty buffer owns nothing and hands out no handle; it is not
  in \<open>buffers\<close>, and resizing it is \<open>making\<close>.  The buffer of a promoted handle stays reachable
  through \<^verbatim>\<open>get_promoted_buffer\<close>: it is the buffer \<open>y\<close>, and the handle is kept without it.
\<close>

inductive transport_step :: "transport \<Rightarrow> transport \<Rightarrow> bool" where
  single: "basic_step s t \<Longrightarrow> transport_step s t"
| resizing: "buffers s x = Some im \<Longrightarrow> writers s x = None \<Longrightarrow> of_type esz im \<Longrightarrow> fair_allocation env esz n s \<Longrightarrow>
    resize_impl (linux_create env) esz n im (node s) = (Inr (), im', w) \<Longrightarrow>
    transport_step s (s\<lparr>node := w, buffers := (buffers s)(x \<mapsto> im')\<rparr>)"
| resizing_failed: "buffers s x = Some im \<Longrightarrow> of_type esz im \<Longrightarrow> fair_allocation env esz n s \<Longrightarrow>
    resize_impl (linux_create env) esz n im (node s) = (Inl e, im', w) \<Longrightarrow>
    transport_step s (s\<lparr>node := w, buffers := (buffers s)(x \<mapsto> im')\<rparr>)"
| clearing: "buffers s x = Some im \<Longrightarrow> writers s x = None \<Longrightarrow> clear_impl im (node s) = (im', w) \<Longrightarrow>
    transport_step s (s\<lparr>node := w, buffers := (buffers s)(x := None)\<rparr>)"
| cloning: "buffers s x = Some im \<Longrightarrow> buffers s y = None \<Longrightarrow> of_type esz im \<Longrightarrow> fair_allocation env esz (impl_size im) s \<Longrightarrow>
    clone_impl (linux_create env) esz im (node s) = (Inr copy, im', w) \<Longrightarrow>
    transport_step s (s\<lparr>node := w, buffers := (buffers s)(x \<mapsto> im', y \<mapsto> copy)\<rparr>)"
| cloning_failed: "buffers s x = Some im \<Longrightarrow> of_type esz im \<Longrightarrow> fair_allocation env esz (impl_size im) s \<Longrightarrow>
    clone_impl (linux_create env) esz im (node s) = (Inl e, im', w) \<Longrightarrow>
    transport_step s (s\<lparr>node := w, buffers := (buffers s)(x \<mapsto> im')\<rparr>)"
| converting: "buffers s x = Some im \<Longrightarrow> of_type esz im \<Longrightarrow> to_cpu esz im (node s) = (r, im', w) \<Longrightarrow>
    transport_step s (s\<lparr>node := w, buffers := (buffers s)(x \<mapsto> im')\<rparr>)"
| converting_received: "received s = add_mset (d, im) rest \<Longrightarrow> of_type esz im \<Longrightarrow> to_cpu esz im (node s) = (r, im', w) \<Longrightarrow>
    transport_step s (s\<lparr>node := w, received := add_mset (d, im') rest\<rparr>)"
| promoting: "buffers s y = None \<Longrightarrow> esz \<noteq> 0 \<Longrightarrow> fair_allocation env 1 (n * esz) s \<Longrightarrow>
    from_input_buffer (linux_create env) esz (Other_impl n source) (node s) = (Inr rh, b, w) \<Longrightarrow>
    read_promoted rh = Some sb \<Longrightarrow>
    transport_step s (s\<lparr>node := w, buffers := (buffers s)(y \<mapsto> \<lparr>impl_size = n * esz, impl_buffer = sb\<rparr>),
      readers := add_mset (None, rh\<lparr>read_promoted := None\<rparr>) (readers s)\<rparr>)"
| promoting_failed: "esz \<noteq> 0 \<Longrightarrow> fair_allocation env 1 (n * esz) s \<Longrightarrow>
    from_input_buffer (linux_create env) esz (Other_impl n source) (node s) = (Inl e, b, w) \<Longrightarrow>
    transport_step s (s\<lparr>node := w\<rparr>)"
| promoted_done: "buffers s y = Some im \<Longrightarrow> writers s y = None \<Longrightarrow>
    readers s = add_mset (None, rh\<lparr>read_promoted := None\<rparr>) rest \<Longrightarrow> read_promoted rh = Some (impl_buffer im) \<Longrightarrow>
    release_read_handle rh (node s) = (rh', w) \<Longrightarrow>
    transport_step s (s\<lparr>node := w, buffers := (buffers s)(y := None), readers := rest\<rparr>)"

inductive transport_reachable :: "transport \<Rightarrow> bool" where
  start: "transport_reachable (transport_start rng br k)"
| step: "transport_reachable s \<Longrightarrow> transport_step s t \<Longrightarrow> transport_reachable t"

section \<open>Single calls, as steps of a run\<close>

lemma finite_buffers:
  assumes "transport_inv L s"
  shows "finite (dom (buffers s))" "dom (writers s) \<subseteq> dom (buffers s)"
proof -
  note invD = transport_invD [OF assms]
  let ?slot = "\<lambda>x. deleter (impl_buffer (the (buffers s x)))"
  have "?slot ` dom (buffers s) \<subseteq> (\<lambda>i. Free_block (Some i)) ` {..< length (all_blocks (pool (node s)))}"
    using invD(3) by (fastforce simp: buffer_ok_def owns_def)
  then have "finite (?slot ` dom (buffers s))" by (rule finite_subset) simp
  moreover have "inj_on ?slot (dom (buffers s))" using invD(4) unfolding separate_def inj_on_def by fastforce
  ultimately show "finite (dom (buffers s))" by (rule finite_imageD)
  show "dom (writers s) \<subseteq> dom (buffers s)" using invD(5) by fastforce
qed

lemma free_slot:
  assumes "transport_inv L s"
  shows "\<exists>y. buffers s y = None \<and> writers s y = None"
  using ex_new_if_finite [OF infinite_UNIV_nat finite_buffers(1) [OF assms]] finite_buffers(2) [OF assms] by fastforce

lemma from_input_of:
  "impl_size im \<noteq> 0 \<Longrightarrow> get_read_handle (impl_buffer im) w = (r, sb, w') \<Longrightarrow>
   from_input_buffer create esz (Shared_impl im) w = (r, Shared_impl (im\<lparr>impl_buffer := sb\<rparr>), w')"
  by (simp add: from_input_buffer_def rosidl_size_def)

lemma from_output_of:
  "impl_size im \<noteq> 0 \<Longrightarrow> get_write_handle (impl_buffer im) w = (r, sb, w') \<Longrightarrow>
   from_output_buffer (Shared_impl im) w = (r, Shared_impl (im\<lparr>impl_buffer := sb\<rparr>), w')"
  by (simp add: from_output_buffer_def rosidl_size_def)

lemma new_impl_of:
  "n > 0 \<Longrightarrow> allocate_raw create esz n w = (r, w') \<Longrightarrow>
   new_impl create esz n w = ((case r of Inl e \<Rightarrow> Inl e | Inr sb \<Rightarrow> Inr \<lparr>impl_size = n, impl_buffer = sb\<rparr>), w')"
  by (simp add: new_impl_positive split: sum.split)

lemma fair_failed:
  assumes "fair_allocation env esz n s" and "allocate_raw (linux_create env) esz n (node s) = (Inl e, w)"
  shows "basic_step s (s\<lparr>node := w\<rparr>)"
  using assms new_impl_of [OF _ assms(2)]
  by (intro basic_step.making_failed [of n esz env s e w]) (simp_all add: fair_allocation_def)

lemma fair_made:
  assumes inv: "transport_inv L s" and fair: "fair_allocation env esz n s" and y: "buffers s y = None"
    and al: "allocate_raw (linux_create env) esz n (node s) = (Inr fresh, w)"
  shows "basic_step s (s\<lparr>node := w, buffers := (buffers s)(y \<mapsto> \<lparr>impl_size = n, impl_buffer = fresh\<rparr>)\<rparr>)"
    "buffer_size fresh = n * esz" "byte_count esz n = Inr (n * esz)"
proof -
  have n: "n > 0" "esz \<noteq> 0" and good: "linux_good env (kern (node s)) (kSharedBufferPayloadOffset + n * esz)"
    using fair by (simp_all add: fair_allocation_def)
  note raw = linux.allocate_raw_success [OF transport_invD(1) [OF inv] good al]
  from raw obtain i where del: "deleter fresh = Free_block (Some i)" by (auto simp: owns_def)
  with fair al have "unused_uid s (current_uid (all_blocks (pool w) ! i))" by (simp add: fair_allocation_def)
  with new_impl_of [OF n(1) al] n good y del
  show "basic_step s (s\<lparr>node := w, buffers := (buffers s)(y \<mapsto> \<lparr>impl_size = n, impl_buffer = fresh\<rparr>)\<rparr>)"
    by (intro basic_step.making) simp_all
  from raw show "buffer_size fresh = n * esz" "byte_count esz n = Inr (n * esz)" by blast+
qed

lemma run1: "basic_step s t \<Longrightarrow> t = u \<Longrightarrow> basic_step\<^sup>*\<^sup>* s u"
  by blast

lemma run_step: "basic_step s t \<Longrightarrow> basic_step\<^sup>*\<^sup>* t u \<Longrightarrow> basic_step\<^sup>*\<^sup>* s u"
  by (rule converse_rtranclp_into_rtranclp)


section \<open>Composite operations are runs of single calls\<close>

text \<open>Writing once: a write handle, the store, and the release.\<close>

lemma store_once_run:
  assumes y: "buffers s y = Some b" "writers s y = None" "impl_size b \<noteq> 0"
    and wr: "get_write_handle (impl_buffer b) (node s) = (Inr wh, sb, w1)"
    and len: "length bytes \<le> unat (buffer_size (impl_buffer b))"
    and rel: "release_write_handle wh (write_memory (write_ptr wh) bytes w1) = (wh', w)"
  shows "basic_step\<^sup>*\<^sup>* s (s\<lparr>node := w, buffers := (buffers s)(y \<mapsto> b\<lparr>impl_buffer := sb\<rparr>)\<rparr>)"
proof -
  let ?s1 = "s\<lparr>node := w1, buffers := (buffers s)(y \<mapsto> b\<lparr>impl_buffer := sb\<rparr>), writers := (writers s)(y \<mapsto> wh)\<rparr>"
  let ?s2 = "?s1\<lparr>node := write_memory (write_ptr wh) bytes w1\<rparr>"
  let ?s3 = "?s2\<lparr>node := w, writers := (writers ?s2)(y := None)\<rparr>"
  have 1: "basic_step s ?s1" by (rule basic_step.writing [OF y(1) from_output_of [OF y(3) wr]])
  have "opens_state (impl_buffer b) sb w1" using get_write_handle_calm [OF wr] by blast
  then have "buffer_size sb = buffer_size (impl_buffer b)" by (auto simp: opens_state_def)
  then have 2: "basic_step ?s1 ?s2" using len basic_step.storing [of ?s1 y "b\<lparr>impl_buffer := sb\<rparr>" wh bytes] by simp
  have "basic_step ?s2 ?s3" using rel by (intro basic_step.writing_done) simp_all
  moreover have "?s3 = s\<lparr>node := w, buffers := (buffers s)(y \<mapsto> b\<lparr>impl_buffer := sb\<rparr>)\<rparr>" using y(2) by (simp add: fun_upd_idem)
  ultimately show ?thesis by (intro run_step [OF 1] run_step [OF 2] run1)
qed

text \<open>A temporary buffer is dropped again.\<close>

lemma drop_slot:
  assumes "buffers s y = None" and "writers s y = None"
  shows "basic_step (s\<lparr>node := w, buffers := (buffers s)(y \<mapsto> b)\<rparr>) (s\<lparr>node := snd (reset_buffer (impl_buffer b) w)\<rparr>)"
proof -
  let ?t = "s\<lparr>node := w, buffers := (buffers s)(y \<mapsto> b)\<rparr>"
  have "basic_step ?t (?t\<lparr>node := destroy_impl b (node ?t), buffers := (buffers ?t)(y := None)\<rparr>)"
    using assms by (intro basic_step.destroying) simp_all
  moreover have "?t\<lparr>node := destroy_impl b (node ?t), buffers := (buffers ?t)(y := None)\<rparr> =
      s\<lparr>node := snd (reset_buffer (impl_buffer b) w)\<rparr>" using assms by (simp add: destroy_impl_def fun_upd_idem)
  ultimately show ?thesis by simp
qed

text \<open>
  Copying between two buffers: a read handle on the source, a write handle on the destination,
  the store, and the release of both.
\<close>

lemma copy_payload_run:
  assumes cp: "copy_payload (impl_buffer a) (impl_buffer b) n (node s) = (r, src, dst, w)"
    and x: "buffers s x = Some a" and y: "buffers s y = Some b" "x \<noteq> y" "writers s y = None"
    and sz: "impl_size a \<noteq> 0" "impl_size b \<noteq> 0" "unat n \<le> unat (buffer_size (impl_buffer b))"
  shows "basic_step\<^sup>*\<^sup>* s (s\<lparr>node := w, buffers := (buffers s)(x \<mapsto> a\<lparr>impl_buffer := src\<rparr>, y \<mapsto> b\<lparr>impl_buffer := dst\<rparr>)\<rparr>)"
proof -
  obtain r1 sa w1 where rd: "get_read_handle (impl_buffer a) (node s) = (r1, sa, w1)" by (metis prod.exhaust)
  let ?a = "a\<lparr>impl_buffer := sa\<rparr>"
  note inp = from_input_of [OF sz(1) rd]
  show ?thesis
  proof (cases r1)
    case (Inl e)
    from basic_step.reading_own_refused [OF x inp [unfolded Inl]] show ?thesis
      using cp rd Inl y by (intro run1) (auto simp: copy_payload_def fun_upd_twist fun_upd_idem)
  next
    case (Inr rh)
    let ?s1 = "s\<lparr>node := w1, buffers := (buffers s)(x \<mapsto> ?a), readers := add_mset (None, rh) (readers s)\<rparr>"
    from basic_step.reading_own [OF x inp [unfolded Inr]] have 1: "basic_step s ?s1" .
    obtain r2 sb w2 where wr: "get_write_handle (impl_buffer b) w1 = (r2, sb, w2)" by (metis prod.exhaust)
    let ?b = "b\<lparr>impl_buffer := sb\<rparr>"
    have out: "from_output_buffer (Shared_impl b) (node ?s1) = (r2, Shared_impl ?b, w2)" using from_output_of [OF sz(2) wr] by simp
    have y1: "buffers ?s1 y = Some b" using y by simp
    show ?thesis
    proof (cases r2)
      case (Inl e)
      let ?s2 = "?s1\<lparr>node := w2, buffers := (buffers ?s1)(y \<mapsto> ?b)\<rparr>"
      from basic_step.writing_refused [OF y1 out [unfolded Inl]] have 2: "basic_step ?s1 ?s2" .
      obtain rh' w3 where rel: "release_read_handle rh w2 = (rh', w3)" by (metis prod.exhaust)
      have "basic_step ?s2 (?s2\<lparr>node := w3, readers := readers s\<rparr>)" using rel by (intro basic_step.reading_done) simp_all
      moreover have "?s2\<lparr>node := w3, readers := readers s\<rparr> =
          s\<lparr>node := w, buffers := (buffers s)(x \<mapsto> a\<lparr>impl_buffer := src\<rparr>, y \<mapsto> b\<lparr>impl_buffer := dst\<rparr>)\<rparr>"
        using cp rd wr rel Inl \<open>r1 = Inr rh\<close> by (simp add: copy_payload_def)
      ultimately show ?thesis using 1 2 by (intro run_step [OF 1] run_step [OF 2] run1)
    next
      case (Inr wh)
      let ?bytes = "load_bytes (kern w2) (read_ptr rh) n"
      have "length ?bytes \<le> unat n" by (simp add: load_bytes_def split: option.split)
      with sz(3) have len: "length ?bytes \<le> unat (buffer_size (impl_buffer b))" by simp
      obtain wh' w4 where relw: "release_write_handle wh (write_memory (write_ptr wh) ?bytes w2) = (wh', w4)" by (metis prod.exhaust)
      let ?s4 = "?s1\<lparr>node := w4, buffers := (buffers ?s1)(y \<mapsto> ?b)\<rparr>"
      have 2: "basic_step\<^sup>*\<^sup>* ?s1 ?s4"
        by (rule store_once_run [OF y1 _ sz(2) _ len relw]) (use wr Inr y in simp_all)
      obtain rh' w5 where rel: "release_read_handle rh w4 = (rh', w5)" by (metis prod.exhaust)
      have "basic_step ?s4 (?s4\<lparr>node := w5, readers := readers s\<rparr>)" using rel by (intro basic_step.reading_done) simp_all
      moreover have "?s4\<lparr>node := w5, readers := readers s\<rparr> =
          s\<lparr>node := w, buffers := (buffers s)(x \<mapsto> a\<lparr>impl_buffer := src\<rparr>, y \<mapsto> b\<lparr>impl_buffer := dst\<rparr>)\<rparr>"
        using cp rd wr rel relw Inr \<open>r1 = Inr rh\<close> by (simp add: copy_payload_def Let_def)
      ultimately show ?thesis by (intro rtranclp_trans [OF run_step [OF 1 2]] run1)
    qed
  qed
qed

text \<open>Copying out: a read handle that is released at once.\<close>

lemma to_cpu_run:
  assumes cpu: "to_cpu esz im (node s) = (r, im', w)"
  shows "buffers s x = Some im \<Longrightarrow> basic_step\<^sup>*\<^sup>* s (s\<lparr>node := w, buffers := (buffers s)(x \<mapsto> im')\<rparr>)"
    "received s = add_mset (d, im) rest \<Longrightarrow> basic_step\<^sup>*\<^sup>* s (s\<lparr>node := w, received := add_mset (d, im') rest\<rparr>)"
proof -
  obtain r1 sb w1 where rd: "get_read_handle (impl_buffer im) (node s) = (r1, sb, w1)" by (metis prod.exhaust)
  let ?im = "im\<lparr>impl_buffer := sb\<rparr>"
  consider "impl_size im = 0" "im' = im" "w = node s" | e where "impl_size im \<noteq> 0" "r1 = Inl e" "im' = ?im" "w = w1"
    | rh rh' where "impl_size im \<noteq> 0" "r1 = Inr rh" "im' = ?im" "release_read_handle rh w1 = (rh', w)"
    using cpu rd by (cases r1) (auto simp: to_cpu_def word_gt_0 split: if_splits intro: prod.collapse [symmetric])
  note cs = this
  show "basic_step\<^sup>*\<^sup>* s (s\<lparr>node := w, buffers := (buffers s)(x \<mapsto> im')\<rparr>)" if x: "buffers s x = Some im"
    using cs
  proof cases
    case 1
    with x show ?thesis by (simp add: fun_upd_idem)
  next
    case 2
    from basic_step.reading_own_refused [OF x from_input_of [OF 2(1) rd [unfolded 2(2)]]] 2 show ?thesis by (intro run1) simp_all
  next
    case (3 rh rh')
    let ?s1 = "s\<lparr>node := w1, buffers := (buffers s)(x \<mapsto> ?im), readers := add_mset (None, rh) (readers s)\<rparr>"
    from basic_step.reading_own [OF x from_input_of [OF 3(1) rd [unfolded 3(2)]]] have 1: "basic_step s ?s1" .
    have "basic_step ?s1 (?s1\<lparr>node := w, readers := readers s\<rparr>)" using 3(4) by (intro basic_step.reading_done) simp_all
    moreover have "?s1\<lparr>node := w, readers := readers s\<rparr> = s\<lparr>node := w, buffers := (buffers s)(x \<mapsto> im')\<rparr>" by (simp add: 3(3))
    ultimately show ?thesis by (intro run_step [OF 1] run1)
  qed
  show "basic_step\<^sup>*\<^sup>* s (s\<lparr>node := w, received := add_mset (d, im') rest\<rparr>)" if x: "received s = add_mset (d, im) rest"
    using cs
  proof cases
    case 1
    with x have "s\<lparr>node := w, received := add_mset (d, im') rest\<rparr> = s" by simp
    then show ?thesis by simp
  next
    case 2
    from basic_step.reading_refused [OF x from_input_of [OF 2(1) rd [unfolded 2(2)]]] 2 show ?thesis by (intro run1) simp_all
  next
    case (3 rh rh')
    let ?s1 = "s\<lparr>node := w1, received := add_mset (d, ?im) rest, readers := add_mset (Some d, rh) (readers s)\<rparr>"
    from basic_step.reading [OF x from_input_of [OF 3(1) rd [unfolded 3(2)]]] have 1: "basic_step s ?s1" .
    have "basic_step ?s1 (?s1\<lparr>node := w, readers := readers s\<rparr>)" using 3(4) by (intro basic_step.reading_done) simp_all
    moreover have "?s1\<lparr>node := w, readers := readers s\<rparr> = s\<lparr>node := w, received := add_mset (d, im') rest\<rparr>" by (simp add: 3(3))
    ultimately show ?thesis by (intro run_step [OF 1] run1)
  qed
qed


text \<open>Resizing and cloning share the temporary buffer \<open>y\<close> that is allocated and filled.\<close>

lemma copy_to_fresh_run:
  assumes inv: "transport_inv L s" and fair: "fair_allocation env esz n s"
    and al: "allocate_raw (linux_create env) esz n (node s) = (Inr fresh, w1)"
    and cp: "copy_payload (impl_buffer im) fresh m w1 = (r, src, dst, w2)"
    and x: "buffers s x = Some im" and y: "buffers s y = None" "writers s y = None"
    and sz: "impl_size im \<noteq> 0" "unat m \<le> unat (n * esz)"
  shows "basic_step\<^sup>*\<^sup>* s (s\<lparr>node := w2, buffers := (buffers s)(x \<mapsto> im\<lparr>impl_buffer := src\<rparr>, y \<mapsto> \<lparr>impl_size = n, impl_buffer = dst\<rparr>)\<rparr>)"
proof -
  let ?b = "\<lparr>impl_size = n, impl_buffer = fresh\<rparr>"
  let ?s1 = "s\<lparr>node := w1, buffers := (buffers s)(y \<mapsto> ?b)\<rparr>"
  note made = fair_made [OF inv fair y(1) al]
  have xy: "x \<noteq> y" using x y by auto
  have n: "n \<noteq> 0" using fair by (auto simp: fair_allocation_def)
  have "basic_step\<^sup>*\<^sup>* ?s1 (?s1\<lparr>node := w2, buffers := (buffers ?s1)(x \<mapsto> im\<lparr>impl_buffer := src\<rparr>, y \<mapsto> ?b\<lparr>impl_buffer := dst\<rparr>)\<rparr>)"
    by (rule copy_payload_run [of im ?b m]) (use cp x y xy sz n made(2) in simp_all)
  moreover have "?s1\<lparr>node := w2, buffers := (buffers ?s1)(x \<mapsto> im\<lparr>impl_buffer := src\<rparr>, y \<mapsto> ?b\<lparr>impl_buffer := dst\<rparr>)\<rparr> =
      s\<lparr>node := w2, buffers := (buffers s)(x \<mapsto> im\<lparr>impl_buffer := src\<rparr>, y \<mapsto> \<lparr>impl_size = n, impl_buffer = dst\<rparr>)\<rparr>"
    using xy by (simp add: fun_upd_twist)
  ultimately show ?thesis using run_step [OF made(1)] by simp
qed

lemma drop_temporary:
  assumes "x \<noteq> y" and "buffers s y = None" and "writers s y = None"
  shows "basic_step (s\<lparr>node := w, buffers := (buffers s)(x \<mapsto> a, y \<mapsto> b)\<rparr>)
    (s\<lparr>node := snd (reset_buffer (impl_buffer b) w), buffers := (buffers s)(x \<mapsto> a)\<rparr>)"
proof -
  let ?w = "snd (reset_buffer (impl_buffer b) w)" and ?s = "s\<lparr>buffers := (buffers s)(x \<mapsto> a)\<rparr>"
  have "basic_step (?s\<lparr>node := w, buffers := (buffers ?s)(y \<mapsto> b)\<rparr>) (?s\<lparr>node := ?w\<rparr>)"
    using assms by (intro drop_slot) simp_all
  moreover have "?s\<lparr>node := w, buffers := (buffers ?s)(y \<mapsto> b)\<rparr> = s\<lparr>node := w, buffers := (buffers s)(x \<mapsto> a, y \<mapsto> b)\<rparr>"
    "?s\<lparr>node := ?w\<rparr> = s\<lparr>node := ?w, buffers := (buffers s)(x \<mapsto> a)\<rparr>" by simp_all
  ultimately show ?thesis by (simp only:)
qed

lemma prefix_fits:
  assumes "esz \<noteq> 0" and "byte_count esz n = Inr (n * esz)"
  shows "unat (min n k * esz) \<le> unat (n * esz)"
proof -
  have "unat (min n k * esz) \<le> unat (min n k) * unat esz" by (simp add: unat_word_ariths)
  also have "\<dots> \<le> unat n * unat esz" by (intro mult_right_mono) (simp_all add: word_le_nat_alt [symmetric])
  also have "\<dots> = unat (n * esz)" using byte_count_Inr [OF assms] by simp
  finally show ?thesis .
qed

lemma resize_run:
  assumes inv: "transport_inv L s" and x: "buffers s x = Some im" and fair: "fair_allocation env esz n s"
    and res: "resize_impl (linux_create env) esz n im (node s) = (r, im', w)" and wr: "r = Inr () \<Longrightarrow> writers s x = None"
  shows "basic_step\<^sup>*\<^sup>* s (s\<lparr>node := w, buffers := (buffers s)(x \<mapsto> im')\<rparr>)"
proof (cases "n = impl_size im")
  case True
  with res x show ?thesis by (auto simp: resize_impl_def fun_upd_idem)
next
  case False
  from free_slot [OF inv] obtain y where y: "buffers s y = None" "writers s y = None" by blast
  with x have xy: "x \<noteq> y" by auto
  have n: "n \<noteq> 0" "esz \<noteq> 0" using fair by (auto simp: fair_allocation_def)
  obtain r0 w1 where al: "allocate_raw (linux_create env) esz n (node s) = (r0, w1)" by (metis prod.exhaust)
  show ?thesis
  proof (cases r0)
    case (Inl e)
    with fair_failed [OF fair] al False n res x show ?thesis
      by (intro run1) (auto simp: resize_impl_def fun_upd_idem)
  next
    case (Inr fresh)
    note made = fair_made [OF inv fair y(1) al [unfolded Inr]]
    let ?m = "min n (impl_size im) * esz" and ?copying = "min n (impl_size im) * esz > 0 \<and> data_ptr (impl_buffer im) \<noteq> 0"
    obtain r1 src dst w2 where cp: "(if ?copying then copy_payload (impl_buffer im) fresh ?m w1
        else (Inr (), impl_buffer im, fresh, w1)) = (r1, src, dst, w2)" by (metis prod.exhaust)
    let ?a = "im\<lparr>impl_buffer := src\<rparr>" and ?b = "\<lparr>impl_size = n, impl_buffer = dst\<rparr>"
    let ?s2 = "s\<lparr>node := w2, buffers := (buffers s)(x \<mapsto> ?a, y \<mapsto> ?b)\<rparr>"
    have 1: "basic_step\<^sup>*\<^sup>* s ?s2"
    proof (cases ?copying)
      case True
      then have "impl_size im \<noteq> 0" by (cases "impl_size im = 0") auto
      with copy_to_fresh_run [OF inv fair al [unfolded Inr] _ x y _ prefix_fits [OF n(2) made(3)]] cp True show ?thesis by simp
    next
      case False
      with cp made(1) x xy show ?thesis by (intro run1) (auto simp: fun_upd_twist fun_upd_idem)
    qed
    show ?thesis
    proof (cases r1)
      case (Inl e)
      with False n al Inr cp res have "w = snd (reset_buffer dst w2)" "im' = ?a" by (auto simp: resize_impl_def Let_def)
      with drop_temporary [OF xy y, where w = w2 and a = ?a and b = ?b] 1 show ?thesis by auto
    next
      case r1: (Inr u)
      with False n al Inr cp res have r: "r = Inr ()" "w = snd (reset_buffer src w2)" "im' = ?b"
        by (auto simp: resize_impl_def Let_def assign_buffer_result)
      let ?s3 = "?s2\<lparr>node := destroy_impl ?a (node ?s2), buffers := (buffers ?s2)(x := None)\<rparr>"
      have 2: "basic_step ?s2 ?s3" using xy wr [OF r(1)] by (intro basic_step.destroying) simp_all
      have "basic_step ?s3 (?s3\<lparr>buffers := (buffers ?s3)(y := None, x \<mapsto> ?b), writers := (writers ?s3)(y := None, x := writers ?s3 y)\<rparr>)"
        using xy by (intro basic_step.moving) simp_all
      moreover have "?s3\<lparr>buffers := (buffers ?s3)(y := None, x \<mapsto> ?b), writers := (writers ?s3)(y := None, x := writers ?s3 y)\<rparr> =
          s\<lparr>node := w, buffers := (buffers s)(x \<mapsto> im')\<rparr>"
        using xy y wr [OF r(1)] r by (simp add: destroy_impl_def fun_upd_twist fun_upd_idem)
      ultimately show ?thesis by (intro rtranclp_trans [OF 1] run_step [OF 2] run1)
    qed
  qed
qed

lemma clear_run:
  assumes "buffers s x = Some im" and "writers s x = None" and "clear_impl im (node s) = (im', w)"
  shows "basic_step s (s\<lparr>node := w, buffers := (buffers s)(x := None)\<rparr>)"
proof -
  have "w = destroy_impl im (node s)" using assms(3) by (simp add: clear_impl_def assign_buffer_result destroy_impl_def)
  with basic_step.destroying [OF assms(1,2)] show ?thesis by simp
qed


lemma clone_run:
  assumes inv: "transport_inv L s" and x: "buffers s x = Some im" and fair: "fair_allocation env esz (impl_size im) s"
    and cl: "clone_impl (linux_create env) esz im (node s) = (r, im', w)"
  shows "r = Inl e \<Longrightarrow> basic_step\<^sup>*\<^sup>* s (s\<lparr>node := w, buffers := (buffers s)(x \<mapsto> im')\<rparr>)"
    "r = Inr copy \<Longrightarrow> buffers s y = None \<Longrightarrow> basic_step\<^sup>*\<^sup>* s (s\<lparr>node := w, buffers := (buffers s)(x \<mapsto> im', y \<mapsto> copy)\<rparr>)"
proof -
  let ?n = "impl_size im"
  have n: "?n > 0" "?n \<noteq> 0" "esz \<noteq> 0" using fair by (auto simp: fair_allocation_def)
  obtain r0 w1 where al: "allocate_raw (linux_create env) esz ?n (node s) = (r0, w1)" by (metis prod.exhaust)
  note new = new_impl_of [OF n(1) al]
  have copied: "basic_step\<^sup>*\<^sup>* s (s\<lparr>node := w2, buffers := (buffers s)(x \<mapsto> im\<lparr>impl_buffer := src\<rparr>,
      z \<mapsto> \<lparr>impl_size = ?n, impl_buffer = dst\<rparr>)\<rparr>)"
    if "r0 = Inr fresh" "copy_payload (impl_buffer im) fresh (?n * esz) w1 = (r1, src, dst, w2)" "buffers s z = None"
      "writers s z = None" for fresh r1 src dst w2 z
    using copy_to_fresh_run [OF inv fair _ that(2) x that(3,4) n(2) order_refl] al that(1) by simp
  show "basic_step\<^sup>*\<^sup>* s (s\<lparr>node := w, buffers := (buffers s)(x \<mapsto> im')\<rparr>)" if r: "r = Inl e"
  proof (cases r0)
    case (Inl e')
    with fair_failed [OF fair] al cl new x show ?thesis by (intro run1) (auto simp: clone_impl_def fun_upd_idem)
  next
    case (Inr fresh)
    from free_slot [OF inv] obtain z where z: "buffers s z = None" "writers s z = None" by blast
    with x have xz: "x \<noteq> z" by auto
    obtain r1 src dst w2 where cp: "copy_payload (impl_buffer im) fresh (?n * esz) w1 = (r1, src, dst, w2)" by (metis prod.exhaust)
    from cl new cp Inr n r have "w = snd (reset_buffer dst w2)" "im' = im\<lparr>impl_buffer := src\<rparr>"
      by (auto simp: clone_impl_def Let_def split: sum.splits)
    with drop_temporary [OF xz z, where w = w2 and a = "im\<lparr>impl_buffer := src\<rparr>" and b = "\<lparr>impl_size = ?n, impl_buffer = dst\<rparr>"]
      copied [OF Inr cp z] show ?thesis by auto
  qed
  show "basic_step\<^sup>*\<^sup>* s (s\<lparr>node := w, buffers := (buffers s)(x \<mapsto> im', y \<mapsto> copy)\<rparr>)" if r: "r = Inr copy" and y: "buffers s y = None"
  proof -
    have wy: "writers s y = None" using transport_invD(5) [OF inv] y by (metis not_None_eq option.distinct(1))
    from cl new r obtain fresh where fr: "r0 = Inr fresh" by (cases r0) (auto simp: clone_impl_def)
    obtain r1 src dst w2 where cp: "copy_payload (impl_buffer im) fresh (?n * esz) w1 = (r1, src, dst, w2)" by (metis prod.exhaust)
    from cl new cp fr n r have "w = w2" "im' = im\<lparr>impl_buffer := src\<rparr>" "copy = \<lparr>impl_size = ?n, impl_buffer = dst\<rparr>"
      by (auto simp: clone_impl_def Let_def split: sum.splits)
    with copied [OF fr cp y wy] show ?thesis by simp
  qed
qed

text \<open>
  Promotion: a byte buffer is made, written once through a write handle, and read.  If one of the
  handles is refused, the new buffer is dropped.
\<close>

lemma promote_run:
  assumes inv: "transport_inv L s" and y: "buffers s y = None" "writers s y = None" and fair: "fair_allocation env 1 n s"
    and pr: "promote (linux_create env) n source (node s) = (r, w)"
  shows "r = Inl e \<Longrightarrow> basic_step\<^sup>*\<^sup>* s (s\<lparr>node := w\<rparr>)"
    "r = Inr rh \<Longrightarrow> \<exists>sb. read_promoted rh = Some sb \<and> basic_step\<^sup>*\<^sup>* s (s\<lparr>node := w,
       buffers := (buffers s)(y \<mapsto> \<lparr>impl_size = n, impl_buffer = sb\<rparr>),
       readers := add_mset (None, rh\<lparr>read_promoted := None\<rparr>) (readers s)\<rparr>)"
proof -
  have n: "n > 0" "n \<noteq> 0" using fair by (auto simp: fair_allocation_def)
  obtain r0 w1 where al: "allocate_raw (linux_create env) 1 n (node s) = (r0, w1)" by (metis prod.exhaust)
  note new = new_impl_of [OF n(1) al]
  have "(\<exists>e. r = Inl e) \<and> basic_step\<^sup>*\<^sup>* s (s\<lparr>node := w\<rparr>) \<or> (\<exists>rh sb. r = Inr rh \<and> read_promoted rh = Some sb \<and>
      basic_step\<^sup>*\<^sup>* s (s\<lparr>node := w, buffers := (buffers s)(y \<mapsto> \<lparr>impl_size = n, impl_buffer = sb\<rparr>),
        readers := add_mset (None, rh\<lparr>read_promoted := None\<rparr>) (readers s)\<rparr>))"
  proof (cases r0)
    case (Inl e')
    with fair_failed [OF fair] al pr new show ?thesis by (auto simp: promote_def)
  next
    case (Inr fresh)
    let ?b = "\<lparr>impl_size = n, impl_buffer = fresh\<rparr>"
    let ?s1 = "s\<lparr>node := w1, buffers := (buffers s)(y \<mapsto> ?b)\<rparr>"
    note made = fair_made [OF inv fair y(1) al [unfolded Inr]]
    note drop = drop_slot [OF y]
    obtain r1 sb w2 where wr: "get_write_handle fresh w1 = (r1, sb, w2)" by (metis prod.exhaust)
    have out: "from_output_buffer (Shared_impl ?b) (node ?s1) = (r1, Shared_impl (?b\<lparr>impl_buffer := sb\<rparr>), w2)"
      by (rule from_output_of) (use wr n in simp_all)
    have y1: "buffers ?s1 y = Some ?b" by simp
    show ?thesis
    proof (cases r1)
      case (Inl e')
      let ?s2 = "s\<lparr>node := w2, buffers := (buffers s)(y \<mapsto> ?b\<lparr>impl_buffer := sb\<rparr>)\<rparr>"
      from basic_step.writing_refused [OF y1 out [unfolded Inl]] have 2: "basic_step ?s1 ?s2" by simp
      from pr new wr \<open>r0 = Inr fresh\<close> Inl have "\<exists>e. r = Inl e" "w = snd (reset_buffer sb w2)" by (auto simp: promote_def)
      with drop [where w = w2 and b = "?b\<lparr>impl_buffer := sb\<rparr>"] run_step [OF made(1) run1 [OF 2 refl]] show ?thesis by auto
    next
      case (Inr wh)
      let ?bytes = "take (unat n) source"
      obtain wh' w4 where rel: "release_write_handle wh (write_memory (write_ptr wh) ?bytes w2) = (wh', w4)" by (metis prod.exhaust)
      let ?s4 = "s\<lparr>node := w4, buffers := (buffers s)(y \<mapsto> ?b\<lparr>impl_buffer := sb\<rparr>)\<rparr>"
      have "basic_step\<^sup>*\<^sup>* ?s1 (?s1\<lparr>node := w4, buffers := (buffers ?s1)(y \<mapsto> ?b\<lparr>impl_buffer := sb\<rparr>)\<rparr>)"
        by (rule store_once_run [OF y1 _ _ _ _ rel]) (use wr Inr y n made(2) in simp_all)
      then have run4: "basic_step\<^sup>*\<^sup>* s ?s4" using run_step [OF made(1)] by simp
      obtain r2 sb' w5 where rd: "get_read_handle sb w4 = (r2, sb', w5)" by (metis prod.exhaust)
      have inp: "from_input_buffer (linux_create env) 1 (Shared_impl (?b\<lparr>impl_buffer := sb\<rparr>)) (node ?s4) =
          (r2, Shared_impl (?b\<lparr>impl_buffer := sb'\<rparr>), w5)"
        using from_input_of [of "?b\<lparr>impl_buffer := sb\<rparr>"] rd n by simp
      have y4: "buffers ?s4 y = Some (?b\<lparr>impl_buffer := sb\<rparr>)" by simp
      show ?thesis
      proof (cases r2)
        case (Inl e')
        from basic_step.reading_own_refused [OF y4 inp [unfolded Inl]]
        have 5: "basic_step ?s4 (s\<lparr>node := w5, buffers := (buffers s)(y \<mapsto> ?b\<lparr>impl_buffer := sb'\<rparr>)\<rparr>)" by simp
        from pr new wr rel rd \<open>r0 = Inr fresh\<close> \<open>r1 = Inr wh\<close> Inl have "\<exists>e. r = Inl e" "w = snd (reset_buffer sb' w5)"
          by (auto simp: promote_def Let_def)
        with drop [where w = w5 and b = "?b\<lparr>impl_buffer := sb'\<rparr>"] rtranclp_trans [OF run4 run1 [OF 5 refl]] show ?thesis by auto
      next
        case (Inr rd')
        have "read_promoted rd' = None" using get_read_handle_calm [OF rd] Inr by simp
        then have "(set_promoted_buffer sb' rd')\<lparr>read_promoted := None\<rparr> = rd'" by (cases rd') (simp add: set_promoted_buffer_def)
        moreover from basic_step.reading_own [OF y4 inp [unfolded Inr]]
        have "basic_step ?s4 (s\<lparr>node := w5, buffers := (buffers s)(y \<mapsto> ?b\<lparr>impl_buffer := sb'\<rparr>), readers := add_mset (None, rd') (readers s)\<rparr>)"
          by simp
        moreover from pr new wr rel rd \<open>r0 = Inr fresh\<close> \<open>r1 = Inr wh\<close> Inr have "r = Inr (set_promoted_buffer sb' rd')" "w = w5"
          by (auto simp: promote_def Let_def)
        moreover have "read_promoted (set_promoted_buffer sb' rd') = Some sb'" by (simp add: set_promoted_buffer_def)
        ultimately show ?thesis using rtranclp_trans [OF run4 run1] by auto
      qed
    qed
  qed
  then show "r = Inl e \<Longrightarrow> basic_step\<^sup>*\<^sup>* s (s\<lparr>node := w\<rparr>)"
    "r = Inr rh \<Longrightarrow> \<exists>sb. read_promoted rh = Some sb \<and> basic_step\<^sup>*\<^sup>* s (s\<lparr>node := w,
       buffers := (buffers s)(y \<mapsto> \<lparr>impl_size = n, impl_buffer = sb\<rparr>),
       readers := add_mset (None, rh\<lparr>read_promoted := None\<rparr>) (readers s)\<rparr>)" by auto
qed


text \<open>Releasing a promoted handle gives its lease back and then destroys its buffer.\<close>

lemma promoted_done_run:
  assumes y: "buffers s y = Some im" "writers s y = None"
    and m: "readers s = add_mset (None, rh\<lparr>read_promoted := None\<rparr>) rest" and sb: "read_promoted rh = Some (impl_buffer im)"
    and rel: "release_read_handle rh (node s) = (rh', w)"
  shows "basic_step\<^sup>*\<^sup>* s (s\<lparr>node := w, buffers := (buffers s)(y := None), readers := rest\<rparr>)"
proof -
  obtain rh'' w1 where r: "release_read_handle (rh\<lparr>read_promoted := None\<rparr>) (node s) = (rh'', w1)" by (metis prod.exhaust)
  have w: "w = destroy_impl im w1"
    using rel r sb by (auto simp: release_read_handle_def drop_promoted_def destroy_impl_def Let_def)
  let ?s1 = "s\<lparr>node := w1, readers := rest\<rparr>"
  have 1: "basic_step s ?s1" by (rule basic_step.reading_done [OF m r])
  have "basic_step ?s1 (?s1\<lparr>node := destroy_impl im (node ?s1), buffers := (buffers ?s1)(y := None)\<rparr>)"
    using y by (intro basic_step.destroying) simp_all
  moreover have "?s1\<lparr>node := destroy_impl im (node ?s1), buffers := (buffers ?s1)(y := None)\<rparr> =
      s\<lparr>node := w, buffers := (buffers s)(y := None), readers := rest\<rparr>" by (simp add: w)
  ultimately show ?thesis by (intro run_step [OF 1] run1)
qed

text \<open>Promotion starts with the check of the size.\<close>

lemma from_other_cases:
  assumes "from_input_buffer create esz (Other_impl n source) w = (r, b, w')"
  shows "(\<exists>e. r = Inl e) \<and> w' = w \<or> promote create (n * esz) source w = (r, w')"
  using assms by (auto simp: from_input_buffer_def rosidl_size_def split: if_splits prod.splits)

section \<open>Every step is a run, and every reachable state satisfies the invariant\<close>

lemma transport_step_run:
  assumes "transport_step s t" and "transport_inv L s"
  shows "basic_step\<^sup>*\<^sup>* s t"
  using assms
proof (induction rule: transport_step.induct)
  case (single s t)
  then show ?case by blast
next
  case (resizing s x im esz env n im' w)
  from resize_run [OF resizing(6,1,4,5)] resizing(2) show ?case by simp
next
  case (resizing_failed s x im esz env n e im' w)
  from resize_run [OF resizing_failed(5,1,3,4)] show ?case by simp
next
  case (clearing s x im im' w)
  from clear_run [OF clearing(1-3)] show ?case by blast
next
  case (cloning s x im y esz env copy im' w)
  from clone_run(2) [OF cloning(6,1,4,5) refl cloning(2)] show ?case .
next
  case (cloning_failed s x im esz env e im' w)
  from clone_run(1) [OF cloning_failed(5,1,3,4) refl] show ?case .
next
  case (converting s x im esz r im' w)
  from to_cpu_run(1) [OF converting(3,1)] show ?case .
next
  case (converting_received s d im rest esz r im' w)
  from to_cpu_run(2) [OF converting_received(3,1)] show ?case .
next
  case (promoting s y esz env n source rh b w sb)
  have "writers s y = None" using transport_invD(5) [OF promoting(6)] promoting(1) by (metis not_None_eq option.distinct(1))
  note run = promote_run(2) [OF promoting(6,1) this promoting(3) _ refl]
  from from_other_cases [OF promoting(4)] have "promote (linux_create env) (n * esz) source (node s) = (Inr rh, w)" by simp
  from run [OF this] promoting(5) show ?case by simp
next
  case (promoting_failed esz env n s source e b w)
  from free_slot [OF promoting_failed(4)] obtain y where y: "buffers s y = None" "writers s y = None" by blast
  from from_other_cases [OF promoting_failed(3)] consider "w = node s" | "promote (linux_create env) (n * esz) source (node s) = (Inl e, w)"
    by blast
  then show ?case
  proof cases
    case 2
    from promote_run(1) [OF promoting_failed(4) y promoting_failed(2) 2 refl] show ?thesis .
  qed simp
next
  case (promoted_done s y im rh rest rh' w)
  from promoted_done_run [OF promoted_done(1-5)] show ?case .
qed

lemma transport_reachable_inv: "transport_reachable s \<Longrightarrow> transport_inv (leases_on s) s"
proof (induction rule: transport_reachable.induct)
  case (start rng br k)
  show ?case by (rule transport_start_inv)
next
  case (step s t)
  from transport_step_run [OF step(2) step(3)] step(3) show ?case by (rule basic_steps_inv)
qed

lemma reachable_single: "transport_reachable s \<Longrightarrow> basic_step s t \<Longrightarrow> transport_reachable t"
  by (rule transport_reachable.step [OF _ transport_step.single])

end
