(* ===== verification/Transport_End.thy ===== *)
theory Transport_End
  imports Transport_Run
begin

text \<open>
  The end-to-end theorems of the transport, and a concrete run of it: a buffer is made, written,
  sealed by releasing its handle, published and imported.
\<close>

section \<open>Properties\<close>

text \<open>What a pointer into a leased object shows: the payload of the generation the descriptor names.\<close>

lemma source_bytes:
  assumes inv: "transport_inv L s" and src: "source_ok d a c (node s)" and blk: "is_block c (node s)"
  shows "\<exists>bytes sealed. history s (desc_ipc_uid d) = Some (bytes, sealed) \<and>
    length (load_bytes (kern (node s)) a (desc_size d)) = unat (desc_size d) \<and>
    (sealed \<longrightarrow> load_bytes (kern (node s)) a (desc_size d) = bytes)"
proof -
  note invD = transport_invD [OF inv]
  let ?w = "node s"
  have c: "c < next_oid (kern ?w)" by (rule is_block_object [OF invD(1) blk])
  from src have u: "ipc_uid (hdr (kern ?w) c) = desc_ipc_uid d" "desc_ipc_uid d \<noteq> 0" and a: "object_at (kern ?w) a = Some c"
    by (simp_all add: source_ok_def)
  from invD(9) c u obtain i where i: "i < length (all_blocks (pool ?w))" "control (all_blocks (pool ?w) ! i) = Some c"
    "current_uid (all_blocks (pool ?w) ! i) = desc_ipc_uid d" and "history s (desc_ipc_uid d) \<noteq> None"
    unfolding generations_ok_def by metis
  then obtain bytes sealed where h: "history s (desc_ipc_uid d) = Some (bytes, sealed)" by auto
  have "length (pay (kern ?w) c) = unat (payload_size (hdr (kern ?w) c))"
    using pool_inv_block [OF invD(1) i(1)] i(2) by (simp add: block_ok_def)
  then have len: "length (pay (kern ?w) c) = unat (desc_size d)" using src by (simp add: source_ok_def)
  then have "load_bytes (kern ?w) a (desc_size d) = pay (kern ?w) c" using a by (simp add: load_bytes_def)
  moreover have "pay (kern ?w) c = bytes" if sealed
  proof -
    have "history s (current_uid (all_blocks (pool ?w) ! i)) = Some (bytes, True)" using h i(3) that by simp
    with invD(10) i(1,2) show ?thesis unfolding seals_ok_def by blast
  qed
  ultimately show ?thesis using h len by auto
qed


lemma allocated_has_no_holder:
  assumes inv: "transport_inv L s" and i: "i < length (all_blocks (pool (node s)))" "control (all_blocks (pool (node s)) ! i) = Some c"
    and good: "linux_good env (kern (node s)) (kSharedBufferPayloadOffset + sz)"
    and al: "allocate (linux_create_platform_mapping env) sz (pool (node s)) (kern (node s)) = (Inr i, p, k)"
  shows "L c = 0"
proof -
  note invD = transport_invD [OF inv]
  have "reader_lock_of (reader_state (hdr (kern (node s)) c)) = Readers (L c)"
    using invD(8) i unfolding counts_ok_def is_block_def by blast
  then show ?thesis using linux.allocate_success [OF invD(1) good al] i by (auto simp: reader_lock_of_def)
qed

text \<open>
  C4: every lease has a holder.  In every reachable state the reader count in the header of a block
  is exactly the number of received buffers and read handles alive on it, in all processes
  together, plus the leases that killed processes took with them; so no operation leaks or
  double-frees a lease, and a block that \<^verbatim>\<open>allocate\<close> hands out has no holder anywhere.
\<close>

theorem leases_are_held_by_someone:
  assumes "transport_reachable s" and "i < length (all_blocks (pool (node s)))" and "control (all_blocks (pool (node s)) ! i) = Some c"
  shows "reader_lock_of (reader_state (hdr (kern (node s)) c)) = Readers (leases_on s c) \<and>
    (\<forall>env sz p k. linux_good env (kern (node s)) (kSharedBufferPayloadOffset + sz) \<longrightarrow>
       allocate (linux_create_platform_mapping env) sz (pool (node s)) (kern (node s)) = (Inr i, p, k) \<longrightarrow> leases_on s c = 0)"
proof -
  have inv: "transport_inv (leases_on s) s" by (rule transport_reachable_inv [OF assms(1)])
  have "is_block c (node s)" using assms(2,3) by (auto simp: is_block_def)
  then have "reader_lock_of (reader_state (hdr (kern (node s)) c)) = Readers (leases_on s c)"
    using transport_invD(8) [OF inv] by (simp add: counts_ok_def)
  with allocated_has_no_holder [OF inv assms(2,3)] show ?thesis by blast
qed

lemma lost_grows: "basic_step s t \<Longrightarrow> lost s \<subseteq># lost t"
  by (induction rule: basic_step.induct) simp_all

lemma lost_grows_run: "basic_step\<^sup>*\<^sup>* s t \<Longrightarrow> lost s \<subseteq># lost t"
  by (induction rule: rtranclp_induct) (auto dest: lost_grows intro: subset_mset.order_trans)

text \<open>
  C7: a killed subscriber pins its blocks.  Once a process has ended with a lease on a block, that
  block stays in the pool, and in no continuation of any length does \<^verbatim>\<open>allocate\<close> hand it out
  again: nothing in the code gives the lease of a dead process back.
\<close>

theorem killed_subscriber_pins_its_block:
  assumes "transport_reachable s" and "Some c \<in># lost s" and "transport_step\<^sup>*\<^sup>* s t"
  shows "(\<exists>i < length (all_blocks (pool (node t))). control (all_blocks (pool (node t)) ! i) = Some c) \<and>
    (\<forall>i env sz p k. i < length (all_blocks (pool (node t))) \<longrightarrow> control (all_blocks (pool (node t)) ! i) = Some c \<longrightarrow>
       linux_good env (kern (node t)) (kSharedBufferPayloadOffset + sz) \<longrightarrow>
       allocate (linux_create_platform_mapping env) sz (pool (node t)) (kern (node t)) \<noteq> (Inr i, p, k))"
proof -
  have "transport_reachable t \<and> Some c \<in># lost t"
    using assms(3,1,2)
  proof (induction rule: rtranclp_induct)
    case (step u v)
    then have u: "transport_reachable u" "Some c \<in># lost u" by simp_all
    from lost_grows_run [OF transport_step_run [OF step(2) transport_reachable_inv [OF u(1)]]] u(2) have "Some c \<in># lost v"
      by (rule mset_subset_eqD)
    with transport_reachable.step [OF u(1) step(2)] show ?case by blast
  qed simp
  then have inv: "transport_inv (leases_on t) t" and l: "Some c \<in># lost t" by (simp_all add: transport_reachable_inv)
  have "leases_on t c \<noteq> 0" using l by (simp add: leases_on_def)
  moreover have "is_block c (node t)" by (rule transport_invD(11) [OF inv l])
  ultimately show ?thesis using allocated_has_no_holder [OF inv] unfolding is_block_def by metis
qed

text \<open>
  C19: resizing, cloning, copying out, promotion and their failures are runs of single calls
  through a temporary buffer: nothing they do, also when they throw in the middle, is beyond
  acquiring handles, storing through them, releasing them, allocating and destroying buffers.
\<close>

theorem operations_are_runs_of_calls:
  assumes "transport_reachable s" and "transport_step s t"
  shows "basic_step\<^sup>*\<^sup>* s t"
  by (rule transport_step_run [OF assms(2) transport_reachable_inv [OF assms(1)]])

text \<open>
  C8: a descriptor whose UID was never published (a forged or damaged message) or whose block has
  since been given to a new generation (a stale message) is rejected, in every process, whatever
  its cache holds and whatever memory the path it names leads to; no header of any block
  changes.
\<close>

theorem forged_and_stale_descriptors_are_rejected:
  assumes "transport_reachable s" and "linux_good_import ienv (kern (node s)) (shared_buffer_block_size d)"
    and "history s (desc_ipc_uid d) = None \<or> desc_ipc_uid d \<notin> current_uid ` set (all_blocks (pool (node s)))"
  shows "\<exists>e cache k. receive_linux ienv type_name (Some d) (caches s q) (kern (node s)) = (Inl e, cache, k) \<and>
    objects_kept (kern (node s)) k"
proof -
  have inv: "transport_inv (leases_on s) s" by (rule transport_reachable_inv [OF assms(1)])
  note invD = transport_invD [OF inv]
  obtain r cache k where r: "receive_linux ienv type_name (Some d) (caches s q) (kern (node s)) = (r, cache, k)"
    by (metis prod.exhaust)
  show ?thesis
  proof (cases r)
    case (Inl e)
    with r linux_import.receive_failure [OF r [unfolded Inl] invD(2)] assms(2) show ?thesis by auto
  next
    case (Inr im)
    note ok = linux_import.receive_success [OF r [unfolded Inr] invD(2) assms(2)] and sp = receive_space [OF r invD(2) assms(2)]
    then obtain c where c: "c < next_oid (kern (node s))" "ipc_uid (hdr (kern (node s)) c) = desc_ipc_uid d" "desc_ipc_uid d \<noteq> 0"
      by (auto simp: imported_ok_def header_matches_def)
    with invD(9) obtain i where "i < length (all_blocks (pool (node s)))" "current_uid (all_blocks (pool (node s)) ! i) = desc_ipc_uid d"
      and "history s (desc_ipc_uid d) \<noteq> None" unfolding generations_ok_def by metis
    then show ?thesis using assms(3) by (metis image_eqI nth_mem)
  qed
qed

section \<open>A concrete run\<close>

definition run_buffer :: SharedBufferImpl where
  "run_buffer = sample_impl\<lparr>impl_buffer := sample_buffer\<lparr>handle_state := Some 0\<rparr>\<rparr>"

definition run_handle :: WriteHandle where
  "run_handle = new_write_handle 0x7F0000000040 (Some 0) None"

definition run_world :: "handle_access \<Rightarrow> u8 list \<Rightarrow> linux_broker world" where
  "run_world a bytes = sample_world\<lparr>kern := sample_kernel1\<lparr>pay := (\<lambda>_. [])(0 := bytes)\<rparr>,
     states := (\<lambda>_. \<lparr>access = Unset, active_readers = 0\<rparr>)(0 := \<lparr>access = a, active_readers = 0\<rparr>), next_state := 1\<rparr>"

definition run_state :: "linux_broker world \<Rightarrow> WriteHandle option \<Rightarrow> transport" where
  "run_state w wh = \<lparr>node = w, buffers = [0 \<mapsto> run_buffer], writers = (\<lambda>_. None)(0 := wh), caches = (\<lambda>_ _. None),
     received = {#}, readers = {#}, history = (\<lambda>_. None), lost = {#}\<rparr>"

lemma run_made:
  "transport_reachable ((transport_start (\<lambda>n. 41 + of_nat n) sample_broker empty_kernel)
     \<lparr>node := sample_world, buffers := [0 \<mapsto> sample_impl]\<rparr>)" (is "transport_reachable (?s0\<lparr>node := ?w, buffers := ?b\<rparr>)")
proof -
  have k: "empty_kernel\<lparr>next_oid := 0\<rparr> = empty_kernel" by (simp add: empty_kernel_def)
  have node: "node ?s0 = sample_world\<lparr>kern := empty_kernel, pool := sample_pool\<rparr>"
    by (simp add: transport_start_def k sample_world_def sample_pool_def)
  have "new_impl (linux_create_platform_mapping sample_env) 1 4 (node ?s0) = (Inr sample_impl, sample_world)"
    by (simp add: node new_impl_positive allocate_raw_def byte_count_iff sample_alloc sample_pool1_def shared_buffer_def
        sample_impl_def sample_buffer_def sample_world_def kSharedBufferPayloadOffset_def)
  moreover have "unused_uid ?s0 (current_uid (all_blocks (pool sample_world) ! 0))"
    by (simp add: unused_uid_def transport_start_def new_pool_def)
  moreover have "linux_good sample_env (kern (node ?s0)) (kSharedBufferPayloadOffset + 4 * 1)"
    by (simp add: node sample_good kSharedBufferPayloadOffset_def)
  ultimately have "basic_step ?s0 (?s0\<lparr>node := ?w, buffers := (buffers ?s0)(0 \<mapsto> sample_impl)\<rparr>)"
    by (intro basic_step.making [where esz = 1 and n = 4 and env = sample_env and i = 0])
      (simp_all add: transport_start_def sample_impl_def sample_buffer_def)
  with transport_reachable.start have "transport_reachable (?s0\<lparr>node := ?w, buffers := (buffers ?s0)(0 \<mapsto> sample_impl)\<rparr>)"
    by (rule reachable_single)
  then show ?thesis by (simp add: transport_start_def)
qed

lemma run_writing: "transport_reachable (run_state (run_world InUse [0, 0, 0, 0]) (Some run_handle))"
proof -
  let ?s = "(transport_start (\<lambda>n. 41 + of_nat n) sample_broker empty_kernel)\<lparr>node := sample_world, buffers := [0 \<mapsto> sample_impl]\<rparr>"
  have "from_output_buffer (Shared_impl sample_impl) sample_world =
      (Inr run_handle, Shared_impl run_buffer, run_world InUse [0, 0, 0, 0])"
    by (simp add: from_output_buffer_def rosidl_size_def sample_impl_def get_write_handle_def sample_buffer_def
        ensure_state_def run_handle_def run_buffer_def run_world_def sample_world_def update_state_def sample_kernel1_def)
  then have "basic_step ?s (?s\<lparr>node := run_world InUse [0, 0, 0, 0], buffers := (buffers ?s)(0 \<mapsto> run_buffer),
      writers := (writers ?s)(0 \<mapsto> run_handle)\<rparr>)"
    by (intro basic_step.writing [where im = sample_impl]) simp_all
  from reachable_single [OF run_made this] show ?thesis
    by (simp add: transport_start_def run_state_def)
qed

lemma run_stored: "transport_reachable (run_state (run_world InUse [1, 2, 3, 4]) (Some run_handle))"
proof -
  let ?s = "run_state (run_world InUse [0, 0, 0, 0]) (Some run_handle)"
  have "write_memory (write_ptr run_handle) [1, 2, 3, 4] (node ?s) = run_world InUse [1, 2, 3, 4]"
    by (simp add: write_memory_def run_handle_def run_state_def run_world_def store_bytes_def object_at_def
        kSharedBufferPayloadOffset_def sample_kernel1_def sample_world_def)
  moreover have "basic_step ?s (?s\<lparr>node := write_memory (write_ptr run_handle) [1, 2, 3, 4] (node ?s)\<rparr>)"
    by (rule basic_step.storing [where im = run_buffer and x = 0])
      (simp_all add: run_state_def run_buffer_def sample_buffer_def)
  ultimately show ?thesis using reachable_single [OF run_writing] by (simp add: run_state_def)
qed

lemma run_closed: "transport_reachable (run_state (run_world Finalized [1, 2, 3, 4]) None)"
proof -
  let ?s = "run_state (run_world InUse [1, 2, 3, 4]) (Some run_handle)"
  have "snd (release_write_handle run_handle (node ?s)) = run_world Finalized [1, 2, 3, 4]"
    by (simp add: release_write_handle_result [of _ 0] run_handle_def run_state_def update_state_def run_world_def)
  then obtain wh' where "release_write_handle run_handle (node ?s) = (wh', run_world Finalized [1, 2, 3, 4])"
    by (metis prod.collapse)
  then have "basic_step ?s (?s\<lparr>node := run_world Finalized [1, 2, 3, 4], writers := (writers ?s)(0 := None)\<rparr>)"
    by (intro basic_step.writing_done [where wh = run_handle]) (simp_all add: run_state_def)
  from reachable_single [OF run_stored this] show ?thesis by (simp add: run_state_def)
qed

definition run_descriptor :: SharedBufferDescriptor where
  "run_descriptor = \<lparr>desc_size = 4, element_type_name = ''h'', shared_buffer_pid = 77, shared_buffer_block_id = 0,
     shared_buffer_block_size = 68, shared_buffer_socket_path = broker_path sample_broker_env 0 7, desc_ipc_uid = 42\<rparr>"

definition run_published :: "linux_broker world \<Rightarrow> transport" where
  "run_published w = (run_state w None)\<lparr>history := [42 \<mapsto> ([1, 2, 3, 4], True)]\<rparr>"

lemma run_publication:
  "\<exists>w. transport_reachable (run_published w) \<and> vm (kern w) = vm sample_kernel1 \<and> next_oid (kern w) = 1 \<and>
     osize (kern w) = osize sample_kernel1 \<and> fds (kern w) = [7 \<mapsto> Memory 0, 10 \<mapsto> Socket_fd, 11 \<mapsto> Memory 0] \<and>
     hdr (kern w) 0 = published_header \<and> pay (kern w) 0 = [1, 2, 3, 4] \<and>
     0 < length (all_blocks (pool w)) \<and> control (all_blocks (pool w) ! 0) = Some 0"
proof -
  let ?s = "run_state (run_world Finalized [1, 2, 3, 4]) None"
  have "\<exists>w. create_descriptor_with_endpoint (linux_register_block sample_broker_env) 16 77 ''h'' new_backend []
      (Shared_impl run_buffer) (node ?s) = (Some run_descriptor, w) \<and> vm (kern w) = vm sample_kernel1 \<and>
      next_oid (kern w) = 1 \<and> osize (kern w) = osize sample_kernel1 \<and> states w = states (node ?s) \<and>
      fds (kern w) = [7 \<mapsto> Memory 0, 10 \<mapsto> Socket_fd, 11 \<mapsto> Memory 0] \<and> hdr (kern w) 0 = published_header \<and>
      pay (kern w) 0 = [1, 2, 3, 4] \<and> 0 < length (all_blocks (pool w)) \<and> control (all_blocks (pool w) ! 0) = Some 0"
    by (simp add: create_descriptor_with_endpoint_def new_backend_def run_buffer_def run_state_def run_world_def
      sample_impl_def sample_buffer_def run_descriptor_def published_header_def update_state_def
      finalize_write_handle_def has_ipc_descriptor_def publish_descriptor_def find_block_for_ptr_def sample_world_def
      sample_pool1_def kSharedBufferPayloadOffset_def register_block_for_ipc_def linux_register_block_def
      sample_broker_def create_fd_server_socket_def broker_path_def sample_broker_env_def sun_path_size_def
      to_string.simps int_to_string_def Let_def add_socket_def sample_dispatcher_def sys_dup_def sample_kernel1_def
      empty_kernel_def sys_unlink_def sys_open_socket_def sys_open_object_def update_block_def assign_uid_def
      mark_published_def update_control_def refresh_publish_timestamp_def monotonic_time_us_def default_control_header_def)
  then obtain w where c: "create_descriptor_with_endpoint (linux_register_block sample_broker_env) 16 77 ''h'' new_backend []
      (Shared_impl run_buffer) (node ?s) = (Some run_descriptor, w)" and
    k: "vm (kern w) = vm sample_kernel1" "next_oid (kern w) = 1" "osize (kern w) = osize sample_kernel1"
      "fds (kern w) = [7 \<mapsto> Memory 0, 10 \<mapsto> Socket_fd, 11 \<mapsto> Memory 0]" "hdr (kern w) 0 = published_header"
      "pay (kern w) 0 = [1, 2, 3, 4]" "states w = states (node ?s)" "0 < length (all_blocks (pool w))"
      "control (all_blocks (pool w) ! 0) = Some 0" by blast
  have "broker_good sample_broker_env (kern (node ?s))"
    by (simp add: broker_good_def run_state_def run_world_def sample_broker_env_def sample_world_def sample_kernel1_def empty_kernel_def)
  with c have "basic_step ?s (?s\<lparr>node := w, history := record_publication (writers ?s 0 \<noteq> None) (impl_buffer run_buffer)
      (Some run_descriptor) w (history ?s)\<rparr>)"
    by (intro basic_step.publishing [where im = run_buffer]) (simp_all add: run_state_def)
  moreover have "record_publication (writers ?s 0 \<noteq> None) (impl_buffer run_buffer) (Some run_descriptor) w (history ?s) =
      [42 \<mapsto> ([1, 2, 3, 4], True)]"
    using k by (simp add: record_publication_def run_state_def run_descriptor_def payload_def load_bytes_def object_at_def
        run_buffer_def sample_impl_def sample_buffer_def is_finalized_def run_world_def sample_kernel1_def
        kSharedBufferPayloadOffset_def)
  ultimately have "transport_reachable (run_published w)"
    using reachable_single [OF run_closed] by (simp add: run_published_def run_state_def)
  with k show ?thesis by blast
qed

lemma run_reception:
  "\<exists>s im. transport_reachable s \<and> (run_descriptor, im) \<in># received s \<and> buffer_control (impl_buffer im) = Some 0 \<and> history s = [42 \<mapsto> ([1, 2, 3, 4], True)] \<and>
     0 < length (all_blocks (pool (node s))) \<and> control (all_blocks (pool (node s)) ! 0) = Some 0 \<and> leases_on s 0 = 1"
proof -
  from run_publication obtain w where w: "transport_reachable (run_published w)" "vm (kern w) = vm sample_kernel1"
    "next_oid (kern w) = 1" "osize (kern w) = osize sample_kernel1"
    "fds (kern w) = [7 \<mapsto> Memory 0, 10 \<mapsto> Socket_fd, 11 \<mapsto> Memory 0]" "hdr (kern w) 0 = published_header" and
    b: "0 < length (all_blocks (pool w))" "control (all_blocks (pool w) ! 0) = Some 0" by blast
  let ?s = "run_published w"
  have "\<exists>im cache k. receive_linux sample_ienv ''h'' (Some run_descriptor) (\<lambda>_. None) (kern w) = (Inr im, cache, k) \<and>
      buffer_control (impl_buffer im) = Some 0"
    using w by (simp add: from_descriptor_with_endpoint_def run_descriptor_def kSharedBufferPayloadOffset_def import_block_def
      linux_import_platform_mapping_def receive_fd_from_socket_def sample_ienv_def published_header_def sample_kernel1_def
      empty_kernel_def sun_path_size_def sys_open_object_def Let_def st_size_matches_def map_received_def sys_map_def
      imported_block_def validate_mapping_def default_control_header_def sys_close_def broker_path_def sample_broker_env_def
      to_string.simps int_to_string_def acquire_reader_def try_acquire_shared_buffer_reader_def acquire_refused_iff
      shared_buffer_def imported_payload_def drop_ref_def)
  then obtain im cache k where r: "receive_linux sample_ienv ''h'' (Some run_descriptor) (\<lambda>_. None) (kern w) = (Inr im, cache, k)"
    "buffer_control (impl_buffer im) = Some 0" by blast
  have "linux_good_import sample_ienv (kern w) 68"
    using w by (simp add: linux_good_import_def sample_ienv_def range_free_def ranges_disjoint_def sample_kernel1_def empty_kernel_def)
  with r have "basic_step ?s (?s\<lparr>node := (node ?s)\<lparr>kern := k\<rparr>, caches := (caches ?s)(0 := cache),
      received := add_mset (run_descriptor, im) (received ?s)\<rparr>)"
    by (intro basic_step.accepting [where ienv = sample_ienv and type_name = "''h''"])
      (simp_all add: run_published_def run_state_def run_descriptor_def)
  from reachable_single [OF w(1) this] b r(2) show ?thesis
    by (intro exI conjI) (assumption | simp add: run_published_def run_state_def leases_on_def)+
qed


theorem leases_are_held_by_someone_witness:
  "\<exists>s. transport_reachable s \<and> reader_lock_of (reader_state (hdr (kern (node s)) 0)) = Readers 1"
proof -
  from run_reception obtain s where r: "transport_reachable s" "0 < length (all_blocks (pool (node s)))"
    "control (all_blocks (pool (node s)) ! 0) = Some 0" "leases_on s 0 = 1" by blast
  from leases_are_held_by_someone [OF r(1-3)] r(1,4) show ?thesis by auto
qed

theorem forged_and_stale_descriptors_are_rejected_witness:
  "\<exists>s e cache k. transport_reachable s \<and> history s 42 \<noteq> None \<and>
     receive_linux sample_ienv ''h'' (Some (run_descriptor\<lparr>desc_ipc_uid := 41\<rparr>)) (caches s 0) (kern (node s)) = (Inl e, cache, k)"
proof -
  from run_publication obtain w where w: "transport_reachable (run_published w)" "vm (kern w) = vm sample_kernel1"
    "next_oid (kern w) = 1" "osize (kern w) = osize sample_kernel1"
    "fds (kern w) = [7 \<mapsto> Memory 0, 10 \<mapsto> Socket_fd, 11 \<mapsto> Memory 0]" by blast
  let ?s = "run_published w" and ?d = "run_descriptor\<lparr>desc_ipc_uid := 41\<rparr>"
  have "linux_good_import sample_ienv (kern (node ?s)) (shared_buffer_block_size ?d)"
    using w by (simp add: linux_good_import_def sample_ienv_def range_free_def ranges_disjoint_def sample_kernel1_def
        empty_kernel_def run_published_def run_state_def run_descriptor_def)
  moreover have "history ?s 42 \<noteq> None" "history ?s (desc_ipc_uid ?d) = None"
    by (simp_all add: run_published_def run_descriptor_def)
  ultimately show ?thesis using forged_and_stale_descriptors_are_rejected [OF w(1), of sample_ienv ?d "''h''" 0] w(1) by blast
qed


theorem killed_subscriber_pins_its_block_witness:
  "\<exists>s i. transport_reachable s \<and> i < length (all_blocks (pool (node s))) \<and> control (all_blocks (pool (node s)) ! i) = Some 0 \<and>
     (\<forall>sz p k. linux_good sample_env2 (kern (node s)) (kSharedBufferPayloadOffset + sz) \<longrightarrow>
        allocate (linux_create_platform_mapping sample_env2) sz (pool (node s)) (kern (node s)) \<noteq> (Inr i, p, k))"
proof -
  from run_reception obtain s im where r: "transport_reachable s" "(run_descriptor, im) \<in># received s"
    "buffer_control (impl_buffer im) = Some 0" by blast
  let ?t = "s\<lparr>caches := (caches s)(0 := (\<lambda>_. None)), received := received s - {#(run_descriptor, im)#}, readers := readers s,
    lost := lost s + leases_of {#(run_descriptor, im)#} {#}\<rparr>"
  have "basic_step s ?t" by (rule basic_step.ending) (use r(2) in simp_all)
  with r(1) have t: "transport_reachable ?t" by (rule reachable_single)
  have "Some 0 \<in># lost ?t" using r(3) by (simp add: leases_of_def)
  from killed_subscriber_pins_its_block [OF t this rtranclp.rtrancl_refl] t show ?thesis by blast
qed

theorem operations_are_runs_of_calls_witness:
  "\<exists>s copy im' w. clone_impl (linux_create sample_env2) 1 sample_impl (node s) = (Inr copy, im', w) \<and>
     basic_step\<^sup>*\<^sup>* s (s\<lparr>node := w, buffers := (buffers s)(0 \<mapsto> im', 1 \<mapsto> copy)\<rparr>)"
proof -
  let ?s = "(transport_start (\<lambda>n. 41 + of_nat n) sample_broker empty_kernel)\<lparr>node := sample_world, buffers := [0 \<mapsto> sample_impl]\<rparr>"
  from sample_clone obtain copy im' w where
    c: "clone_impl (linux_create sample_env2) 1 sample_impl (node ?s) = (Inr copy, im', w)" by auto
  have "linux_good sample_env2 (kern (node ?s)) (kSharedBufferPayloadOffset + impl_size sample_impl * 1)"
    by (simp add: sample_impl_def sample_good2 kSharedBufferPayloadOffset_def)
  then have "fair_allocation sample_env2 1 (impl_size sample_impl) ?s"
    by (simp add: fair_allocation_def sample_impl_def allocate_raw_def byte_count_iff allocate_def bucket_def sample_world_def
        sample_pool1_def create_block_def draw_uid_def linux_create_platform_mapping_def sample_env2_def off_t_max_def Let_def
        kSharedBufferPayloadOffset_def shared_buffer_def reserve_block_def update_block_def sys_new_object_def
        set_object_size_def sys_map_def unused_uid_def transport_start_def)
  then have "transport_step ?s (?s\<lparr>node := w, buffers := (buffers ?s)(0 \<mapsto> im', 1 \<mapsto> copy)\<rparr>)"
    using c sample_bytes by (intro transport_step.cloning) (simp_all add: of_type_def)
  from operations_are_runs_of_calls [OF run_made this] c show ?thesis by blast
qed

end
