(* ===== verification/Transport_Live.thy ===== *)
theory Transport_Live
  imports Transport_End
begin

text \<open>
  The other direction of safety: memory is neither leaked nor stuck.  Every block in use has a
  live buffer, everything alive can be released from every reachable state, and then every
  block is handed out again without a new mapping.
\<close>

section \<open>Every block in use has a buffer\<close>

definition accounted :: "transport \<Rightarrow> bool" where
  "accounted s \<longleftrightarrow> (\<forall>i < length (all_blocks (pool (node s))). in_use (all_blocks (pool (node s)) ! i) \<longrightarrow>
     (\<exists>x im. buffers s x = Some im \<and> deleter (impl_buffer im) = Free_block (Some i)))"

text \<open>Calls that keep the blocks and the deleters of the buffers.\<close>

lemma accounted_frame:
  assumes "accounted s" and "length (all_blocks (pool (node t))) = length (all_blocks (pool (node s)))"
    and "\<And>i. i < length (all_blocks (pool (node s))) \<Longrightarrow> in_use (all_blocks (pool (node t)) ! i) = in_use (all_blocks (pool (node s)) ! i)"
    and "\<And>x im. buffers s x = Some im \<Longrightarrow> \<exists>y im'. buffers t y = Some im' \<and> deleter (impl_buffer im') = deleter (impl_buffer im)"
  shows "accounted t"
  using assms unfolding accounted_def by metis

lemma accounted_blocks:
  "accounted s \<Longrightarrow> length (all_blocks (pool (node t))) = length (all_blocks (pool (node s))) \<Longrightarrow>
   (\<And>i. i < length (all_blocks (pool (node s))) \<Longrightarrow> in_use (all_blocks (pool (node t)) ! i) = in_use (all_blocks (pool (node s)) ! i)) \<Longrightarrow>
   buffers t = buffers s \<Longrightarrow> accounted t"
  by (simp add: accounted_def)

lemma accounted_same:
  "accounted s \<Longrightarrow> pool (node t) = pool (node s) \<Longrightarrow> buffers t = buffers s \<Longrightarrow> accounted t"
  by (simp add: accounted_def)

lemma accounted_opened:
  assumes "accounted s" and "buffers s x = Some im" and "opens_state (impl_buffer im) sb w" and "pool w = pool (node s)"
    and "node t = w" and "buffers t = (buffers s)(x \<mapsto> im\<lparr>impl_buffer := sb\<rparr>)"
  shows "accounted t"
proof (rule accounted_frame [OF assms(1)])
  have "deleter sb = deleter (impl_buffer im)" using assms(3) by (auto simp: opens_state_def)
  then show "\<exists>y im'. buffers t y = Some im' \<and> deleter (impl_buffer im') = deleter (impl_buffer i)" if "buffers s z = Some i" for z i
    using that assms(2,6) by (cases "z = x") auto
qed (simp_all add: assms(4,5))

lemma accounted_publishing:
  assumes inv: "transport_inv L s" and x: "buffers s x = Some im" and good: "broker_good benv (kern (node s))"
    and cd: "create_descriptor_with_endpoint (linux_register_block benv) gsz pid type_name be gid (Shared_impl im) (node s) = (dd, w)"
    and acc: "accounted s" and t: "node t = w" "buffers t = buffers s"
  shows "accounted t"
proof (cases "compatibility_cache be (gid_key gsz gid) = Some False")
  case True
  with cd acc t show ?thesis by (auto simp: create_descriptor_with_endpoint_def intro: accounted_same)
next
  case False
  let ?sb = "impl_buffer im" and ?w1 = "finalize_write_handle (impl_buffer im) (node s)"
  have f: "pool ?w1 = pool (node s)" "kern ?w1 = kern (node s)"
    by (simp_all add: finalize_write_handle_def buffer_simps split: option.splits)
  note invD = transport_invD [OF inv]
  from invD(3) [OF x] obtain i where own: "owns ?sb i (node s)" and no: "\<not> has_ipc_descriptor ?sb"
    by (auto simp: buffer_ok_def has_ipc_descriptor_def)
  then have own1: "owns ?sb i ?w1" by (simp add: owns_def f)
  from cd False no have pub: "publish_descriptor (linux_register_block benv) pid type_name (impl_size im) ?sb ?w1 = (dd, w)"
    by (simp add: create_descriptor_with_endpoint_def Let_def)
  have "current_uid (all_blocks (pool ?w1) ! i) \<noteq> 0" using invD(9) own by (simp add: generations_ok_def owns_def f)
  from publish_cases [OF own1 this _ pub] good f obtain w0 where w0: "calm ?w1 w0" "pool w = pool w0"
    by (cases dd) auto
  show ?thesis
    by (rule accounted_blocks [OF acc])
      (use calm_length [OF w0(1)] calm_block(5) [OF w0(1)] w0(2) f t in simp_all)
qed

text \<open>Allocation marks the block of the new buffer; a failing one marks none.\<close>

lemma accounted_making:
  assumes inv: "transport_inv L s" and acc: "accounted s" and x: "buffers s x = None" and n: "n > 0"
    and good: "linux_good env (kern (node s)) (kSharedBufferPayloadOffset + n * esz)"
    and mk: "new_impl (linux_create_platform_mapping env) esz n (node s) = (Inr im, w)"
  shows "accounted (s\<lparr>node := w, buffers := (buffers s)(x \<mapsto> im)\<rparr>)"
proof -
  from new_impl_cases [OF mk n] obtain i p k where
    al: "allocate (linux_create_platform_mapping env) (n * esz) (pool (node s)) (kern (node s)) = (Inr i, p, k)"
    and w: "w = (node s)\<lparr>pool := p, kern := k\<rparr>" and del: "deleter (impl_buffer im) = Free_block (Some i)" by auto
  note as = linux.allocate_success [OF transport_invD(1) [OF inv] good al]
  have "\<exists>y im'. ((buffers s)(x \<mapsto> im)) y = Some im' \<and> deleter (impl_buffer im') = Free_block (Some j)"
    if j: "j < length (all_blocks p)" "in_use (all_blocks p ! j)" for j
  proof (cases "j = i")
    case True
    with del have "((buffers s)(x \<mapsto> im)) x = Some im \<and> deleter (impl_buffer im) = Free_block (Some j)" by simp
    then show ?thesis by blast
  next
    case False
    with j as have "j < length (all_blocks (pool (node s)))" "in_use (all_blocks (pool (node s)) ! j)" by (auto simp: less_Suc_eq)
    with acc obtain y im' where "buffers s y = Some im'" "deleter (impl_buffer im') = Free_block (Some j)"
      unfolding accounted_def by blast
    with x show ?thesis by (intro exI [of _ y] exI [of _ im']) auto
  qed
  then show ?thesis by (simp add: accounted_def w)
qed

lemma accounted_destroying:
  assumes inv: "transport_inv L s" and acc: "accounted s" and x: "buffers s x = Some im"
  shows "accounted (s\<lparr>node := destroy_impl im (node s), buffers := (buffers s)(x := None)\<rparr>)"
proof -
  from transport_invD(3) [OF inv x] obtain i where own: "owns (impl_buffer im) i (node s)" by (auto simp: buffer_ok_def)
  have w: "destroy_impl im (node s) = (node s)\<lparr>pool := pool_free (Some i) (pool (node s))\<rparr>"
    by (simp add: destroy_impl_def reset_owned [OF own])
  have used: "in_use (all_blocks (pool (node s)) ! i)" using own by (simp add: owns_def)
  have "\<exists>y im'. ((buffers s)(x := None)) y = Some im' \<and> deleter (impl_buffer im') = Free_block (Some j)"
    if j: "j < length (all_blocks (pool (node s)))" "in_use (all_blocks (pool (destroy_impl im (node s))) ! j)" for j
  proof -
    have ne: "j \<noteq> i" using j(2) freed_not_in_use [OF own] by (auto simp: w)
    with j have "in_use (all_blocks (pool (node s)) ! j)" by (simp add: w pool_free_used [OF used])
    with acc j(1) obtain y im' where y: "buffers s y = Some im'" "deleter (impl_buffer im') = Free_block (Some j)"
      unfolding accounted_def by blast
    with ne own x have "y \<noteq> x" by (auto simp: owns_def)
    with y show ?thesis by (intro exI [of _ y] exI [of _ im']) simp
  qed
  then show ?thesis by (simp add: accounted_def w pool_free_used [OF used])
qed

lemma basic_step_accounted:
  assumes "basic_step s t" and "transport_inv (leases_on s) s" and "accounted s"
  shows "accounted t"
  using assms
proof (induction rule: basic_step.induct)
  case (making s x n esz env im w i)
  from accounted_making [OF making(8,9,1,2,4,5)] show ?case .
next
  case (making_failed n esz env s e w)
  from making_failed_cases [OF making_failed(5,1,3,4)] have "all_blocks (pool w) = all_blocks (pool (node s))" by auto
  then show ?case by (intro accounted_blocks [OF making_failed(6)]) simp_all
next
  case (writing s x im wh im' w)
  from from_output_shared [OF writing(2)] obtain sb where g: "get_write_handle (impl_buffer im) (node s) = (Inr wh, sb, w)"
    "im' = im\<lparr>impl_buffer := sb\<rparr>" by auto
  show ?case by (rule accounted_opened [OF writing(4,1), where sb = sb and w = w]) (use get_write_handle_calm [OF g(1)] g(2) in simp_all)
next
  case (writing_refused s x im e im' w)
  from from_output_shared [OF writing_refused(2)] consider "im' = im" "w = node s" |
    sb where "get_write_handle (impl_buffer im) (node s) = (Inl e, sb, w)" "im' = im\<lparr>impl_buffer := sb\<rparr>" by auto
  then show ?case
  proof cases
    case 1
    then show ?thesis using writing_refused(1,4) by (simp add: fun_upd_idem)
  next
    case (2 sb)
    show ?thesis by (rule accounted_opened [OF writing_refused(4,1), where sb = sb and w = w]) (use get_write_handle_calm [OF 2(1)] 2(2) in simp_all)
  qed
next
  case (storing s x im wh bs)
  then show ?case by (auto simp: write_memory_def intro: accounted_same)
next
  case (writing_done s x wh wh' w)
  have "write_promoted wh = None" using transport_invD(5) [OF writing_done(3,1)] by (auto simp: writer_ok_def)
  from release_write_handle_calm [OF writing_done(2) this] writing_done(4) show ?case by (auto intro: accounted_same)
next
  case (publishing s x im benv gsz pid type_name be gid dd w)
  from accounted_publishing [OF publishing(4,1-3,5)] show ?case by simp
next
  case (destroying s x im)
  from accounted_destroying [OF destroying(3,4,1)] show ?case .
next
  case (accepting ienv s d type_name q im cache k)
  then show ?case by (auto intro: accounted_same)
next
  case (rejecting ienv s d type_name q e cache k)
  then show ?case by (auto intro: accounted_same)
next
  case (relaying d im s benv gsz pid type_name be gid dd w)
  from relay_calm [OF relaying(2) transport_invD(6) [OF relaying(3,1)]] relaying(4) show ?case by (auto intro: accounted_same)
next
  case (reading s d im rest create esz rh im' w)
  from from_input_shared [OF reading(2)] obtain sb where "get_read_handle (impl_buffer im) (node s) = (Inr rh, sb, w)" by auto
  from get_read_handle_calm [OF this] reading(4) show ?case by (auto intro: accounted_same)
next
  case (reading_own s x im create esz rh im' w)
  from from_input_shared [OF reading_own(2)] obtain sb where g: "get_read_handle (impl_buffer im) (node s) = (Inr rh, sb, w)"
    "im' = im\<lparr>impl_buffer := sb\<rparr>" by auto
  show ?case by (rule accounted_opened [OF reading_own(4,1), where sb = sb and w = w]) (use get_read_handle_calm [OF g(1)] g(2) in simp_all)
next
  case (reading_refused s d im rest create esz e im' w)
  from from_input_shared [OF reading_refused(2)] have "pool w = pool (node s)" using get_read_handle_calm by blast
  with reading_refused(4) show ?case by (auto intro: accounted_same)
next
  case (reading_own_refused s x im create esz e im' w)
  from from_input_shared [OF reading_own_refused(2)] consider "im' = im" "w = node s" |
    sb where "get_read_handle (impl_buffer im) (node s) = (Inl e, sb, w)" "im' = im\<lparr>impl_buffer := sb\<rparr>" by auto
  then show ?case
  proof cases
    case 1
    then show ?thesis using reading_own_refused(1,4) by (simp add: fun_upd_idem)
  next
    case (2 sb)
    show ?thesis by (rule accounted_opened [OF reading_own_refused(4,1), where sb = sb and w = w]) (use get_read_handle_calm [OF 2(1)] 2(2) in simp_all)
  qed
next
  case (reading_done s dd rh rest rh' w)
  from transport_invD(7) [OF reading_done(3), of "(dd, rh)"] reading_done(1) obtain c where
    "reader_lease rh = Some c" "read_promoted rh = None" by (auto simp: reader_ok_def)
  from release_read_handle_calm [OF reading_done(2) this(2,1)] reading_done(4) show ?case by (auto intro: accounted_same)
next
  case (dropping s d im rest)
  have ok: "received_ok (d, im) (node s)" using transport_invD(6) [OF dropping(2), of "(d, im)"] dropping(1) by simp
  then obtain c where "buffer_control (impl_buffer im) = Some c" by (auto simp: received_ok_def)
  from destroy_received_calm [OF ok this] dropping(3) show ?case by (auto intro: accounted_same)
next
  case (passing s cl)
  then show ?case by (auto intro: accounted_same)
next
  case (moving s x im y)
  show ?case
  proof (rule accounted_frame [OF moving(4)])
    fix z i assume z: "buffers s z = Some i"
    let ?b = "buffers (s\<lparr>buffers := (buffers s)(x := None, y \<mapsto> im), writers := (writers s)(x := None, y := writers s x)\<rparr>)"
    have "?b (if z = x then y else z) = Some i" using z moving(1,2) by auto
    then show "\<exists>y' i'. ?b y' = Some i' \<and> deleter (impl_buffer i') = deleter (impl_buffer i)" by blast
  qed simp_all
next
  case (ending s R received' D readers' q)
  then show ?case by (auto intro: accounted_same)
qed


section \<open>Everything can be released\<close>

text \<open>What is alive; each item can be released by one call.\<close>

definition alive :: "transport \<Rightarrow> nat" where
  "alive s = size (readers s) + size (received s) + card (dom (writers s)) + card (dom (buffers s))"

lemma release_one:
  assumes inv: "transport_inv (leases_on s) s" and some: "alive s \<noteq> 0"
  shows "\<exists>t. basic_step s t \<and> alive t < alive s \<and> lost t = lost s \<and>
    length (all_blocks (pool (node t))) = length (all_blocks (pool (node s)))"
proof -
  note invD = transport_invD [OF inv] and fin = finite_buffers [OF inv]
  then have finw: "finite (dom (writers s))" by (meson finite_subset)
  from some fin finw consider "readers s \<noteq> {#}" | "received s \<noteq> {#}" | x wh where "writers s x = Some wh"
    | x im where "buffers s x = Some im" "writers s x = None"
    unfolding alive_def by (auto simp: card_eq_0_iff) (metis domIff empty_iff not_None_eq)+
  then show ?thesis
  proof cases
    case 1
    then obtain dd rh rest where m: "readers s = add_mset (dd, rh) rest" by (metis multiset_nonemptyE mset_add surj_pair)
    obtain rh' w where r: "release_read_handle rh (node s) = (rh', w)" by (metis prod.exhaust)
    from invD(7) [of "(dd, rh)"] m obtain c where "reader_lease rh = Some c" "read_promoted rh = None" by (auto simp: reader_ok_def)
    from release_read_handle_calm [OF r this(2,1)] basic_step.reading_done [OF m r] show ?thesis
      by (intro exI [of _ "s\<lparr>node := w, readers := rest\<rparr>"]) (simp add: alive_def m)
  next
    case 2
    then obtain d im rest where m: "received s = add_mset (d, im) rest" by (metis multiset_nonemptyE mset_add surj_pair)
    have ok: "received_ok (d, im) (node s)" using invD(6) [of "(d, im)"] m by simp
    then obtain c where "buffer_control (impl_buffer im) = Some c" by (auto simp: received_ok_def)
    from destroy_received_calm [OF ok this] basic_step.dropping [OF m] show ?thesis
      by (intro exI [of _ "s\<lparr>node := destroy_impl im (node s), received := rest\<rparr>"]) (simp add: alive_def m)
  next
    case (3 x wh)
    obtain wh' w where r: "release_write_handle wh (node s) = (wh', w)" by (metis prod.exhaust)
    have "write_promoted wh = None" using invD(5) [OF 3] by (auto simp: writer_ok_def)
    moreover have "card (dom (writers s) - {x}) < card (dom (writers s))" using 3 finw by (intro card_Diff1_less) auto
    ultimately show ?thesis using release_write_handle_calm [OF r] basic_step.writing_done [OF 3 r]
      by (intro exI [of _ "s\<lparr>node := w, writers := (writers s)(x := None)\<rparr>"]) (simp add: alive_def)
  next
    case (4 x im)
    from invD(3) [OF 4(1)] obtain i where own: "owns (impl_buffer im) i (node s)" by (auto simp: buffer_ok_def)
    then have "length (all_blocks (pool (destroy_impl im (node s)))) = length (all_blocks (pool (node s)))"
      by (simp add: destroy_impl_def reset_owned [OF own] pool_free_used owns_def)
    moreover have "card (dom (buffers s) - {x}) < card (dom (buffers s))" using 4(1) fin(1) by (intro card_Diff1_less) auto
    ultimately show ?thesis using basic_step.destroying [OF 4]
      by (intro exI [of _ "s\<lparr>node := destroy_impl im (node s), buffers := (buffers s)(x := None)\<rparr>"]) (simp add: alive_def)
  qed
qed

lemma release_all:
  "transport_inv (leases_on s) s \<Longrightarrow>
   \<exists>t. basic_step\<^sup>*\<^sup>* s t \<and> alive t = 0 \<and> lost t = lost s \<and>
     length (all_blocks (pool (node t))) = length (all_blocks (pool (node s)))"
proof (induction "alive s" arbitrary: s rule: less_induct)
  case less
  show ?case
  proof (cases "alive s = 0")
    case True
    then show ?thesis by blast
  next
    case False
    from release_one [OF less(2) this] obtain u where u: "basic_step s u" "alive u < alive s" "lost u = lost s"
      "length (all_blocks (pool (node u))) = length (all_blocks (pool (node s)))" by blast
    from less(1) [OF u(2) basic_step_inv [OF u(1) less(2)]] u show ?thesis by (metis run_step)
  qed
qed

section \<open>A free block without leases is handed out again\<close>

lemma allocate_recycles:
  assumes inv: "pool_inv p k" and i: "i < length (all_blocks p)" "\<not> in_use (all_blocks p ! i)" "control (all_blocks p ! i) = Some c"
    and idle: "reader_state (hdr k c) = 0" and grace: "\<And>n. reusable_at (clock k n) (hdr k c)"
  shows "\<exists>j p' k'. allocate create (block_payload_size (all_blocks p ! i)) p k = (Inr j, p', k') \<and> j < length (all_blocks p) \<and>
    length (all_blocks p') = length (all_blocks p)"
proof -
  let ?sz = "block_payload_size (all_blocks p ! i)"
  have fo: "free_ok {} p" using inv by (simp add: pool_inv_def pool_inv_except_def)
  have sz: "?sz \<noteq> 0" using pool_inv_block [OF inv i(1)] by (auto simp: block_ok_def)
  have mem: "i \<in> set (bucket p ?sz)" using fo i(1,2) by (fastforce simp: free_ok_def bucket_def)
  have cs: "b < length (all_blocks p)" if "b \<in> set (bucket p ?sz)" for b using that free_ok_bucket [OF fo] by blast
  then have ctl: "\<forall>b \<in> set (bucket p ?sz). \<exists>c. control (all_blocks p ! b) = Some c"
    using pool_inv_block [OF inv] block_ok_control by blast
  obtain found k1 where cl: "claim_candidate p (bucket p ?sz) 0 k = (found, k1)" by (metis prod.exhaust)
  show ?thesis
  proof (cases found)
    case None
    from claim_candidate_None [OF cl [unfolded None] ctl] mem i(3) obtain n where
      "\<not> (reusable_at (clock k n) (hdr k c) \<and> reader_state (hdr k c) = 0)" by blast
    with idle grace show ?thesis by simp
  next
    case (Some j)
    from claim_candidate_Some [OF cl [unfolded Some] ctl] have j: "j < length (bucket p ?sz)" by auto
    obtain p2 k2 where rb: "reserve_block (bucket p ?sz ! j) (take_candidate ?sz (bucket p ?sz) j p) k1 = (p2, k2)"
      by (metis prod.exhaust)
    have "length (all_blocks p2) = length (all_blocks p)"
      using rb by (auto simp: reserve_block_def Let_def draw_uid_eq take_candidate_def update_block_def)
    with allocate_claimed [OF sz cl [unfolded Some] rb] cs [OF nth_mem [OF j]] show ?thesis by blast
  qed
qed


section \<open>Properties\<close>

lemma reachable_accounted: "transport_reachable s \<Longrightarrow> accounted s"
proof (induction rule: transport_reachable.induct)
  case (start rng br k)
  show ?case by (simp add: accounted_def transport_start_def new_pool_def)
next
  case (step s t)
  have "transport_inv (leases_on u) u \<and> accounted u" if "basic_step\<^sup>*\<^sup>* s u" for u
    using that
  proof (induction rule: rtranclp_induct)
    case base
    with step show ?case by (simp add: transport_reachable_inv)
  next
    case (step v u)
    then show ?case using basic_step_inv basic_step_accounted by blast
  qed
  with transport_step_run [OF step(2) transport_reachable_inv [OF step(1)]] show ?case by blast
qed

text \<open>
  C5: no block leaks.  In every reachable state, also after allocations, resizes, clones and
  promotions that threw half-way, a block that the pool counts as in use belongs to exactly one
  live buffer, whose destruction will give it back.
\<close>

theorem blocks_in_use_belong_to_one_buffer:
  assumes "transport_reachable s" and "i < length (all_blocks (pool (node s)))" and "in_use (all_blocks (pool (node s)) ! i)"
  shows "\<exists>!x. \<exists>im. buffers s x = Some im \<and> deleter (impl_buffer im) = Free_block (Some i)"
proof -
  obtain x im where x: "buffers s x = Some im" "deleter (impl_buffer im) = Free_block (Some i)"
    using reachable_accounted [OF assms(1)] assms(2,3) unfolding accounted_def by blast
  moreover have "y = x" if "buffers s y = Some im'" "deleter (impl_buffer im') = Free_block (Some i)" for y im'
    using transport_invD(4) [OF transport_reachable_inv [OF assms(1)]] x that unfolding separate_def by metis
  ultimately show ?thesis by blast
qed

lemma transport_steps: "basic_step\<^sup>*\<^sup>* s t \<Longrightarrow> transport_step\<^sup>*\<^sup>* s t"
  by (induction rule: rtranclp_induct) (auto intro: rtranclp.rtrancl_into_rtrancl transport_step.single)

text \<open>
  C6: nothing gets stuck.  From every reachable state everything alive in every process can be
  released, and after that (and the grace period) a request of the size of any block that no killed
  process has pinned is served from the pool: it succeeds whatever the system calls would
  return, and no mapping is added.
\<close>

theorem released_memory_is_recycled:
  assumes "transport_reachable s"
  shows "\<exists>t. transport_step\<^sup>*\<^sup>* s t \<and> buffers t = Map.empty \<and> received t = {#} \<and> readers t = {#} \<and> lost t = lost s \<and>
    length (all_blocks (pool (node t))) = length (all_blocks (pool (node s))) \<and>
    (\<forall>i c cl create. i < length (all_blocks (pool (node t))) \<longrightarrow> control (all_blocks (pool (node t)) ! i) = Some c \<longrightarrow>
       Some c \<notin># lost s \<longrightarrow> (\<forall>n. unat (publish_timestamp_us (hdr (kern (node t)) c)) + 100000 \<le> unat (cl n)) \<longrightarrow>
       (\<exists>j p k. allocate create (block_payload_size (all_blocks (pool (node t)) ! i)) (pool (node t))
            ((kern (node t))\<lparr>clock := cl\<rparr>) = (Inr j, p, k) \<and>
          j < length (all_blocks (pool (node t))) \<and> length (all_blocks p) = length (all_blocks (pool (node t)))))"
proof -
  have inv: "transport_inv (leases_on s) s" by (rule transport_reachable_inv [OF assms])
  from release_all [OF inv] obtain t where t: "basic_step\<^sup>*\<^sup>* s t" "alive t = 0" "lost t = lost s"
    "length (all_blocks (pool (node t))) = length (all_blocks (pool (node s)))" by blast
  have inv': "transport_inv (leases_on t) t" by (rule basic_steps_inv [OF t(1) inv])
  have empty: "buffers t = Map.empty" "received t = {#}" "readers t = {#}"
    using t(2) finite_buffers [OF inv'] by (auto simp: alive_def)
  have reach: "transport_reachable t"
    using t(1) assms by (induction rule: rtranclp_induct) (auto intro: reachable_single)
  have "\<exists>j p k. allocate create (block_payload_size (all_blocks (pool (node t)) ! i)) (pool (node t)) ((kern (node t))\<lparr>clock := cl\<rparr>) =
      (Inr j, p, k) \<and> j < length (all_blocks (pool (node t))) \<and> length (all_blocks p) = length (all_blocks (pool (node t)))"
    if i: "i < length (all_blocks (pool (node t)))" "control (all_blocks (pool (node t)) ! i) = Some c" "Some c \<notin># lost s"
      and cl: "\<forall>n. unat (publish_timestamp_us (hdr (kern (node t)) c)) + 100000 \<le> unat (cl n)" for i c cl and create :: create_mapping
  proof (rule allocate_recycles [where i = i and c = c])
    show "pool_inv (pool (node t)) ((kern (node t))\<lparr>clock := cl\<rparr>)"
      using transport_invD(1) [OF inv_passing [OF inv', of cl]] by simp
    show "\<not> in_use (all_blocks (pool (node t)) ! i)"
      using reachable_accounted [OF reach] i(1) empty(1) by (auto simp: accounted_def)
    have "leases_on t c = 0" using empty(2,3) i(3) t(3) by (simp add: leases_on_def not_in_iff)
    moreover have "is_block c (node t)" using i by (auto simp: is_block_def)
    ultimately show "reader_state (hdr ((kern (node t))\<lparr>clock := cl\<rparr>) c) = 0"
      using transport_invD(8) [OF inv'] by (simp add: counts_ok_def reader_lock_of_Readers) (metis unat_eq_zero)
    show "reusable_at (clock ((kern (node t))\<lparr>clock := cl\<rparr>) n) (hdr ((kern (node t))\<lparr>clock := cl\<rparr>) c)" for n
      using cl by (simp add: reusable_at_nat)
  qed (use i in simp_all)
  with transport_steps [OF t(1)] t(3,4) empty show ?thesis by blast
qed

theorem blocks_in_use_belong_to_one_buffer_witness:
  "\<exists>s. transport_reachable s \<and> (\<exists>!x. \<exists>im. buffers s x = Some im \<and> deleter (impl_buffer im) = Free_block (Some 0))"
proof -
  let ?s = "run_state (run_world Finalized [1, 2, 3, 4]) None"
  have "0 < length (all_blocks (pool (node ?s)))" "in_use (all_blocks (pool (node ?s)) ! 0)"
    by (simp_all add: run_state_def run_world_def sample_world_def sample_pool1_def)
  from blocks_in_use_belong_to_one_buffer [OF run_closed this] run_closed show ?thesis by (intro exI [of _ ?s]) simp
qed

theorem released_memory_is_recycled_witness:
  "\<exists>s t. transport_reachable s \<and> received s \<noteq> {#} \<and> transport_step\<^sup>*\<^sup>* s t \<and> received t = {#} \<and> buffers t = Map.empty"
proof -
  from run_reception obtain s im where r: "transport_reachable s" "(run_descriptor, im) \<in># received s" by blast
  from released_memory_is_recycled [OF r(1)] obtain t where
    t: "transport_step\<^sup>*\<^sup>* s t \<and> buffers t = Map.empty \<and> received t = {#}" by metis
  from r(2) have "received s \<noteq> {#}" by auto
  with t r(1) show ?thesis by (intro exI [of _ s] exI [of _ t]) simp
qed

end
